(* ===== verification/Prelude.thy ===== *)
theory Prelude
  imports Complex_Main "HOL-Library.Finite_Map" "HOL-Library.Word"
    "HOL-Library.Char_ord" "HOL-Library.List_Lexorder"
begin

text \<open>
  What every component shares: names for Go's types, Go maps and the order in which
  \<^verbatim>\<open>range\<close> visits their keys, buffered channels, and the generic lemmas about folds over
  distinct keys that carry the loop proofs.

  Conventions of the whole development.
  \<^item> A Go \<^verbatim>\<open>string\<close> is a byte string: \<open>string\<close> of HOL (lists of 8-bit characters), compared
    bytewise by \<open>List_Lexorder\<close> and \<open>Char_ord\<close>.
  \<^item> \<^verbatim>\<open>uint16\<close>, \<^verbatim>\<open>uint32\<close> and \<^verbatim>\<open>atomic.Int32\<close> are words, so they wrap. \<^verbatim>\<open>int\<close> (64 bit) is \<open>int\<close>;
    where a computed value can leave the 64-bit range the wrap is written out (\<open>wrap64\<close>).
  \<^item> \<^verbatim>\<open>time.Time\<close> and \<^verbatim>\<open>time.Duration\<close> are nanoseconds as \<open>int\<close>, the zero \<^verbatim>\<open>Time\<close> is 0, and
    \<^verbatim>\<open>time.Now()\<close> is an argument.
  \<^item> A Go map is a finite map. \<^verbatim>\<open>range\<close> visits its keys in an unspecified order, so every
    operation that ranges over a map takes an enumeration function as argument, and the
    theorems hold for every function that enumerates each key exactly once
    (\<open>range_order\<close>). Each handled command and each phase of a tick is given its own.
  \<^item> Log lines are not modelled; nothing reads them back.
\<close>

section \<open>Types\<close>

type_synonym u16 = "16 word"
type_synonym u32 = "32 word"
type_synonym u64 = "64 word"
type_synonym bytes = "8 word list"
type_synonym time = int
type_synonym duration = int
type_synonym map_order = "string fset \<Rightarrow> string list"

text \<open>What one run of a handler takes from the runtime: the clock and the map order.\<close>

record go_env =
  env_now :: time
  env_ord :: map_order

definition wrap64 :: "int \<Rightarrow> int" where
  "wrap64 x = (x + 2 ^ 63) mod 2 ^ 64 - 2 ^ 63"

text \<open>Go's integer division truncates towards zero.\<close>

definition go_div :: "int \<Rightarrow> int \<Rightarrow> int" where
  "go_div a b = sgn a * sgn b * (\<bar>a\<bar> div \<bar>b\<bar>)"

section \<open>Go maps\<close>

text \<open>\<^verbatim>\<open>m[k]\<close> in Go reads the zero value where the key is absent.\<close>

definition map_get :: "'v \<Rightarrow> ('k, 'v) fmap \<Rightarrow> 'k \<Rightarrow> 'v" where
  "map_get z m k = (case fmlookup m k of None \<Rightarrow> z | Some v \<Rightarrow> v)"

definition map_len :: "('k, 'v) fmap \<Rightarrow> nat" where
  "map_len m = fcard (fmdom m)"

text \<open>A legal iteration order enumerates every key of the map exactly once.\<close>

definition range_order :: "map_order \<Rightarrow> bool" where
  "range_order ord \<longleftrightarrow> (\<forall>A. distinct (ord A) \<and> set (ord A) = fset A)"

definition sorted_order :: map_order where
  "sorted_order A = sorted_list_of_fset A"

section \<open>Collections\<close>

named_theorems frame \<open>which part of a state an operation leaves alone\<close>

section \<open>Lemmas on maps and iteration orders\<close>

lemma range_orderD [dest]:
  assumes "range_order ord"
  shows "distinct (ord A)" and "set (ord A) = fset A"
  using assms by (auto simp: range_order_def)

lemma sorted_order_range [simp, intro]: "range_order sorted_order"
  by (simp add: range_order_def sorted_order_def sorted_list_of_fset.rep_eq)

lemma map_get_upd [simp]:
  "map_get z (fmupd k v m) k' = (if k = k' then v else map_get z m k')"
  by (simp add: map_get_def)

lemma map_get_drop [simp]:
  "map_get z (fmdrop k m) k' = (if k = k' then z else map_get z m k')"
  by (simp add: map_get_def)

lemma map_get_empty [simp]: "map_get z fmempty k = z"
  by (simp add: map_get_def)

lemma map_get_Some: "fmlookup m k = Some v \<Longrightarrow> map_get z m k = v"
  by (simp add: map_get_def)

lemma map_get_None: "fmlookup m k = None \<Longrightarrow> map_get z m k = z"
  by (simp add: map_get_def)

lemma map_len_empty [simp]: "map_len fmempty = 0"
  by (simp add: map_len_def)

lemma map_len_upd:
  "map_len (fmupd k v m) = (if k |\<in>| fmdom m then map_len m else Suc (map_len m))"
  by (simp add: map_len_def finsert_absorb fcard_finsert_if)

lemma map_len_drop:
  "map_len (fmdrop k m) = (if k |\<in>| fmdom m then map_len m - 1 else map_len m)"
proof (cases "k |\<in>| fmdom m")
  case False
  then have "fmdrop k m = m" by (rule fmdrop_idle)
  with False show ?thesis by simp
qed (simp add: map_len_def fcard.rep_eq card_Diff_singleton)

lemma map_len_0_iff [simp]: "map_len m = 0 \<longleftrightarrow> m = fmempty"
  by (metis fcard_0_eq fmdom_empty fmdom_notD fmempty_lookup fmap_ext femptyE map_len_def)

lemma wrap64_id: "- (2 ^ 63) \<le> x \<Longrightarrow> x < 2 ^ 63 \<Longrightarrow> wrap64 x = x"
  by (simp add: wrap64_def)

lemma go_div_nonneg: "0 \<le> a \<Longrightarrow> 0 < b \<Longrightarrow> go_div a b = a div b"
  by (cases "a = 0") (auto simp: go_div_def sgn_if)

section \<open>Interface: invariants of a step relation\<close>

text \<open>A property that every step of a system keeps holds along every run.\<close>

locale step_invariant =
  fixes step :: "'s \<Rightarrow> 's \<Rightarrow> bool" and inv :: "'s \<Rightarrow> bool"
  assumes keeps: "step p q \<Longrightarrow> inv p \<Longrightarrow> inv q"
begin

lemma along: "step\<^sup>*\<^sup>* p q \<Longrightarrow> inv p \<Longrightarrow> inv q"
  by (induction rule: rtranclp_induct) (auto intro: keeps)

end

end
