(* ===== verification/GoFloat.thy ===== *)
theory GoFloat
  imports Prelude
begin

text \<open>
  Go's \<^verbatim>\<open>float32\<close> and \<^verbatim>\<open>float64\<close>: IEEE-754 binary32 and binary64 with rounding to nearest,
  ties to even. A value is NaN, an infinity, or a number (a rational, which every finite
  float is). Arithmetic is the exact operation followed by rounding at the width of the
  operands; \<^verbatim>\<open>float64(x)\<close> of a float32 is exact, \<^verbatim>\<open>float32(x)\<close> rounds. The two zeros are one
  value here: the program compares zeros (\<^verbatim>\<open>==\<close> identifies them) and divides only by a cell
  size and by a positive count, so no branch depends on the sign of a zero. Products are
  rounded before they are added (no fused multiply-add), which is what amd64 builds do.
\<close>

section \<open>Values and rounding\<close>

datatype gofloat = FNaN | FInf bool | FNum rat  \<comment> \<open>\<open>FInf True\<close> is minus infinity\<close>

definition pow2 :: "int \<Rightarrow> rat" where
  "pow2 e = 2 powi e"

text \<open>
  Number of bits of a positive integer, and the binary exponent of a positive rational:
  \<open>pow2 e \<le> x < pow2 (e + 1)\<close>.
\<close>

function ibits :: "int \<Rightarrow> int" where
  "ibits n = (if n \<le> 0 then 0 else ibits (n div 2) + 1)"
  by pat_completeness auto
termination
  by (relation "measure nat") auto

declare ibits.simps [simp del]

definition ilog2 :: "rat \<Rightarrow> int" where
  "ilog2 x = (let (a, b) = quotient_of x; e = ibits a - ibits b
              in if pow2 e \<le> x then e else e - 1)"

definition round_even :: "rat \<Rightarrow> int" where
  "round_even x = (let f = \<lfloor>x\<rfloor>; d = x - of_int f
     in if d < 1 / 2 then f else if d > 1 / 2 then f + 1 else if even f then f else f + 1)"

text \<open>
  \<open>fround p emin emax x\<close>: the float with \<open>p\<close> bits of significand and exponents from
  \<open>emin\<close> to \<open>emax\<close> nearest to \<open>x\<close> (gradual underflow below \<open>emin\<close>, infinity above).
\<close>

definition ulp_exp :: "int \<Rightarrow> int \<Rightarrow> rat \<Rightarrow> int" where
  "ulp_exp p emin x = max (ilog2 \<bar>x\<bar>) emin - (p - 1)"

definition fround :: "int \<Rightarrow> int \<Rightarrow> int \<Rightarrow> rat \<Rightarrow> gofloat" where
  "fround p emin emax x =
     (if x = 0 then FNum 0
      else let u = pow2 (ulp_exp p emin x); y = of_int (round_even (x / u)) * u
           in if \<bar>y\<bar> \<ge> pow2 (emax + 1) then FInf (x < 0) else FNum y)"

definition round32 :: "rat \<Rightarrow> gofloat" where
  "round32 = fround 24 (-126) 127"

definition round64 :: "rat \<Rightarrow> gofloat" where
  "round64 = fround 53 (-1022) 1023"

text \<open>The conversion \<^verbatim>\<open>float32(x)\<close> of a float64.\<close>

fun to_f32 :: "gofloat \<Rightarrow> gofloat" where
  "to_f32 (FNum a) = round32 a"
| "to_f32 x = x"

section \<open>Arithmetic, at a width given by its rounding\<close>

fun fneg :: "gofloat \<Rightarrow> gofloat" where
  "fneg FNaN = FNaN"
| "fneg (FInf s) = FInf (\<not> s)"
| "fneg (FNum a) = FNum (- a)"

fun fadd :: "(rat \<Rightarrow> gofloat) \<Rightarrow> gofloat \<Rightarrow> gofloat \<Rightarrow> gofloat" where
  "fadd rnd (FNum a) (FNum b) = rnd (a + b)"
| "fadd rnd (FInf s) (FInf t) = (if s = t then FInf s else FNaN)"
| "fadd rnd (FInf s) (FNum b) = FInf s"
| "fadd rnd (FNum a) (FInf t) = FInf t"
| "fadd rnd _ _ = FNaN"

definition fsub :: "(rat \<Rightarrow> gofloat) \<Rightarrow> gofloat \<Rightarrow> gofloat \<Rightarrow> gofloat" where
  "fsub rnd x y = fadd rnd x (fneg y)"

fun fmul :: "(rat \<Rightarrow> gofloat) \<Rightarrow> gofloat \<Rightarrow> gofloat \<Rightarrow> gofloat" where
  "fmul rnd (FNum a) (FNum b) = rnd (a * b)"
| "fmul rnd (FInf s) (FInf t) = FInf (s \<noteq> t)"
| "fmul rnd (FInf s) (FNum b) = (if b = 0 then FNaN else FInf (s \<noteq> (b < 0)))"
| "fmul rnd (FNum a) (FInf t) = (if a = 0 then FNaN else FInf ((a < 0) \<noteq> t))"
| "fmul rnd _ _ = FNaN"

fun fdiv :: "(rat \<Rightarrow> gofloat) \<Rightarrow> gofloat \<Rightarrow> gofloat \<Rightarrow> gofloat" where
  "fdiv rnd (FNum a) (FNum b) =
     (if b = 0 then (if a = 0 then FNaN else FInf (a < 0)) else rnd (a / b))"
| "fdiv rnd (FInf s) (FInf t) = FNaN"
| "fdiv rnd (FInf s) (FNum b) = FInf (s \<noteq> (b < 0))"
| "fdiv rnd (FNum a) (FInf t) = FNum 0"
| "fdiv rnd _ _ = FNaN"

section \<open>Comparisons and the functions of package math\<close>

fun flt :: "gofloat \<Rightarrow> gofloat \<Rightarrow> bool" where
  "flt (FNum a) (FNum b) = (a < b)"
| "flt (FInf s) (FInf t) = (s \<and> \<not> t)"
| "flt (FInf s) (FNum b) = s"
| "flt (FNum a) (FInf t) = (\<not> t)"
| "flt _ _ = False"

fun feq :: "gofloat \<Rightarrow> gofloat \<Rightarrow> bool" where
  "feq (FNum a) (FNum b) = (a = b)"
| "feq (FInf s) (FInf t) = (s = t)"
| "feq _ _ = False"

definition fle :: "gofloat \<Rightarrow> gofloat \<Rightarrow> bool" where
  "fle x y = (flt x y \<or> feq x y)"

definition IsNaN :: "gofloat \<Rightarrow> bool" where
  "IsNaN x = (x = FNaN)"

fun IsInf :: "gofloat \<Rightarrow> bool" where
  "IsInf (FInf s) = True"
| "IsInf _ = False"

fun Abs :: "gofloat \<Rightarrow> gofloat" where
  "Abs FNaN = FNaN"
| "Abs (FInf s) = FInf False"
| "Abs (FNum a) = FNum \<bar>a\<bar>"

fun Floor :: "gofloat \<Rightarrow> gofloat" where
  "Floor (FNum a) = FNum (of_int \<lfloor>a\<rfloor>)"
| "Floor x = x"

fun Ceil :: "gofloat \<Rightarrow> gofloat" where
  "Ceil (FNum a) = FNum (of_int \<lceil>a\<rceil>)"
| "Ceil x = x"

text \<open>
  \<^verbatim>\<open>int(x)\<close> of a float64 truncates; outside the 64-bit range Go leaves the result to the
  implementation, and amd64 gives the least integer.
\<close>

fun to_int :: "gofloat \<Rightarrow> int" where
  "to_int (FNum a) =
     (let t = (if a < 0 then \<lceil>a\<rceil> else \<lfloor>a\<rfloor>)
      in if - (2 ^ 63) \<le> t \<and> t < 2 ^ 63 then t else - (2 ^ 63))"
| "to_int x = - (2 ^ 63)"

text \<open>Integer square root, and \<^verbatim>\<open>math.Sqrt\<close>, which IEEE-754 requires to be correctly rounded.\<close>

function isqrt :: "int \<Rightarrow> int" where
  "isqrt n = (if n \<le> 0 then 0
              else let r = 2 * isqrt (n div 4) in if (r + 1) * (r + 1) \<le> n then r + 1 else r)"
  by pat_completeness auto
termination
  by (relation "measure nat") auto

declare isqrt.simps [simp del]

definition sqrt_num :: "rat \<Rightarrow> rat" where
  "sqrt_num x =
     (let u = pow2 (ilog2 x div 2 - 52); q = x / (u * u); m = of_int (isqrt \<lfloor>q\<rfloor>)
      in if (m + 1 / 2) * (m + 1 / 2) < q then (m + 1) * u else m * u)"

fun Sqrt :: "gofloat \<Rightarrow> gofloat" where
  "Sqrt (FNum a) = (if a < 0 then FNaN else if a = 0 then FNum 0 else FNum (sqrt_num a))"
| "Sqrt (FInf s) = (if s then FNaN else FInf False)"
| "Sqrt FNaN = FNaN"

definition finite_float :: "gofloat \<Rightarrow> bool" where
  "finite_float x = (\<not> IsNaN x \<and> \<not> IsInf x)"

section \<open>Lemmas\<close>

lemma finite_float_iff: "finite_float x \<longleftrightarrow> (\<exists>a. x = FNum a)"
  by (cases x) (auto simp: finite_float_def IsNaN_def)

lemma finite_float_FNum [simp]: "finite_float (FNum a)"
  by (simp add: finite_float_iff)

lemma fle_num [simp]: "fle (FNum a) (FNum b) \<longleftrightarrow> a \<le> b"
  by (auto simp: fle_def)

lemma flt_irrefl [simp]: "\<not> flt x x"
  by (cases x) auto

lemma flt_trans: "flt x y \<Longrightarrow> flt y z \<Longrightarrow> flt x z"
  by (cases x; cases y; cases z) auto

text \<open>On values other than NaN the order is total, so "not less" is transitive too.\<close>

lemma not_flt_trans:
  "\<lbrakk>\<not> IsNaN x; \<not> IsNaN y; \<not> IsNaN z; \<not> flt x y; \<not> flt y z\<rbrakk> \<Longrightarrow> \<not> flt x z"
  by (cases x; cases y; cases z) (auto simp: IsNaN_def)

lemma flt_not_flt_trans:
  "\<lbrakk>\<not> IsNaN z; flt x y; \<not> flt z y\<rbrakk> \<Longrightarrow> flt x z"
  by (cases x; cases y; cases z) (auto simp: IsNaN_def)

lemma pow2_pos [simp]: "0 < pow2 e"
  by (simp add: pow2_def)

lemma pow2_nz [simp]: "pow2 e \<noteq> 0" "0 \<le> pow2 e" "\<bar>pow2 e\<bar> = pow2 e"
  by (simp_all add: pow2_def)

lemma pow2_add: "pow2 (a + b) = pow2 a * pow2 b"
  by (simp add: pow2_def power_int_add)

lemma pow2_mono: "a \<le> b \<Longrightarrow> pow2 a \<le> pow2 b"
  by (simp add: pow2_def power_int_increasing)

lemma pow2_nat: "pow2 (int n) = 2 ^ n"
  by (simp add: pow2_def)

lemma pow2_neg_int: "e \<le> 0 \<Longrightarrow> \<exists>m::int. inverse (pow2 e) = of_int m"
  by (rule exI [of _ "2 ^ nat (- e)"]) (simp add: pow2_def power_int_def power_one_over)

lemma ibits_nonneg: "0 \<le> ibits n"
  by (induction n rule: ibits.induct) (simp add: ibits.simps)

lemma ibits_bounds: "0 < c \<Longrightarrow> pow2 (ibits c - 1) \<le> of_int c \<and> of_int c < pow2 (ibits c)"
proof (induction c rule: ibits.induct)
  case (1 n)
  show ?case
  proof (cases "n = 1")
    case True
    then show ?thesis by (simp add: ibits.simps pow2_def)
  next
    case False
    define h where "h = n div 2"
    have n: "2 * h \<le> n \<and> n < 2 * h + 2" unfolding h_def by arith
    obtain m :: int where m: "pow2 (ibits h) = of_int m"
      using pow2_nat [of "nat (ibits h)"] ibits_nonneg [of h]
      by (metis int_nat_eq of_int_numeral of_int_power)
    have IH: "pow2 (ibits h - 1) \<le> of_int h \<and> of_int h < pow2 (ibits h)"
      using "1.IH" "1.prems" False by (simp add: h_def)
    then have "h < m" by (simp add: m)
    with n have "n < 2 * m" by linarith
    then have up: "of_int n < 2 * pow2 (ibits h)" unfolding m by linarith
    have lo: "2 * pow2 (ibits h - 1) \<le> of_int n" using IH n by linarith
    have "ibits n = ibits h + 1" using "1.prems" by (simp add: ibits.simps [of n] h_def)
    with up lo show ?thesis
      by (simp add: pow2_def power_int_diff power_int_add mult.commute)
  qed
qed

lemma ilog2_bounds:
  assumes "0 < x"
  shows "pow2 (ilog2 x) \<le> x" and "x < pow2 (ilog2 x + 1)"
proof -
  obtain a b where q: "quotient_of x = (a, b)" by (cases "quotient_of x")
  from q have b: "0 < b" and x: "x = of_int a / of_int b"
    by (auto simp: quotient_of_denom_pos quotient_of_div)
  from assms b x have a: "0 < a" by (simp add: zero_less_divide_iff)
  define e where "e = ibits a - ibits b"
  note ba = ibits_bounds [OF a] and bb = ibits_bounds [OF b]
  have "of_int a < pow2 (e + 1) * pow2 (ibits b - 1)"
    using ba by (simp add: e_def flip: pow2_add)
  also have "\<dots> \<le> pow2 (e + 1) * of_int b" using bb by simp
  finally have up: "x < pow2 (e + 1)" using b by (simp add: x pos_divide_less_eq)
  have "pow2 (e - 1) * of_int b \<le> pow2 (e - 1) * pow2 (ibits b)" using bb by simp
  also have "\<dots> = pow2 (ibits a - 1)" by (simp add: e_def flip: pow2_add)
  also have "\<dots> \<le> of_int a" using ba by simp
  finally have lo: "pow2 (e - 1) \<le> x" using b by (simp add: x pos_le_divide_eq)
  have "ilog2 x = (if pow2 e \<le> x then e else e - 1)"
    by (simp add: ilog2_def q e_def)
  with up lo show "pow2 (ilog2 x) \<le> x" and "x < pow2 (ilog2 x + 1)"
    by (auto split: if_splits)
qed

lemma round_even_of_int [simp]: "round_even (of_int n) = n"
  by (simp add: round_even_def)

lemma fround_exact:
  assumes "x = of_int m * pow2 (ulp_exp p emin x)" and "\<bar>x\<bar> < pow2 (emax + 1)"
  shows "fround p emin emax x = FNum x"
proof (cases "x = 0")
  case False
  have "x / pow2 (ulp_exp p emin x) = of_int m"
    using assms(1) by (metis less_irrefl nonzero_mult_div_cancel_right pow2_pos)
  with assms show ?thesis by (simp add: fround_def Let_def)
qed (simp add: fround_def)

lemma fround_of_int:
  assumes "\<bar>n\<bar> < 2 ^ nat p" and "0 < p" and "emin \<le> p - 1" and "p \<le> emax + 1"
  shows "fround p emin emax (of_int n) = FNum (of_int n)"
proof (cases "n = 0")
  case False
  let ?x = "of_int n :: rat"
  let ?e = "ilog2 \<bar>?x\<bar>"
  have abs: "\<bar>?x\<bar> < pow2 p"
  proof -
    have "\<bar>?x\<bar> = of_int \<bar>n\<bar>" by simp
    also have "\<dots> < of_int (2 ^ nat p)" using assms(1) by (simp only: of_int_less_iff)
    also have "\<dots> = pow2 p" using assms(2) by (simp add: pow2_def power_int_def)
    finally show ?thesis .
  qed
  have "pow2 ?e \<le> \<bar>?x\<bar>" using False by (simp add: ilog2_bounds)
  with abs have "pow2 ?e < pow2 p" by simp
  then have "?e < p" using pow2_mono [of p ?e] by (meson leD not_le)
  with assms have "ulp_exp p emin ?x \<le> 0" by (simp add: ulp_exp_def)
  then obtain m :: int where m: "inverse (pow2 (ulp_exp p emin ?x)) = of_int m"
    using pow2_neg_int by blast
  have "?x = of_int (n * m) * pow2 (ulp_exp p emin ?x)"
    by (simp add: field_simps flip: m)
  moreover have "\<bar>?x\<bar> < pow2 (emax + 1)"
    using abs assms(4) pow2_mono [of p "emax + 1"] by linarith
  ultimately show ?thesis by (rule fround_exact)
qed (simp add: fround_def)

text \<open>Small integers survive rounding, which makes concrete inputs evaluate by \<open>simp\<close>.\<close>

lemma round32_of_int: "\<bar>n\<bar> < 2 ^ 24 \<Longrightarrow> round32 (of_int n) = FNum (of_int n)"
  unfolding round32_def by (rule fround_of_int) simp_all

lemma round64_of_int: "\<bar>n\<bar> < 2 ^ 53 \<Longrightarrow> round64 (of_int n) = FNum (of_int n)"
  unfolding round64_def by (rule fround_of_int) simp_all

lemma round_numeral [simp]:
  "numeral k < (2 ^ 24 :: int) \<Longrightarrow> round32 (numeral k) = FNum (numeral k)"
  "numeral k < (2 ^ 24 :: int) \<Longrightarrow> round32 (- numeral k) = FNum (- numeral k)"
  "numeral k < (2 ^ 53 :: int) \<Longrightarrow> round64 (numeral k) = FNum (numeral k)"
  "numeral k < (2 ^ 53 :: int) \<Longrightarrow> round64 (- numeral k) = FNum (- numeral k)"
  using round32_of_int [of "numeral k"] round32_of_int [of "- numeral k"]
    round64_of_int [of "numeral k"] round64_of_int [of "- numeral k"] by simp_all

lemma round_0_1 [simp]:
  "round32 0 = FNum 0" "round64 0 = FNum 0" "round32 1 = FNum 1" "round64 1 = FNum 1"
  "round32 (-1) = FNum (-1)" "round64 (-1) = FNum (-1)"
  using round32_of_int [of 1] round64_of_int [of 1] round32_of_int [of "-1"] round64_of_int [of "-1"]
  by (simp_all add: round32_def round64_def fround_def)

lemma fround_not_NaN [simp]: "\<not> IsNaN (fround p emin emax x)"
  by (simp add: fround_def IsNaN_def Let_def)

lemma round_not_NaN [simp]: "\<not> IsNaN (round32 x)" "\<not> IsNaN (round64 x)"
  by (simp_all add: round32_def round64_def)

section \<open>Rounding error\<close>

text \<open>A rational is a float32 value when rounding keeps it.\<close>

definition is_f32 :: "rat \<Rightarrow> bool" where
  "is_f32 x \<longleftrightarrow> round32 x = FNum x"

lemma round_even_error: "\<bar>of_int (round_even q) - q\<bar> \<le> 1 / 2"
proof -
  have "of_int \<lfloor>q\<rfloor> \<le> q" "q < of_int \<lfloor>q\<rfloor> + 1" using floor_correct [of q] by simp_all
  then show ?thesis by (simp add: round_even_def Let_def)
qed

lemma round_ulp_error:
  assumes "0 < u"
  shows "\<bar>of_int (round_even (x / u)) * u - x\<bar> \<le> u / 2"
proof -
  have "of_int (round_even (x / u)) * u - x = (of_int (round_even (x / u)) - x / u) * u"
    using assms by (simp add: left_diff_distrib)
  then have "\<bar>of_int (round_even (x / u)) * u - x\<bar> = \<bar>of_int (round_even (x / u)) - x / u\<bar> * u"
    using assms by (simp add: abs_mult)
  also have "\<dots> \<le> 1 / 2 * u" by (rule mult_right_mono [OF round_even_error]) (use assms in simp)
  finally show ?thesis by simp
qed

lemma fround_error:
  assumes "fround p emin emax x = FNum y" "x \<noteq> 0"
  shows "\<bar>y - x\<bar> \<le> pow2 (ulp_exp p emin x - 1)"
proof -
  have "y = of_int (round_even (x / pow2 (ulp_exp p emin x))) * pow2 (ulp_exp p emin x)"
    using assms by (simp add: fround_def Let_def split: if_splits)
  moreover have "pow2 (ulp_exp p emin x - 1) = pow2 (ulp_exp p emin x) / 2"
    by (simp add: pow2_def power_int_diff)
  ultimately show ?thesis using round_ulp_error [of "pow2 (ulp_exp p emin x)" x] by simp
qed

lemma is_f32_multiple:
  assumes "is_f32 x" "x \<noteq> 0"
  shows "\<exists>m. x = of_int m * pow2 (ulp_exp 24 (-126) x)"
  using assms by (auto simp: is_f32_def round32_def fround_def Let_def split: if_splits) (metis)

lemma pow2_strict_mono: "a < b \<Longrightarrow> pow2 a < pow2 b"
  by (simp add: pow2_def power_int_strict_increasing)

lemma ilog2_less: "0 < x \<Longrightarrow> x < pow2 e \<Longrightarrow> ilog2 x < e"
  using ilog2_bounds(1) [of x] pow2_mono [of e "ilog2 x"] by (meson le_less_trans leD not_le)

lemma ilog2_ge: "0 < x \<Longrightarrow> pow2 e \<le> x \<Longrightarrow> e \<le> ilog2 x"
  using ilog2_bounds(2) [of x] pow2_mono [of "ilog2 x + 1" e] by linarith

text \<open>Rounding a number of modest size never overflows.\<close>

text \<open>For evaluation: the overflow test without the power of two it compares with.\<close>

lemma fround_code [code]:
  "fround p emin emax x =
     (if x = 0 then FNum 0
      else let u = pow2 (ulp_exp p emin x); y = of_int (round_even (x / u)) * u
           in if y \<noteq> 0 \<and> emax < ilog2 \<bar>y\<bar> then FInf (x < 0) else FNum y)"
proof -
  have "pow2 (emax + 1) \<le> \<bar>y\<bar> \<longleftrightarrow> y \<noteq> 0 \<and> emax < ilog2 \<bar>y\<bar>" for y
  proof (cases "y = 0")
    case True then show ?thesis using pow2_pos [of "emax + 1"] by (simp add: not_le)
  next
    case False
    then show ?thesis using ilog2_ge [of "\<bar>y\<bar>" "emax + 1"] ilog2_less [of "\<bar>y\<bar>" "emax + 1"] by force
  qed
  then show ?thesis by (simp add: fround_def)
qed

lemma round32_finite:
  assumes "\<bar>x\<bar> \<le> pow2 100"
  obtains y where "round32 x = FNum y"
proof (cases "x = 0")
  case False
  let ?u = "pow2 (ulp_exp 24 (-126) x)"
  let ?y = "of_int (round_even (x / ?u)) * ?u"
  have "\<bar>x\<bar> < pow2 101" using assms pow2_strict_mono [of 100 101] by linarith
  then have "ilog2 \<bar>x\<bar> < 101" using False by (intro ilog2_less) auto
  then have "?u \<le> pow2 100" by (intro pow2_mono) (simp add: ulp_exp_def)
  have "\<bar>?y - x\<bar> \<le> ?u / 2" by (rule round_ulp_error) simp
  then have "\<bar>?y\<bar> \<le> \<bar>x\<bar> + ?u" using pow2_pos [of "ulp_exp 24 (-126) x"] by linarith
  with assms \<open>?u \<le> pow2 100\<close> have "\<bar>?y\<bar> \<le> 2 * pow2 100" by linarith
  also have "\<dots> = pow2 101" by (simp add: pow2_def power_int_def)
  also have "\<dots> < pow2 (127 + 1)" by (rule pow2_strict_mono) simp
  finally show thesis using that False by (simp add: round32_def fround_def Let_def)
qed (use that in simp)

text \<open>
  Dividing a float32 by ten (the default cell size) and rounding never moves the quotient across
  or onto an integer it was not on: the spacing of the dividend is more than ten times the
  rounding error of the quotient.
\<close>

lemma div10_gap:
  assumes "is_f32 x" "pow2 (-120) \<le> \<bar>x\<bar>" "\<bar>x\<bar> < pow2 23" "x \<noteq> 10 * of_int k"
  shows "pow2 (ilog2 \<bar>x\<bar> - 27) < \<bar>of_int k - x / 10\<bar>"
proof -
  let ?E = "ilog2 \<bar>x\<bar>"
  have x0: "0 < \<bar>x\<bar>" using assms(2) by (meson less_le_trans pow2_pos)
  have E: "-120 \<le> ?E" "?E < 23" using ilog2_ge [OF x0 assms(2)] ilog2_less [OF x0 assms(3)] by auto
  from is_f32_multiple [OF assms(1)] x0 E obtain m where m: "x = of_int m * pow2 (?E - 23)"
    by (auto simp: ulp_exp_def)
  obtain n :: int where n: "inverse (pow2 (?E - 23)) = of_int n"
    using pow2_neg_int [of "?E - 23"] E by auto
  define d where "d = 10 * k * n - m"
  have one: "of_int n * pow2 (?E - 23) = 1" by (simp flip: n)
  have "of_int d * pow2 (?E - 23) = 10 * of_int k * (of_int n * pow2 (?E - 23)) - x"
    by (simp add: d_def left_diff_distrib mult.assoc flip: m)
  then have d: "of_int d * pow2 (?E - 23) = 10 * of_int k - x" by (simp add: one)
  with assms(4) have "d \<noteq> 0" by auto
  then have "1 \<le> \<bar>of_int d :: rat\<bar>" by simp
  then have "1 * pow2 (?E - 23) \<le> \<bar>of_int d\<bar> * pow2 (?E - 23)" by (rule mult_right_mono) simp
  then have "pow2 (?E - 23) \<le> \<bar>of_int d * pow2 (?E - 23)\<bar>" by (simp add: abs_mult)
  then have "pow2 (?E - 23) \<le> \<bar>10 * of_int k - x\<bar>" by (simp add: d)
  moreover have "pow2 (?E - 23) = 16 * pow2 (?E - 27)" by (simp add: pow2_def power_int_diff)
  moreover have "\<bar>of_int k - x / 10\<bar> = \<bar>10 * of_int k - x\<bar> / 10" by (simp add: abs_if field_simps)
  moreover have "0 < pow2 (?E - 27)" by simp
  ultimately show ?thesis by linarith
qed

lemma div10_compare:
  assumes "is_f32 x" "x = 0 \<or> pow2 (-120) \<le> \<bar>x\<bar>" "\<bar>x\<bar> < pow2 23"
  obtains y where "round32 (x / 10) = FNum y"
    "\<And>k::int. y < of_int k \<longleftrightarrow> x / 10 < of_int k" "\<And>k::int. of_int k < y \<longleftrightarrow> of_int k < x / 10"
proof (cases "x = 0")
  case False
  with assms have lo: "pow2 (-120) \<le> \<bar>x\<bar>" by simp
  let ?E = "ilog2 \<bar>x\<bar>" let ?q = "x / 10"
  have E: "-120 \<le> ?E" using ilog2_ge [OF _ lo] False by simp
  have "\<bar>?q\<bar> < pow2 (?E - 2)"
    using ilog2_bounds(2) [of "\<bar>x\<bar>"] False pow2_pos [of ?E]
    by (simp add: pow2_def power_int_add power_int_diff) 
  then have "ilog2 \<bar>?q\<bar> < ?E - 2" using False by (intro ilog2_less) auto
  then have ulp: "ulp_exp 24 (-126) ?q \<le> ?E - 26" using E by (simp add: ulp_exp_def)
  have "\<bar>?q\<bar> \<le> pow2 100" using assms(3) pow2_mono [of 23 100] by simp
  then obtain y where y: "round32 ?q = FNum y" by (rule round32_finite)
  have err: "\<bar>y - ?q\<bar> \<le> pow2 (?E - 27)"
    using fround_error [OF y [unfolded round32_def]] False pow2_mono [OF ulp] pow2_mono [of "ulp_exp 24 (-126) ?q - 1" "?E - 27"] ulp
    by simp
  have cmp: "(y < of_int k \<longleftrightarrow> ?q < of_int k) \<and> (of_int k < y \<longleftrightarrow> of_int k < ?q)" for k :: int
  proof (cases "x = 10 * of_int k")
    case True
    have "\<bar>of_int k :: rat\<bar> < pow2 23" using True assms(3) by simp
    also have "\<dots> = of_int (2 ^ 23)" by (simp add: pow2_def power_int_def)
    finally have "of_int \<bar>k\<bar> < (of_int (2 ^ 23) :: rat)" by simp
    then have "\<bar>k\<bar> < 2 ^ 23" by (simp only: of_int_less_iff)
    then have "round32 (of_int k) = FNum (of_int k)" by (intro round32_of_int) simp
    with y True show ?thesis by simp
  next
    case False
    from div10_gap [OF assms(1) lo assms(3) this] err show ?thesis by linarith
  qed
  then show thesis using that [OF y] by blast
qed (use that [of 0] in simp)

end
