(* ===== verification/Player.thy ===== *)
theory Player
  imports GoFloat
begin

text \<open>
  Package \<^verbatim>\<open>internal/game/player\<close>: transforms, the player record of a room, and the validation
  of identifiers and of client input (\<^verbatim>\<open>types.go\<close>, \<^verbatim>\<open>player.go\<close>, \<^verbatim>\<open>validate.go\<close>). The mutex of
  \<^verbatim>\<open>PlayerState\<close> makes each method atomic, which a pure function is. An \<^verbatim>\<open>error\<close> result is an
  option: \<open>None\<close> is Go's \<^verbatim>\<open>nil\<close>; the constructors name the messages of the source.
\<close>

section \<open>Data\<close>

record Vector3 =
  v_X :: gofloat
  v_Y :: gofloat
  v_Z :: gofloat

record Quaternion =
  q_X :: gofloat
  q_Y :: gofloat
  q_Z :: gofloat
  q_W :: gofloat

definition IdentityQuaternion :: Quaternion where
  "IdentityQuaternion = \<lparr>q_X = FNum 0, q_Y = FNum 0, q_Z = FNum 0, q_W = FNum 1\<rparr>"

record PlayerTransform =
  pt_Position :: Vector3
  pt_Rotation :: Quaternion
  pt_Tick :: u32

record PlayerInput =
  pi_Seq :: u32
  pi_Transform :: PlayerTransform
  pi_Timestamp :: int

text \<open>\<open>PlayerStatusOther\<close> stands for the integers outside the declared constants.\<close>

datatype PlayerStatus =
  PlayerStatusJoining | PlayerStatusActive | PlayerStatusLeaving | PlayerStatusGone
| PlayerStatusOther int

fun PlayerStatus_String :: "PlayerStatus \<Rightarrow> string" where
  "PlayerStatus_String PlayerStatusJoining = ''joining''"
| "PlayerStatus_String PlayerStatusActive = ''active''"
| "PlayerStatus_String PlayerStatusLeaving = ''leaving''"
| "PlayerStatus_String PlayerStatusGone = ''gone''"
| "PlayerStatus_String (PlayerStatusOther _) = ''unknown''"

record PlayerState =
  ps_ID :: string
  ps_UserID :: string
  ps_Status :: PlayerStatus
  ps_JoinedAt :: time
  ps_Transform :: PlayerTransform
  ps_Version :: u32
  ps_LastSeen :: time

section \<open>The player record\<close>

definition NewPlayerState :: "string \<Rightarrow> string \<Rightarrow> time \<Rightarrow> PlayerState" where
  "NewPlayerState pid uid now =
     \<lparr>ps_ID = pid, ps_UserID = uid, ps_Status = PlayerStatusJoining, ps_JoinedAt = now,
      ps_Transform = \<lparr>pt_Position = \<lparr>v_X = FNum 0, v_Y = FNum 0, v_Z = FNum 0\<rparr>,
                      pt_Rotation = IdentityQuaternion, pt_Tick = 0\<rparr>,
      ps_Version = 0, ps_LastSeen = now\<rparr>"

definition Snapshot :: "PlayerState \<Rightarrow> PlayerTransform \<times> u32" where
  "Snapshot p = (ps_Transform p, ps_Version p)"

definition UpdateTransform :: "time \<Rightarrow> PlayerTransform \<Rightarrow> u32 \<Rightarrow> PlayerState \<Rightarrow> PlayerState" where
  "UpdateTransform now transform tick p =
     p\<lparr>ps_Transform := transform\<lparr>pt_Tick := tick\<rparr>, ps_Version := ps_Version p + 1,
       ps_LastSeen := now\<rparr>"

definition MarkStatus :: "PlayerStatus \<Rightarrow> PlayerState \<Rightarrow> PlayerState" where
  "MarkStatus status p = p\<lparr>ps_Status := status\<rparr>"

definition SetStatus :: "PlayerStatus \<Rightarrow> PlayerState \<Rightarrow> PlayerState" where
  "SetStatus status p = p\<lparr>ps_Status := status\<rparr>"

definition GetStatus :: "PlayerState \<Rightarrow> PlayerStatus" where
  "GetStatus p = ps_Status p"

section \<open>Validation\<close>

datatype player_err =
  PlayerIDEmpty | PlayerIDTooLong nat | UserIDEmpty | UserIDTooLong nat
| CoordNotFinite char | QuatNotFinite char | ZeroQuaternion
| PositionInvalid player_err | RotationInvalid player_err | TimestampNotPositive int

definition ValidatePlayerID :: "string \<Rightarrow> player_err option" where
  "ValidatePlayerID pid =
     (if pid = [] then Some PlayerIDEmpty
      else if length pid > 256 then Some (PlayerIDTooLong (length pid)) else None)"

definition ValidateUserID :: "string \<Rightarrow> player_err option" where
  "ValidateUserID uid =
     (if uid = [] then Some UserIDEmpty
      else if length uid > 256 then Some (UserIDTooLong (length uid)) else None)"

definition ValidateVector3 :: "Vector3 \<Rightarrow> player_err option" where
  "ValidateVector3 v =
     (if IsNaN (v_X v) \<or> IsInf (v_X v) then Some (CoordNotFinite CHR ''X'')
      else if IsNaN (v_Y v) \<or> IsInf (v_Y v) then Some (CoordNotFinite CHR ''Y'')
      else if IsNaN (v_Z v) \<or> IsInf (v_Z v) then Some (CoordNotFinite CHR ''Z'')
      else None)"

definition ValidateQuaternion :: "Quaternion \<Rightarrow> player_err option" where
  "ValidateQuaternion q =
     (if IsNaN (q_X q) \<or> IsInf (q_X q) then Some (QuatNotFinite CHR ''X'')
      else if IsNaN (q_Y q) \<or> IsInf (q_Y q) then Some (QuatNotFinite CHR ''Y'')
      else if IsNaN (q_Z q) \<or> IsInf (q_Z q) then Some (QuatNotFinite CHR ''Z'')
      else if IsNaN (q_W q) \<or> IsInf (q_W q) then Some (QuatNotFinite CHR ''W'')
      else if feq (q_X q) (FNum 0) \<and> feq (q_Y q) (FNum 0) \<and> feq (q_Z q) (FNum 0)
              \<and> feq (q_W q) (FNum 0) then Some ZeroQuaternion
      else None)"

definition ValidatePlayerTransform :: "PlayerTransform \<Rightarrow> player_err option" where
  "ValidatePlayerTransform t =
     (case ValidateVector3 (pt_Position t) of
        Some e \<Rightarrow> Some (PositionInvalid e)
      | None \<Rightarrow> (case ValidateQuaternion (pt_Rotation t) of
                   Some e \<Rightarrow> Some (RotationInvalid e)
                 | None \<Rightarrow> None))"

definition ValidatePlayerInput :: "PlayerInput \<Rightarrow> player_err option" where
  "ValidatePlayerInput input =
     (case ValidatePlayerTransform (pi_Transform input) of
        Some e \<Rightarrow> Some e
      | None \<Rightarrow> if pi_Timestamp input \<le> 0 then Some (TimestampNotPositive (pi_Timestamp input))
                else None)"

text \<open>What validation is meant to establish.\<close>

definition finite_vec :: "Vector3 \<Rightarrow> bool" where
  "finite_vec v \<longleftrightarrow> finite_float (v_X v) \<and> finite_float (v_Y v) \<and> finite_float (v_Z v)"

definition finite_quat :: "Quaternion \<Rightarrow> bool" where
  "finite_quat q \<longleftrightarrow> finite_float (q_X q) \<and> finite_float (q_Y q) \<and> finite_float (q_Z q)
     \<and> finite_float (q_W q)"

section \<open>Lemmas\<close>

lemma ValidateVector3_None: "ValidateVector3 v = None \<longleftrightarrow> finite_vec v"
  by (auto simp: ValidateVector3_def finite_vec_def finite_float_def)

lemma ValidateQuaternion_None:
  "ValidateQuaternion q = None \<longleftrightarrow>
     finite_quat q \<and> \<not> (q_X q = FNum 0 \<and> q_Y q = FNum 0 \<and> q_Z q = FNum 0 \<and> q_W q = FNum 0)"
  by (cases "q_X q"; cases "q_Y q"; cases "q_Z q"; cases "q_W q")
     (simp_all add: ValidateQuaternion_def finite_quat_def finite_float_def IsNaN_def)

lemma ValidatePlayerTransform_None:
  "ValidatePlayerTransform t = None \<longleftrightarrow>
     ValidateVector3 (pt_Position t) = None \<and> ValidateQuaternion (pt_Rotation t) = None"
  by (auto simp: ValidatePlayerTransform_def split: option.splits)

lemma ValidatePlayerInput_None:
  "ValidatePlayerInput i = None \<longleftrightarrow>
     finite_vec (pt_Position (pi_Transform i)) \<and> finite_quat (pt_Rotation (pi_Transform i))
     \<and> pt_Rotation (pi_Transform i) \<noteq> \<lparr>q_X = FNum 0, q_Y = FNum 0, q_Z = FNum 0, q_W = FNum 0\<rparr>
     \<and> 0 < pi_Timestamp i"
proof -
  have "ValidatePlayerInput i = None \<longleftrightarrow> ValidatePlayerTransform (pi_Transform i) = None \<and> 0 < pi_Timestamp i"
    by (auto simp: ValidatePlayerInput_def split: option.split)
  then show ?thesis
    by (cases "pt_Rotation (pi_Transform i)")
      (simp add: ValidatePlayerTransform_None ValidateVector3_None ValidateQuaternion_None)
qed

lemma UpdateTransform_sel [simp]:
  "ps_ID (UpdateTransform now t tick p) = ps_ID p"
  "ps_UserID (UpdateTransform now t tick p) = ps_UserID p"
  "ps_Status (UpdateTransform now t tick p) = ps_Status p"
  "ps_Version (UpdateTransform now t tick p) = ps_Version p + 1"
  "ps_Transform (UpdateTransform now t tick p) = t\<lparr>pt_Tick := tick\<rparr>"
  by (simp_all add: UpdateTransform_def)

lemma NewPlayerState_sel [simp]:
  "ps_ID (NewPlayerState pid uid now) = pid"
  "ps_Version (NewPlayerState pid uid now) = 0"
  "v_X (pt_Position (ps_Transform (NewPlayerState pid uid now))) = FNum 0"
  "v_Z (pt_Position (ps_Transform (NewPlayerState pid uid now))) = FNum 0"
  by (simp_all add: NewPlayerState_def)

lemma SetStatus_sel [simp]:
  "ps_ID (SetStatus s p) = ps_ID p" "ps_Transform (SetStatus s p) = ps_Transform p"
  "ps_Version (SetStatus s p) = ps_Version p"
  by (simp_all add: SetStatus_def)

end
