(* ===== verification/Object.thy ===== *)
theory Object
  imports GoFloat
begin

text \<open>
  Package \<^verbatim>\<open>internal/game/object\<close>: room objects (\<^verbatim>\<open>types.go\<close>, \<^verbatim>\<open>manager.go\<close>) and the
  server-authoritative lease locks on them (\<^verbatim>\<open>lock.go\<close>). \<^verbatim>\<open>LockManager\<close> holds a pointer to the
  room's \<^verbatim>\<open>ObjectManager\<close> and mutates the \<^verbatim>\<open>Lock\<close> field of its objects; here the shared object map
  is an argument and a result of every lock operation. A rejected \<^verbatim>\<open>LockResult\<close> carries the
  reason as a constructor instead of a formatted string.

  Shown: what each lock operation does on every branch, that active locks are exclusive, that
  the lock quota of a user is never exceeded in any reachable state, when the per-user
  counters are exact (and a run in which they are not), and that the lock manager refines a
  table of active leases.
\<close>

section \<open>Data\<close>

record Vec3 =
  ov_X :: gofloat
  ov_Y :: gofloat
  ov_Z :: gofloat

record Quat =
  oq_X :: gofloat
  oq_Y :: gofloat
  oq_Z :: gofloat
  oq_W :: gofloat

definition IdentityQuat :: Quat where
  "IdentityQuat = \<lparr>oq_X = FNum 0, oq_Y = FNum 0, oq_Z = FNum 0, oq_W = FNum 1\<rparr>"

record ObjectTransform =
  ot_Position :: Vec3
  ot_Rotation :: Quat

datatype ObjectStatus = ObjectStatusActive | ObjectStatusInactive

record LockState =
  LockedBy :: string
  ls_SessionID :: string
  LockUntil :: time

definition zero_lock :: LockState where
  "zero_lock = \<lparr>LockedBy = [], ls_SessionID = [], LockUntil = 0\<rparr>"

definition IsLocked :: "LockState \<Rightarrow> time \<Rightarrow> bool" where
  "IsLocked ls now = (LockedBy ls \<noteq> [] \<and> LockUntil ls > now)"

definition IsOwnedBy :: "LockState \<Rightarrow> string \<Rightarrow> time \<Rightarrow> bool" where
  "IsOwnedBy ls userID now = (IsLocked ls now \<and> LockedBy ls = userID)"

record LockLease =
  TTL :: duration
  MaxLocksPerUser :: int

definition DefaultLockLease :: LockLease where
  "DefaultLockLease = \<lparr>TTL = 10 * 1000000000, MaxLocksPerUser = 3\<rparr>"

text \<open>\<^verbatim>\<open>CustomState\<close> is a byte slice, \<open>None\<close> for Go's \<^verbatim>\<open>nil\<close>.\<close>

record ObjectState =
  obj_ID :: string
  obj_Kind :: string
  obj_Transform :: ObjectTransform
  obj_CustomState :: "bytes option"
  obj_Status :: ObjectStatus
  obj_Lock :: LockState
  obj_Version :: u32

type_synonym ObjectManager = "(string, ObjectState) fmap"

datatype object_err = ObjectExists string | ObjectNotFound string

section \<open>ObjectManager\<close>

definition NewObjectManager :: ObjectManager where
  "NewObjectManager = fmempty"

definition Object_Create ::
  "string \<Rightarrow> string \<Rightarrow> ObjectTransform \<Rightarrow> ObjectManager \<Rightarrow> (object_err + ObjectState) \<times> ObjectManager"
where
  "Object_Create oid kind transform m =
     (case fmlookup m oid of
        Some _ \<Rightarrow> (Inl (ObjectExists oid), m)
      | None \<Rightarrow>
          let obj = \<lparr>obj_ID = oid, obj_Kind = kind, obj_Transform = transform,
                     obj_CustomState = None, obj_Status = ObjectStatusActive,
                     obj_Lock = zero_lock, obj_Version = 0\<rparr>
          in (Inr obj, fmupd oid obj m))"

definition Object_Get :: "string \<Rightarrow> ObjectManager \<Rightarrow> ObjectState option" where
  "Object_Get oid m = fmlookup m oid"

definition Object_List :: "map_order \<Rightarrow> ObjectManager \<Rightarrow> ObjectState list" where
  "Object_List ord m = List.map_filter (fmlookup m) (ord (fmdom m))"

definition ActiveObjects :: "map_order \<Rightarrow> ObjectManager \<Rightarrow> ObjectState list" where
  "ActiveObjects ord m = filter (\<lambda>obj. obj_Status obj = ObjectStatusActive) (Object_List ord m)"

definition Object_UpdateTransform ::
  "string \<Rightarrow> ObjectTransform \<Rightarrow> ObjectManager \<Rightarrow> object_err option \<times> ObjectManager" where
  "Object_UpdateTransform oid transform m =
     (case fmlookup m oid of
        None \<Rightarrow> (Some (ObjectNotFound oid), m)
      | Some obj \<Rightarrow> (None, fmupd oid (obj\<lparr>obj_Transform := transform,
                                           obj_Version := obj_Version obj + 1\<rparr>) m))"

definition UpdateCustomState ::
  "string \<Rightarrow> bytes option \<Rightarrow> ObjectManager \<Rightarrow> object_err option \<times> ObjectManager" where
  "UpdateCustomState oid state m =
     (case fmlookup m oid of
        None \<Rightarrow> (Some (ObjectNotFound oid), m)
      | Some obj \<Rightarrow> (None, fmupd oid (obj\<lparr>obj_CustomState := state,
                                           obj_Version := obj_Version obj + 1\<rparr>) m))"

definition MarkInactive :: "string \<Rightarrow> ObjectManager \<Rightarrow> object_err option \<times> ObjectManager" where
  "MarkInactive oid m =
     (case fmlookup m oid of
        None \<Rightarrow> (Some (ObjectNotFound oid), m)
      | Some obj \<Rightarrow>
          if obj_Status obj = ObjectStatusInactive then (None, m)
          else (None, fmupd oid (obj\<lparr>obj_Status := ObjectStatusInactive,
                                     obj_Version := obj_Version obj + 1\<rparr>) m))"

definition Object_Remove :: "string \<Rightarrow> ObjectManager \<Rightarrow> ObjectManager" where
  "Object_Remove oid m = fmdrop oid m"

definition Object_Count :: "ObjectManager \<Rightarrow> nat" where
  "Object_Count m = map_len m"

section \<open>LockManager\<close>

datatype lock_reason =
  NotFound string | Inactive string | LockedByAnother string | MaxLocksHeld string int
| NotLockedBy string string

record LockResult =
  Granted :: bool
  Reason :: "lock_reason option"

definition lockGranted :: LockResult where
  "lockGranted = \<lparr>Granted = True, Reason = None\<rparr>"

definition lockRejected :: "lock_reason \<Rightarrow> LockResult" where
  "lockRejected reason = \<lparr>Granted = False, Reason = Some reason\<rparr>"

record LockManager =
  lm_lease :: LockLease
  userLockCount :: "(string, int) fmap"

definition NewLockManager :: "LockLease \<Rightarrow> LockManager" where
  "NewLockManager lease = \<lparr>lm_lease = lease, userLockCount = fmempty\<rparr>"

text \<open>\<^verbatim>\<open>clearLock\<close> mutates one object and the counters.\<close>

definition clearLock :: "ObjectState \<Rightarrow> LockManager \<Rightarrow> ObjectState \<times> LockManager" where
  "clearLock obj lm =
     (let owner = LockedBy (obj_Lock obj);
          counts = userLockCount lm;
          counts' =
            (if owner \<noteq> [] \<and> map_get 0 counts owner > 0
             then let c1 = fmupd owner (map_get 0 counts owner - 1) counts
                  in if map_get 0 c1 owner = 0 then fmdrop owner c1 else c1
             else counts)
      in (obj\<lparr>obj_Lock := zero_lock, obj_Version := obj_Version obj + 1\<rparr>,
          lm\<lparr>userLockCount := counts'\<rparr>))"

definition AcquireLock ::
  "string \<Rightarrow> string \<Rightarrow> string \<Rightarrow> time \<Rightarrow> ObjectManager \<Rightarrow> LockManager
   \<Rightarrow> LockResult \<times> ObjectManager \<times> LockManager" where
  "AcquireLock objectID ownerUserID ownerSessionID now om lm =
     (case Object_Get objectID om of
        None \<Rightarrow> (lockRejected (NotFound objectID), om, lm)
      | Some obj \<Rightarrow>
          if obj_Status obj = ObjectStatusInactive then (lockRejected (Inactive objectID), om, lm)
          else if IsLocked (obj_Lock obj) now then
            if LockedBy (obj_Lock obj) = ownerUserID then
              (lockGranted,
               fmupd objectID
                 (obj\<lparr>obj_Lock := (obj_Lock obj)\<lparr>LockUntil := now + TTL (lm_lease lm),
                                               ls_SessionID := ownerSessionID\<rparr>,
                      obj_Version := obj_Version obj + 1\<rparr>) om,
               lm)
            else (lockRejected (LockedByAnother objectID), om, lm)
          else if map_get 0 (userLockCount lm) ownerUserID \<ge> MaxLocksPerUser (lm_lease lm) then
            (lockRejected (MaxLocksHeld ownerUserID (MaxLocksPerUser (lm_lease lm))), om, lm)
          else
            (lockGranted,
             fmupd objectID
               (obj\<lparr>obj_Lock := \<lparr>LockedBy = ownerUserID, ls_SessionID = ownerSessionID,
                                LockUntil = now + TTL (lm_lease lm)\<rparr>,
                    obj_Version := obj_Version obj + 1\<rparr>) om,
             lm\<lparr>userLockCount :=
                  fmupd ownerUserID (map_get 0 (userLockCount lm) ownerUserID + 1)
                    (userLockCount lm)\<rparr>))"

definition RefreshLock ::
  "string \<Rightarrow> string \<Rightarrow> time \<Rightarrow> ObjectManager \<Rightarrow> LockManager
   \<Rightarrow> LockResult \<times> ObjectManager \<times> LockManager" where
  "RefreshLock objectID ownerUserID now om lm =
     (case Object_Get objectID om of
        None \<Rightarrow> (lockRejected (NotFound objectID), om, lm)
      | Some obj \<Rightarrow>
          if \<not> IsOwnedBy (obj_Lock obj) ownerUserID now then
            (lockRejected (NotLockedBy objectID ownerUserID), om, lm)
          else
            (lockGranted,
             fmupd objectID
               (obj\<lparr>obj_Lock := (obj_Lock obj)\<lparr>LockUntil := now + TTL (lm_lease lm)\<rparr>\<rparr>) om,
             lm))"

definition ReleaseLock ::
  "string \<Rightarrow> string \<Rightarrow> time \<Rightarrow> ObjectManager \<Rightarrow> LockManager
   \<Rightarrow> LockResult \<times> ObjectManager \<times> LockManager" where
  "ReleaseLock objectID ownerUserID now om lm =
     (case Object_Get objectID om of
        None \<Rightarrow> (lockRejected (NotFound objectID), om, lm)
      | Some obj \<Rightarrow>
          if \<not> IsOwnedBy (obj_Lock obj) ownerUserID now then
            (lockRejected (NotLockedBy objectID ownerUserID), om, lm)
          else let (obj', lm') = clearLock obj lm in (lockGranted, fmupd objectID obj' om, lm'))"

text \<open>
  The loop shared by \<^verbatim>\<open>ReleaseExpired\<close> and \<^verbatim>\<open>ReleaseBySession\<close>: it visits the objects of
  \<^verbatim>\<open>List()\<close> in order and clears the locks that satisfy the condition. The loop runs over the
  keys, each read when it is reached, because the list holds live pointers.
\<close>

fun release_loop ::
  "(LockState \<Rightarrow> bool) \<Rightarrow> string list \<Rightarrow> ObjectManager \<Rightarrow> LockManager
   \<Rightarrow> string list \<times> ObjectManager \<times> LockManager" where
  "release_loop cond [] om lm = ([], om, lm)"
| "release_loop cond (k # ks) om lm =
     (case fmlookup om k of
        None \<Rightarrow> release_loop cond ks om lm
      | Some obj \<Rightarrow>
          if cond (obj_Lock obj) then
            let (obj', lm') = clearLock obj lm;
                (released, om', lm'') = release_loop cond ks (fmupd k obj' om) lm'
            in (obj_ID obj # released, om', lm'')
          else release_loop cond ks om lm)"

definition expired_at :: "time \<Rightarrow> LockState \<Rightarrow> bool" where
  "expired_at now ls = (LockedBy ls \<noteq> [] \<and> \<not> LockUntil ls > now)"

definition held_by_session :: "string \<Rightarrow> LockState \<Rightarrow> bool" where
  "held_by_session sessionID ls = (ls_SessionID ls = sessionID \<and> LockedBy ls \<noteq> [])"

definition ReleaseExpired ::
  "map_order \<Rightarrow> time \<Rightarrow> ObjectManager \<Rightarrow> LockManager \<Rightarrow> string list \<times> ObjectManager \<times> LockManager"
where
  "ReleaseExpired ord now om lm = release_loop (expired_at now) (ord (fmdom om)) om lm"

definition ReleaseBySession ::
  "map_order \<Rightarrow> string \<Rightarrow> time \<Rightarrow> ObjectManager \<Rightarrow> LockManager
   \<Rightarrow> string list \<times> ObjectManager \<times> LockManager" where
  "ReleaseBySession ord sessionID now om lm =
     release_loop (held_by_session sessionID) (ord (fmdom om)) om lm"

definition UserLockCount :: "string \<Rightarrow> LockManager \<Rightarrow> int" where
  "UserLockCount userID lm = map_get 0 (userLockCount lm) userID"

section \<open>Specification notions\<close>

text \<open>The objects whose lock field names a user, expired or not.\<close>

definition held :: "ObjectManager \<Rightarrow> string \<Rightarrow> string set" where
  "held om u = {k. \<exists>obj. fmlookup om k = Some obj \<and> LockedBy (obj_Lock obj) = u}"

text \<open>Every object is stored under its own identifier.\<close>

definition om_wf :: "ObjectManager \<Rightarrow> bool" where
  "om_wf om = fmpred (\<lambda>k obj. obj_ID obj = k) om"

text \<open>The unexpired leases, which is what a client can observe.\<close>

definition lease_of :: "time \<Rightarrow> LockState \<Rightarrow> (string \<times> string \<times> time) option" where
  "lease_of now ls =
     (if IsLocked ls now then Some (LockedBy ls, ls_SessionID ls, LockUntil ls) else None)"

definition leases :: "ObjectManager \<Rightarrow> time \<Rightarrow> string \<rightharpoonup> (string \<times> string \<times> time)" where
  "leases om now k = Option.bind (fmlookup om k) (\<lambda>obj. lease_of now (obj_Lock obj))"

text \<open>No counter is below what its user holds, and none exceeds the quota.\<close>

definition quota_inv :: "ObjectManager \<Rightarrow> LockManager \<Rightarrow> bool" where
  "quota_inv om lm \<longleftrightarrow>
     (\<forall>u. u \<noteq> [] \<longrightarrow> int (card (held om u)) \<le> map_get 0 (userLockCount lm) u) \<and>
     (\<forall>u. map_get 0 (userLockCount lm) u \<le> max 0 (MaxLocksPerUser (lm_lease lm)))"

text \<open>The counters are exact.\<close>

definition count_exact :: "ObjectManager \<Rightarrow> LockManager \<Rightarrow> bool" where
  "count_exact om lm \<longleftrightarrow>
     (\<forall>u. u \<noteq> [] \<longrightarrow> map_get 0 (userLockCount lm) u = int (card (held om u)))"

text \<open>The operations as steps, in any order and with any arguments.\<close>

inductive lock_step :: "ObjectManager \<times> LockManager \<Rightarrow> ObjectManager \<times> LockManager \<Rightarrow> bool" where
  acquire: "AcquireLock oid u s now om lm = (res, om', lm') \<Longrightarrow> lock_step (om, lm) (om', lm')"
| refresh: "RefreshLock oid u now om lm = (res, om', lm') \<Longrightarrow> lock_step (om, lm) (om', lm')"
| release: "ReleaseLock oid u now om lm = (res, om', lm') \<Longrightarrow> lock_step (om, lm) (om', lm')"
| expire: "range_order ord \<Longrightarrow> ReleaseExpired ord now om lm = (ids, om', lm')
    \<Longrightarrow> lock_step (om, lm) (om', lm')"
| session_gone: "range_order ord \<Longrightarrow> ReleaseBySession ord sid now om lm = (ids, om', lm')
    \<Longrightarrow> lock_step (om, lm) (om', lm')"
| create: "Object_Create oid kind t om = (res, om') \<Longrightarrow> lock_step (om, lm) (om', lm)"
| move: "Object_UpdateTransform oid t om = (err, om') \<Longrightarrow> lock_step (om, lm) (om', lm)"
| custom: "UpdateCustomState oid c om = (err, om') \<Longrightarrow> lock_step (om, lm) (om', lm)"
| deactivate: "MarkInactive oid om = (err, om') \<Longrightarrow> lock_step (om, lm) (om', lm)"
| remove: "lock_step (om, lm) (Object_Remove oid om, lm)"

inductive lock_reachable :: "LockLease \<Rightarrow> ObjectManager \<times> LockManager \<Rightarrow> bool" for lease where
  start: "lock_reachable lease (NewObjectManager, NewLockManager lease)"
| step: "lock_reachable lease w \<Longrightarrow> lock_step w w' \<Longrightarrow> lock_reachable lease w'"

section \<open>Lemmas: one lock at a time\<close>

definition cleared :: "ObjectState \<Rightarrow> ObjectState" where
  "cleared obj = obj\<lparr>obj_Lock := zero_lock, obj_Version := obj_Version obj + 1\<rparr>"

lemma cleared_sel [simp]:
  "obj_ID (cleared obj) = obj_ID obj" "obj_Lock (cleared obj) = zero_lock"
  "obj_Status (cleared obj) = obj_Status obj" "obj_Version (cleared obj) = obj_Version obj + 1"
  by (simp_all add: cleared_def)

lemma zero_lock_sel [simp]:
  "LockedBy zero_lock = []" "ls_SessionID zero_lock = []" "LockUntil zero_lock = 0"
  "\<not> IsLocked zero_lock now" "lease_of now zero_lock = None"
  by (simp_all add: zero_lock_def IsLocked_def lease_of_def)

lemma not_inactive [simp]: "st \<noteq> ObjectStatusInactive \<longleftrightarrow> st = ObjectStatusActive"
  by (cases st) simp_all

lemma clearLock_fst [simp]: "fst (clearLock obj lm) = cleared obj"
  by (simp add: clearLock_def cleared_def Let_def)

lemma clearLock_lease [simp]: "lm_lease (snd (clearLock obj lm)) = lm_lease lm"
  by (simp add: clearLock_def Let_def)

lemma clearLock_count:
  "map_get 0 (userLockCount (snd (clearLock obj lm))) u =
     (let c = map_get 0 (userLockCount lm) u
      in if u = LockedBy (obj_Lock obj) \<and> u \<noteq> [] \<and> c > 0 then c - 1 else c)"
  by (simp add: clearLock_def Let_def)

text \<open>One turn of the loop, when it clears and when it does not.\<close>

lemma release_loop_clearE:
  assumes "release_loop cond (k # ks) om lm = (ids, om', lm')"
    and "fmlookup om k = Some obj" "cond (obj_Lock obj)"
  obtains ids1 where
    "release_loop cond ks (fmupd k (cleared obj) om) (snd (clearLock obj lm)) = (ids1, om', lm')"
    "ids = obj_ID obj # ids1"
  using assms
  by (cases "release_loop cond ks (fmupd k (cleared obj) om) (snd (clearLock obj lm))")
     (simp add: case_prod_unfold)

lemma release_loop_skip:
  assumes "\<nexists>obj. fmlookup om k = Some obj \<and> cond (obj_Lock obj)"
  shows "release_loop cond (k # ks) om lm = release_loop cond ks om lm"
  using assms by (simp split: option.split)

lemma finite_held [simp]: "finite (held om u)"
proof -
  have "held om u \<subseteq> fmdom' om" by (auto simp: held_def fmlookup_dom'_iff)
  then show ?thesis by (rule finite_subset) simp
qed

lemma held_empty [simp]: "held fmempty u = {}"
  by (simp add: held_def)

lemma held_upd:
  "held (fmupd k obj om) u =
     (if LockedBy (obj_Lock obj) = u then insert k (held om u) else held om u - {k})"
  by (auto simp: held_def)

lemma held_drop: "held (fmdrop k om) u = held om u - {k}"
  by (auto simp: held_def)

lemma held_in: "fmlookup om k = Some obj \<Longrightarrow> k \<in> held om u \<longleftrightarrow> LockedBy (obj_Lock obj) = u"
  by (auto simp: held_def)

lemma held_keep:
  assumes "fmlookup om k = Some obj" "LockedBy (obj_Lock obj') = LockedBy (obj_Lock obj)"
  shows "held (fmupd k obj' om) u = held om u"
  using assms by (auto simp: held_upd held_in)

text \<open>Clearing the lock of a tracked object takes one from what its owner holds.\<close>

lemma card_held_clear:
  assumes "fmlookup om k = Some obj" "u \<noteq> []"
  shows "card (held (fmupd k (cleared obj) om) u) =
    (if LockedBy (obj_Lock obj) = u then card (held om u) - 1 else card (held om u))"
  using assms by (auto simp: held_upd held_in card_Diff_singleton_if)

lemma card_held_pos:
  "fmlookup om k = Some obj \<Longrightarrow> LockedBy (obj_Lock obj) = u \<Longrightarrow> 0 < card (held om u)"
  by (metis card_gt_0_iff empty_iff finite_held held_in)

section \<open>Lemmas: the release loop\<close>

lemma release_loop_lookup:
  assumes "release_loop cond ks om lm = (ids, om', lm')" "distinct ks"
  shows "fmlookup om' k =
    (if k \<in> set ks
     then map_option (\<lambda>obj. if cond (obj_Lock obj) then cleared obj else obj) (fmlookup om k)
     else fmlookup om k)"
  using assms
proof (induction ks arbitrary: om lm ids om' lm')
  case (Cons a ks)
  show ?case
  proof (cases "\<exists>obj. fmlookup om a = Some obj \<and> cond (obj_Lock obj)")
    case True
    then obtain obj where obj: "fmlookup om a = Some obj" "cond (obj_Lock obj)" by blast
    from release_loop_clearE [where cond = cond, OF Cons.prems(1) obj] obtain ids1 where
      "release_loop cond ks (fmupd a (cleared obj) om) (snd (clearLock obj lm)) = (ids1, om', lm')"
      by metis
    from Cons.IH [OF this] Cons.prems(2) obj show ?thesis by auto
  next
    case False
    then have "release_loop cond (a # ks) om lm = release_loop cond ks om lm"
      by (rule release_loop_skip)
    with Cons.prems(1) have "release_loop cond ks om lm = (ids, om', lm')" by simp
    from Cons.IH [OF this] Cons.prems(2) False show ?thesis
      by (cases "fmlookup om a") auto
  qed
qed simp

text \<open>A property kept by every single clearing is kept by the whole loop.\<close>

lemma release_loop_invariant:
  assumes "release_loop cond ks om lm = (ids, om', lm')" "P om lm"
    and "\<And>k obj om lm. \<lbrakk>P om lm; fmlookup om k = Some obj; cond (obj_Lock obj)\<rbrakk>
           \<Longrightarrow> P (fmupd k (cleared obj) om) (snd (clearLock obj lm))"
  shows "P om' lm'"
  using assms(1,2)
proof (induction ks arbitrary: om lm ids)
  case (Cons a ks)
  show ?case
  proof (cases "\<exists>obj. fmlookup om a = Some obj \<and> cond (obj_Lock obj)")
    case True
    then obtain obj where obj: "fmlookup om a = Some obj" "cond (obj_Lock obj)" by blast
    from release_loop_clearE [where cond = cond, OF Cons.prems(1) obj] obtain ids1 where
      "release_loop cond ks (fmupd a (cleared obj) om) (snd (clearLock obj lm)) = (ids1, om', lm')"
      by metis
    from this assms(3) [OF Cons.prems(2) obj] show ?thesis by (rule Cons.IH)
  next
    case False
    then have "release_loop cond (a # ks) om lm = release_loop cond ks om lm"
      by (rule release_loop_skip)
    with Cons.prems(1) have "release_loop cond ks om lm = (ids, om', lm')" by simp
    from this Cons.prems(2) show ?thesis by (rule Cons.IH)
  qed
qed simp

lemma release_loop_ids:
  assumes "release_loop cond ks om lm = (ids, om', lm')" "om_wf om" "distinct ks"
  shows "ids = filter (\<lambda>k. \<exists>obj. fmlookup om k = Some obj \<and> cond (obj_Lock obj)) ks"
  using assms
proof (induction ks arbitrary: om lm ids)
  case (Cons a ks)
  show ?case
  proof (cases "\<exists>obj. fmlookup om a = Some obj \<and> cond (obj_Lock obj)")
    case True
    then obtain obj where obj: "fmlookup om a = Some obj" "cond (obj_Lock obj)" by blast
    let ?om = "fmupd a (cleared obj) om"
    from release_loop_clearE [where cond = cond, OF Cons.prems(1) obj] obtain ids1 where
      1: "release_loop cond ks ?om (snd (clearLock obj lm)) = (ids1, om', lm')" "ids = obj_ID obj # ids1"
      by metis
    have "obj_ID obj = a" using obj(1) Cons.prems(2) by (auto simp: om_wf_def)
    moreover have "om_wf ?om" using Cons.prems(2) \<open>obj_ID obj = a\<close> by (auto simp: om_wf_def)
    then have "ids1 = filter (\<lambda>k. \<exists>obj. fmlookup ?om k = Some obj \<and> cond (obj_Lock obj)) ks"
      using Cons.IH [OF 1(1)] Cons.prems(3) by simp
    moreover have "\<dots> = filter (\<lambda>k. \<exists>obj. fmlookup om k = Some obj \<and> cond (obj_Lock obj)) ks"
      using Cons.prems(3) by (intro filter_cong) auto
    ultimately show ?thesis using 1 obj by auto
  next
    case False
    then have "release_loop cond (a # ks) om lm = release_loop cond ks om lm"
      by (rule release_loop_skip)
    with Cons.prems(1) have "release_loop cond ks om lm = (ids, om', lm')" by simp
    from Cons.IH [OF this Cons.prems(2)] Cons.prems(3) False show ?thesis by simp
  qed
qed simp

section \<open>Lemmas: the branches of the lock operations\<close>

lemma result_sel [simp]: "Granted lockGranted" "\<not> Granted (lockRejected r)"
  by (simp_all add: lockGranted_def lockRejected_def)

definition renewed :: "string \<Rightarrow> time \<Rightarrow> ObjectState \<Rightarrow> ObjectState" where
  "renewed s until obj = obj\<lparr>obj_Lock := (obj_Lock obj)\<lparr>LockUntil := until, ls_SessionID := s\<rparr>,
                            obj_Version := obj_Version obj + 1\<rparr>"

definition granted_to :: "string \<Rightarrow> string \<Rightarrow> time \<Rightarrow> ObjectState \<Rightarrow> ObjectState" where
  "granted_to u s until obj =
     obj\<lparr>obj_Lock := \<lparr>LockedBy = u, ls_SessionID = s, LockUntil = until\<rparr>,
         obj_Version := obj_Version obj + 1\<rparr>"

lemma lock_update_sel [simp]:
  "LockedBy (obj_Lock (renewed s t obj)) = LockedBy (obj_Lock obj)"
  "LockUntil (obj_Lock (renewed s t obj)) = t" "ls_SessionID (obj_Lock (renewed s t obj)) = s"
  "obj_ID (renewed s t obj) = obj_ID obj" "obj_ID (granted_to u s t obj) = obj_ID obj"
  "obj_Lock (granted_to u s t obj) = \<lparr>LockedBy = u, ls_SessionID = s, LockUntil = t\<rparr>"
  by (simp_all add: renewed_def granted_to_def)

lemma AcquireLock_cases:
  assumes "AcquireLock oid u s now om lm = (res, om', lm')"
  obtains (rejected) "\<not> Granted res" "om' = om" "lm' = lm"
  | (renewed) obj where "Granted res" "fmlookup om oid = Some obj"
      "obj_Status obj = ObjectStatusActive" "IsOwnedBy (obj_Lock obj) u now"
      "om' = fmupd oid (renewed s (now + TTL (lm_lease lm)) obj) om" "lm' = lm"
  | (fresh) obj where "Granted res" "fmlookup om oid = Some obj"
      "obj_Status obj = ObjectStatusActive" "\<not> IsLocked (obj_Lock obj) now"
      "map_get 0 (userLockCount lm) u < MaxLocksPerUser (lm_lease lm)"
      "om' = fmupd oid (granted_to u s (now + TTL (lm_lease lm)) obj) om"
      "lm' = lm\<lparr>userLockCount := fmupd u (map_get 0 (userLockCount lm) u + 1) (userLockCount lm)\<rparr>"
proof (cases "fmlookup om oid")
  case None
  with assms show thesis by (intro rejected) (auto simp: AcquireLock_def Object_Get_def)
next
  case (Some obj)
  note def = AcquireLock_def Object_Get_def Some renewed_def granted_to_def IsOwnedBy_def
  consider (inactive) "obj_Status obj = ObjectStatusInactive"
    | (locked) "obj_Status obj = ObjectStatusActive" "IsLocked (obj_Lock obj) now"
    | (free) "obj_Status obj = ObjectStatusActive" "\<not> IsLocked (obj_Lock obj) now"
    by (cases "obj_Status obj") auto
  then show thesis
  proof cases
    case inactive
    with assms show thesis by (intro rejected) (auto simp: def)
  next
    case locked
    show thesis
    proof (cases "LockedBy (obj_Lock obj) = u")
      case True
      with locked assms Some show thesis by (intro renewed [of obj]) (auto simp: def)
    next
      case False
      with locked assms show thesis by (intro rejected) (auto simp: def)
    qed
  next
    case free
    show thesis
    proof (cases "map_get 0 (userLockCount lm) u < MaxLocksPerUser (lm_lease lm)")
      case True
      with free assms Some show thesis by (intro fresh [of obj]) (auto simp: def)
    next
      case False
      with free assms show thesis by (intro rejected) (auto simp: def)
    qed
  qed
qed

lemma RefreshLock_cases:
  assumes "RefreshLock oid u now om lm = (res, om', lm')"
  obtains (rejected) "\<not> Granted res" "om' = om" "lm' = lm"
  | (refreshed) obj where "Granted res" "fmlookup om oid = Some obj" "IsOwnedBy (obj_Lock obj) u now"
      "om' = fmupd oid (obj\<lparr>obj_Lock := (obj_Lock obj)\<lparr>LockUntil := now + TTL (lm_lease lm)\<rparr>\<rparr>) om"
      "lm' = lm"
proof (cases "\<exists>obj. fmlookup om oid = Some obj \<and> IsOwnedBy (obj_Lock obj) u now")
  case True
  then obtain obj where "fmlookup om oid = Some obj" "IsOwnedBy (obj_Lock obj) u now" by blast
  with assms show thesis
    by (intro refreshed [of obj]) (auto simp: RefreshLock_def Object_Get_def)
next
  case False
  with assms show thesis
    by (intro rejected) (auto simp: RefreshLock_def Object_Get_def split: option.splits if_splits)
qed

lemma ReleaseLock_cases:
  assumes "ReleaseLock oid u now om lm = (res, om', lm')"
  obtains (rejected) "\<not> Granted res" "om' = om" "lm' = lm"
  | (released) obj where "Granted res" "fmlookup om oid = Some obj" "IsOwnedBy (obj_Lock obj) u now"
      "om' = fmupd oid (cleared obj) om" "lm' = snd (clearLock obj lm)"
proof (cases "\<exists>obj. fmlookup om oid = Some obj \<and> IsOwnedBy (obj_Lock obj) u now")
  case True
  then obtain obj where "fmlookup om oid = Some obj" "IsOwnedBy (obj_Lock obj) u now" by blast
  with assms show thesis
    by (intro released [of obj]) (simp_all add: ReleaseLock_def Object_Get_def case_prod_unfold)
next
  case False
  with assms show thesis
    by (intro rejected) (auto simp: ReleaseLock_def Object_Get_def split: option.splits if_splits)
qed

section \<open>Lemmas: the quota and the counters\<close>

lemma quota_invD:
  assumes "quota_inv om lm"
  shows "u \<noteq> [] \<Longrightarrow> int (card (held om u)) \<le> map_get 0 (userLockCount lm) u"
    and "map_get 0 (userLockCount lm) u \<le> max 0 (MaxLocksPerUser (lm_lease lm))"
  using assms by (auto simp: quota_inv_def)

lemma quota_mono:
  assumes "quota_inv om lm" "\<And>u. u \<noteq> [] \<Longrightarrow> held om' u \<subseteq> held om u"
  shows "quota_inv om' lm"
  unfolding quota_inv_def
proof (intro conjI allI impI)
  fix u :: string assume "u \<noteq> []"
  with assms(2) have "card (held om' u) \<le> card (held om u)" by (simp add: card_mono)
  with quota_invD(1) [OF assms(1) \<open>u \<noteq> []\<close>]
  show "int (card (held om' u)) \<le> map_get 0 (userLockCount lm) u" by linarith
qed (rule quota_invD(2) [OF assms(1)])

lemma quota_clear:
  assumes "quota_inv om lm" "fmlookup om k = Some obj"
  shows "quota_inv (fmupd k (cleared obj) om) (snd (clearLock obj lm))"
  unfolding quota_inv_def
proof (intro conjI allI impI)
  fix u :: string assume u: "u \<noteq> []"
  note card_held_clear [OF assms(2) u] quota_invD(1) [OF assms(1) u]
    card_held_pos [OF assms(2), of u]
  with u show "int (card (held (fmupd k (cleared obj) om) u))
      \<le> map_get 0 (userLockCount (snd (clearLock obj lm))) u"
    by (auto simp: clearLock_count Let_def)
next
  fix u show "map_get 0 (userLockCount (snd (clearLock obj lm))) u
      \<le> max 0 (MaxLocksPerUser (lm_lease (snd (clearLock obj lm))))"
    using quota_invD(2) [OF assms(1), of u] by (auto simp: clearLock_count Let_def)
qed

lemma exact_clear:
  assumes "count_exact om lm" "fmlookup om k = Some obj"
  shows "count_exact (fmupd k (cleared obj) om) (snd (clearLock obj lm))"
  unfolding count_exact_def
proof (intro allI impI)
  fix u :: string assume u: "u \<noteq> []"
  then have "map_get 0 (userLockCount lm) u = int (card (held om u))"
    using assms(1) by (simp add: count_exact_def)
  with u card_held_clear [OF assms(2) u] card_held_pos [OF assms(2), of u]
  show "map_get 0 (userLockCount (snd (clearLock obj lm))) u =
      int (card (held (fmupd k (cleared obj) om) u))"
    by (auto simp: clearLock_count Let_def)
qed

lemma quota_acquire:
  assumes "quota_inv om lm" "AcquireLock oid u s now om lm = (res, om', lm')"
  shows "quota_inv om' lm'"
  using assms(2)
proof (cases rule: AcquireLock_cases)
  case (renewed obj)
  then have "held om' w = held om w" for w by (simp add: held_keep)
  with assms(1) renewed(6) show ?thesis by (simp add: quota_inv_def)
next
  case (fresh obj)
  have card: "card (held om' w) \<le> card (held om w) + (if w = u then 1 else 0)" for w
    by (simp add: fresh held_upd card_insert_if card_Diff1_le)
  have count: "map_get 0 (userLockCount lm') w =
      map_get 0 (userLockCount lm) w + (if w = u then 1 else 0)" for w
    by (simp add: fresh)
  show ?thesis
    unfolding quota_inv_def
  proof (intro conjI allI impI)
    fix w :: string assume "w \<noteq> []"
    from quota_invD(1) [OF assms(1) this] card [of w]
    show "int (card (held om' w)) \<le> map_get 0 (userLockCount lm') w"
      by (auto simp: count split: if_splits)
  next
    fix w show "map_get 0 (userLockCount lm') w \<le> max 0 (MaxLocksPerUser (lm_lease lm'))"
      using quota_invD(2) [OF assms(1), of w] fresh(5) fresh(7) by (auto simp: count)
  qed
qed (use assms in simp)

text \<open>Operations that neither lock nor unlock keep what every user holds.\<close>

lemma held_object_ops:
  "Object_Create oid kind t om = (res, om') \<Longrightarrow> u \<noteq> [] \<Longrightarrow> held om' u \<subseteq> held om u"
  "Object_UpdateTransform oid t om = (err, om') \<Longrightarrow> held om' u = held om u"
  "UpdateCustomState oid c om = (err, om') \<Longrightarrow> held om' u = held om u"
  "MarkInactive oid om = (err, om') \<Longrightarrow> held om' u = held om u"
  by (auto simp: Object_Create_def Let_def held_upd Object_UpdateTransform_def UpdateCustomState_def
      MarkInactive_def held_in split: option.splits if_splits)

lemma quota_lock_step: "lock_step w w' \<Longrightarrow> quota_inv (fst w) (snd w) \<Longrightarrow> quota_inv (fst w') (snd w')"
proof (induction rule: lock_step.induct)
  case (acquire oid u s now om lm res om' lm')
  then show ?case by (simp add: quota_acquire)
next
  case (refresh oid u now om lm res om' lm')
  from refresh(1) show ?case
    by (cases rule: RefreshLock_cases)
      (use refresh(2) in \<open>simp_all add: quota_inv_def held_keep\<close>)
next
  case (release oid u now om lm res om' lm')
  from release(1) show ?case
    by (cases rule: ReleaseLock_cases) (use release(2) in \<open>simp_all add: quota_clear\<close>)
next
  case (expire ord now om lm ids om' lm')
  then have "quota_inv om lm" by simp
  with expire(2) show ?case
    unfolding ReleaseExpired_def fst_conv snd_conv
    by (rule release_loop_invariant) (rule quota_clear)
next
  case (session_gone ord sid now om lm ids om' lm')
  then have "quota_inv om lm" by simp
  with session_gone(2) show ?case
    unfolding ReleaseBySession_def fst_conv snd_conv
    by (rule release_loop_invariant) (rule quota_clear)
next
  case (create oid kind t om res om' lm)
  then have "quota_inv om lm" by simp
  then show ?case unfolding fst_conv snd_conv
    by (rule quota_mono) (rule held_object_ops(1) [OF create(1)])
next
  case (remove om lm oid)
  then have "quota_inv om lm" by simp
  then show ?case unfolding fst_conv snd_conv
    by (rule quota_mono) (auto simp: Object_Remove_def held_drop)
qed (simp_all add: quota_inv_def held_object_ops)

section \<open>Lemmas: leases\<close>

lemma leases_upd:
  "leases (fmupd k obj om) now = (leases om now)(k := lease_of now (obj_Lock obj))"
  by (auto simp: leases_def fun_eq_iff)

lemma leases_same:
  "fmlookup om k = Some obj \<Longrightarrow> lease_of now (obj_Lock obj') = lease_of now (obj_Lock obj)
   \<Longrightarrow> leases (fmupd k obj' om) now = leases om now"
  by (auto simp: leases_def fun_eq_iff)

lemma leases_Some:
  "leases om now k = Some (u, s, until) \<longleftrightarrow>
     (\<exists>obj. fmlookup om k = Some obj \<and> IsOwnedBy (obj_Lock obj) u now
            \<and> ls_SessionID (obj_Lock obj) = s \<and> LockUntil (obj_Lock obj) = until)"
  by (auto simp: leases_def lease_of_def IsOwnedBy_def Option.bind_eq_Some_conv)

section \<open>The interface a room relies on\<close>

text \<open>
  What the room promises its clients about locks needs three laws of the lock manager only:
  a granted request makes the requester the owner, a request against somebody else's active
  lock is refused, and a refused request changes nothing.
\<close>

locale lock_service =
  fixes owner :: "'s \<Rightarrow> time \<Rightarrow> string \<Rightarrow> string option"
    and request :: "string \<Rightarrow> string \<Rightarrow> string \<Rightarrow> time \<Rightarrow> 's \<Rightarrow> bool \<times> 's"
    and invar :: "'s \<Rightarrow> bool"
  assumes invar_request: "invar w \<Longrightarrow> invar (snd (request oid u s now w))"
    and request_granted: "invar w \<Longrightarrow> u \<noteq> [] \<Longrightarrow> fst (request oid u s now w)
      \<Longrightarrow> owner (snd (request oid u s now w)) now oid = Some u"
    and request_refused: "invar w \<Longrightarrow> owner w now oid = Some v \<Longrightarrow> v \<noteq> u
      \<Longrightarrow> \<not> fst (request oid u s now w)"
    and refused_same: "\<not> fst (request oid u s now w) \<Longrightarrow> snd (request oid u s now w) = w"
    and request_other: "oid' \<noteq> oid \<Longrightarrow> owner (snd (request oid u s now w)) t oid' = owner w t oid'"
    and owner_antimono: "now \<le> now' \<Longrightarrow> owner w now' oid = Some v \<Longrightarrow> owner w now oid = Some v"
begin

text \<open>A sequence of requests, each a user, a session, an object and a time.\<close>

definition requests :: "(string \<times> string \<times> string \<times> time) list \<Rightarrow> 's \<Rightarrow> 's" where
  "requests rs w = fold (\<lambda>(oid, u, s, now) w. snd (request oid u s now w)) rs w"

lemma owner_keeps:
  assumes "invar w" "owner w until oid = Some v"
    and "\<forall>(oid', u, s, now) \<in> set rs. now \<le> until \<and> (oid' = oid \<longrightarrow> u \<noteq> v)"
  shows "owner (requests rs w) until oid = Some v"
  using assms
proof (induction rs arbitrary: w)
  case (Cons r rs)
  obtain oid' u s now where r: "r = (oid', u, s, now)" by (cases r)
  let ?w = "snd (request oid' u s now w)"
  have "owner ?w until oid = Some v"
  proof (cases "oid' = oid")
    case True
    with Cons.prems(3) r have le: "now \<le> until" and "v \<noteq> u" by auto
    from le Cons.prems(2) have "owner w now oid = Some v" by (rule owner_antimono)
    from request_refused [OF Cons.prems(1) this \<open>v \<noteq> u\<close>] True
    have "\<not> fst (request oid' u s now w)" by simp
    with Cons.prems(2) show ?thesis by (simp add: refused_same)
  qed (simp add: request_other Cons.prems(2))
  moreover have "invar ?w" by (rule invar_request [OF Cons.prems(1)])
  ultimately have "owner (requests rs ?w) until oid = Some v"
    using Cons.prems(3) by (intro Cons.IH) auto
  then show ?case by (simp add: requests_def r)
qed (simp add: requests_def)

end

definition lock_owner :: "ObjectManager \<times> LockManager \<Rightarrow> time \<Rightarrow> string \<Rightarrow> string option" where
  "lock_owner w now oid = map_option fst (leases (fst w) now oid)"

definition lock_request ::
  "string \<Rightarrow> string \<Rightarrow> string \<Rightarrow> time \<Rightarrow> ObjectManager \<times> LockManager
   \<Rightarrow> bool \<times> ObjectManager \<times> LockManager" where
  "lock_request oid u s now w =
     (let (res, w') = AcquireLock oid u s now (fst w) (snd w) in (Granted res, w'))"

definition ttl_pos :: "ObjectManager \<times> LockManager \<Rightarrow> bool" where
  "ttl_pos w \<longleftrightarrow> 0 < TTL (lm_lease (snd w))"

lemma lock_request_cases:
  obtains (refused) "lock_request oid u s now w = (False, w)"
  | (renewed) obj where "fmlookup (fst w) oid = Some obj" "IsOwnedBy (obj_Lock obj) u now"
      "lock_request oid u s now w =
         (True, fmupd oid (renewed s (now + TTL (lm_lease (snd w))) obj) (fst w), snd w)"
  | (fresh) obj lm' where "fmlookup (fst w) oid = Some obj" "\<not> IsLocked (obj_Lock obj) now"
      "lm_lease lm' = lm_lease (snd w)"
      "lock_request oid u s now w =
         (True, fmupd oid (granted_to u s (now + TTL (lm_lease (snd w))) obj) (fst w), lm')"
proof -
  obtain res om' lm' where A: "AcquireLock oid u s now (fst w) (snd w) = (res, om', lm')"
    by (rule prod_cases3)
  then have L: "lock_request oid u s now w = (Granted res, om', lm')"
    by (simp add: lock_request_def)
  from A show thesis
  proof (cases rule: AcquireLock_cases)
    case rejected
    with L show thesis by (intro refused) simp
  next
    case (renewed obj)
    with L that(2) show thesis by simp
  next
    case (fresh obj)
    show thesis by (rule that(3) [of obj lm']) (use L fresh in simp_all)
  qed
qed

interpretation rl: lock_service lock_owner lock_request ttl_pos
proof
  fix w :: "ObjectManager \<times> LockManager" and oid u s now
  show "ttl_pos (snd (lock_request oid u s now w))" if "ttl_pos w"
    by (rule lock_request_cases [of oid u s now w]) (use that in \<open>simp_all add: ttl_pos_def\<close>)
  show "lock_owner (snd (lock_request oid u s now w)) now oid = Some u"
    if "ttl_pos w" "u \<noteq> []" "fst (lock_request oid u s now w)"
    by (rule lock_request_cases [of oid u s now w])
      (use that in \<open>simp_all add: ttl_pos_def lock_owner_def leases_upd lease_of_def IsLocked_def IsOwnedBy_def\<close>)
  show "snd (lock_request oid u s now w) = w" if "\<not> fst (lock_request oid u s now w)"
    by (rule lock_request_cases [of oid u s now w]) (use that in simp_all)
  show "\<not> fst (lock_request oid u s now w)" if "lock_owner w now oid = Some v" "v \<noteq> u" for v
    by (rule lock_request_cases [of oid u s now w])
      (use that in \<open>auto simp: lock_owner_def leases_Some IsOwnedBy_def\<close>)
  show "lock_owner (snd (lock_request oid u s now w)) t oid' = lock_owner w t oid'"
    if "oid' \<noteq> oid" for oid' t
    by (rule lock_request_cases [of oid u s now w])
      (use that in \<open>simp_all add: lock_owner_def leases_upd\<close>)
  show "lock_owner w now oid = Some v" if "now \<le> now'" "lock_owner w now' oid = Some v" for now' v
    using that by (auto simp: lock_owner_def leases_Some IsOwnedBy_def IsLocked_def)
qed

section \<open>Lemmas for the properties\<close>

lemma snd_lock_request: "snd (lock_request oid u s now w) = snd (AcquireLock oid u s now (fst w) (snd w))"
  by (simp add: lock_request_def case_prod_unfold Let_def)

lemma lock_step_lease: "lock_step w w' \<Longrightarrow> lm_lease (snd w') = lm_lease (snd w)"
proof (induction rule: lock_step.induct)
  case (acquire oid u s now om lm res om' lm')
  then show ?case by (cases rule: AcquireLock_cases) simp_all
next
  case (refresh oid u now om lm res om' lm')
  then show ?case by (cases rule: RefreshLock_cases) simp_all
next
  case (release oid u now om lm res om' lm')
  then show ?case by (cases rule: ReleaseLock_cases) simp_all
next
  case (expire ord now om lm ids om' lm')
  show ?case unfolding snd_conv
    by (rule release_loop_invariant [where P = "\<lambda>_ l. lm_lease l = lm_lease lm",
          OF expire(2) [unfolded ReleaseExpired_def]]) simp_all
next
  case (session_gone ord sid now om lm ids om' lm')
  show ?case unfolding snd_conv
    by (rule release_loop_invariant [where P = "\<lambda>_ l. lm_lease l = lm_lease lm",
          OF session_gone(2) [unfolded ReleaseBySession_def]]) simp_all
qed simp_all

lemma lock_reachable_inv:
  "lock_reachable lease w \<Longrightarrow> quota_inv (fst w) (snd w) \<and> lm_lease (snd w) = lease"
proof (induction rule: lock_reachable.induct)
  case start
  show ?case by (simp add: quota_inv_def NewObjectManager_def NewLockManager_def)
next
  case (step w w')
  then show ?case using quota_lock_step lock_step_lease by auto
qed

lemma exact_acquire:
  assumes "count_exact om lm" "AcquireLock oid u s now om lm = (res, om', lm')"
    and "\<forall>obj. fmlookup om oid = Some obj \<longrightarrow> \<not> expired_at now (obj_Lock obj)"
  shows "count_exact om' lm'"
  using assms(2)
proof (cases rule: AcquireLock_cases)
  case (renewed obj)
  then have "held om' w = held om w" for w by (simp add: held_keep)
  with assms(1) renewed(6) show ?thesis by (simp add: count_exact_def)
next
  case (fresh obj)
  with assms(3) have "LockedBy (obj_Lock obj) = []"
    by (auto simp: IsLocked_def expired_at_def)
  then have "oid \<notin> held om w" if "w \<noteq> []" for w using that fresh(2) by (simp add: held_in)
  with assms(1) show ?thesis
    by (simp add: fresh(6,7) count_exact_def held_upd)
qed (use assms in simp)

lemma release_loop_clears:
  assumes "release_loop cond (ord (fmdom om)) om lm = (ids, om', lm')" "range_order ord"
  shows "fmlookup om' k =
    map_option (\<lambda>obj. if cond (obj_Lock obj) then cleared obj else obj) (fmlookup om k)"
proof (cases "k |\<in>| fmdom om")
  case False
  then have "fmlookup om k = None" by auto
  then show ?thesis
    using release_loop_lookup [OF assms(1), of k] range_orderD [OF assms(2)] by simp
qed (use release_loop_lookup [OF assms(1), of k] range_orderD [OF assms(2)] in simp)

section \<open>A concrete room of one chair\<close>

definition demo_transform :: ObjectTransform where
  "demo_transform = \<lparr>ot_Position = \<lparr>ov_X = FNum 1, ov_Y = FNum 0, ov_Z = FNum 2\<rparr>, ot_Rotation = IdentityQuat\<rparr>"

definition demo_lease :: LockLease where
  "demo_lease = \<lparr>TTL = 10, MaxLocksPerUser = 2\<rparr>"

definition demo_chair :: "string \<Rightarrow> string \<Rightarrow> time \<Rightarrow> ObjectState" where
  "demo_chair u s until =
     \<lparr>obj_ID = ''chair'', obj_Kind = ''chair'', obj_Transform = demo_transform, obj_CustomState = None,
      obj_Status = ObjectStatusActive,
      obj_Lock = \<lparr>LockedBy = u, ls_SessionID = s, LockUntil = until\<rparr>, obj_Version = 1\<rparr>"

definition demo_om :: "string \<Rightarrow> string \<Rightarrow> time \<Rightarrow> ObjectManager" where
  "demo_om u s until = fmupd ''chair'' (demo_chair u s until) fmempty"

definition demo_lm :: "string \<Rightarrow> LockManager" where
  "demo_lm u = \<lparr>lm_lease = demo_lease, userLockCount = fmupd u 1 fmempty\<rparr>"

lemmas demo_defs = demo_om_def demo_lm_def demo_chair_def demo_lease_def

lemma demo_exact: "u \<noteq> [] \<Longrightarrow> count_exact (demo_om u s until) (demo_lm u)"
  by (simp add: demo_defs count_exact_def held_upd)

section \<open>Properties\<close>

text \<open>
  C9: Active locks are exclusive. While a user holds an unexpired lock on an object, no sequence
  of acquire requests by other users, on this object or on others, takes it away: at every
  moment up to the expiry the object still belongs to the same user.
\<close>

theorem active_lock_exclusive:
  assumes "0 < TTL (lm_lease lm)" and "lock_owner (om, lm) until oid = Some v"
    and "\<forall>(oid', u, s, now) \<in> set rs. now \<le> until \<and> (oid' = oid \<longrightarrow> u \<noteq> v)"
  shows "lock_owner (fold (\<lambda>(oid', u, s, now) w. snd (AcquireLock oid' u s now (fst w) (snd w))) rs
           (om, lm)) until oid = Some v"
  using rl.owner_keeps [of "(om, lm)" until oid v rs] assms
  unfolding rl.requests_def by (simp add: ttl_pos_def snd_lock_request)

theorem active_lock_exclusive_witness:
  "lock_owner (fold (\<lambda>(oid', u, s, now) w. snd (AcquireLock oid' u s now (fst w) (snd w)))
     [(''chair'', ''bob'', ''s2'', 20), (''chair'', ''eve'', ''s3'', 30)]
     (demo_om ''ann'' ''s1'' 100, demo_lm ''ann'')) 50 ''chair'' = Some ''ann''"
  by (rule active_lock_exclusive)
    (simp_all add: demo_defs lock_owner_def leases_def lease_of_def IsLocked_def)

text \<open>
  C8: The lock quota. In every state that any sequence of object and lock operations can reach
  from an empty room, no user holds more locks than \<^verbatim>\<open>MaxLocksPerUser\<close>, counting locks that have
  expired but were not cleared yet.
\<close>

theorem lock_quota:
  assumes "lock_reachable lease (om, lm)" and "u \<noteq> []"
  shows "int (card (held om u)) \<le> max 0 (MaxLocksPerUser lease)"
  using lock_reachable_inv [OF assms(1)] quota_invD [of om lm u] assms(2) by force

theorem lock_quota_witness:
  "\<exists>om lm. lock_reachable demo_lease (om, lm) \<and> held om ''ann'' = {''chair''}
     \<and> int (card (held om ''ann'')) \<le> max 0 (MaxLocksPerUser demo_lease)"
proof -
  let ?om = "snd (Object_Create ''chair'' ''chair'' demo_transform NewObjectManager)"
  let ?w = "snd (AcquireLock ''chair'' ''ann'' ''s1'' 5 ?om (NewLockManager demo_lease))"
  have "lock_reachable demo_lease (?om, NewLockManager demo_lease)"
    by (rule lock_reachable.step [OF lock_reachable.start])
      (rule lock_step.create [OF prod.collapse [symmetric]])
  then have "lock_reachable demo_lease (fst ?w, snd ?w)"
    by (rule lock_reachable.step) (rule lock_step.acquire, simp, rule prod.collapse [symmetric])
  moreover have "held (fst ?w) ''ann'' = {''chair''}"
    by (simp add: Object_Create_def NewObjectManager_def AcquireLock_def Object_Get_def NewLockManager_def
        demo_lease_def held_upd Let_def)
  ultimately show ?thesis using lock_quota [of demo_lease "fst ?w" "snd ?w" "''ann''"] by blast
qed

text \<open>
  C30: Exact characterisation of \<^verbatim>\<open>AcquireLock\<close>, as a step on the table of active leases. A
  request is granted exactly when the object exists and is active and either the requester
  already holds its active lock or the object is free and the requester is below the quota;
  a granted request enters the requester's lease with the full TTL and changes no other
  lease, a rejected one changes nothing.
\<close>

theorem AcquireLock_refines_leases:
  assumes "AcquireLock oid u s now om lm = (res, om', lm')"
    and "u \<noteq> []" and "0 < TTL (lm_lease lm)"
  shows "(Granted res \<longleftrightarrow>
      (\<exists>obj. Object_Get oid om = Some obj \<and> obj_Status obj = ObjectStatusActive) \<and>
      (case leases om now oid of Some (v, _, _) \<Rightarrow> v = u
       | None \<Rightarrow> UserLockCount u lm < MaxLocksPerUser (lm_lease lm)))
    \<and> leases om' now = (if Granted res
         then (leases om now)(oid \<mapsto> (u, s, now + TTL (lm_lease lm))) else leases om now)
    \<and> (\<not> Granted res \<longrightarrow> om' = om \<and> lm' = lm)"
proof (intro conjI)
  from assms(1) show "Granted res \<longleftrightarrow>
      (\<exists>obj. Object_Get oid om = Some obj \<and> obj_Status obj = ObjectStatusActive) \<and>
      (case leases om now oid of Some (v, _, _) \<Rightarrow> v = u
       | None \<Rightarrow> UserLockCount u lm < MaxLocksPerUser (lm_lease lm))"
    by (auto simp: AcquireLock_def Object_Get_def leases_def lease_of_def UserLockCount_def
        split: option.splits if_splits)
  from assms show "leases om' now = (if Granted res
       then (leases om now)(oid \<mapsto> (u, s, now + TTL (lm_lease lm))) else leases om now)"
    by (cases rule: AcquireLock_cases)
      (auto simp: leases_upd lease_of_def IsLocked_def IsOwnedBy_def)
  from assms(1) show "\<not> Granted res \<longrightarrow> om' = om \<and> lm' = lm"
    by (cases rule: AcquireLock_cases) simp_all
qed

theorem AcquireLock_refines_leases_witness:
  "leases (fst (snd (AcquireLock ''chair'' ''bob'' ''s2'' 200 (demo_om ''ann'' ''s1'' 100) (demo_lm ''ann''))))
     200 ''chair'' = Some (''bob'', ''s2'', 210)"
proof -
  let ?r = "AcquireLock ''chair'' ''bob'' ''s2'' 200 (demo_om ''ann'' ''s1'' 100) (demo_lm ''ann'')"
  have "Granted (fst ?r)"
    by (simp add: AcquireLock_def Object_Get_def demo_defs IsLocked_def)
  then show ?thesis
    using AcquireLock_refines_leases [of "''chair''" "''bob''" "''s2''" 200 "demo_om ''ann'' ''s1'' 100"
        "demo_lm ''ann''" "fst ?r" "fst (snd ?r)" "snd (snd ?r)"]
    by (simp add: demo_lm_def demo_lease_def)
qed

text \<open>
  C31: \<^verbatim>\<open>RefreshLock\<close> and \<^verbatim>\<open>ReleaseLock\<close> succeed exactly for the owner of an active lock. A
  refresh only moves the expiry to a full TTL from now, a release removes exactly this
  lease, and a refused call changes nothing.
\<close>

theorem Refresh_Release_refine_leases:
  assumes "RefreshLock oid u now om lm = (r1, om1, lm1)" and "ReleaseLock oid u now om lm = (r2, om2, lm2)"
    and "0 < TTL (lm_lease lm)"
  shows "(Granted r1 \<longleftrightarrow> (\<exists>s until. leases om now oid = Some (u, s, until))) \<and> (Granted r2 \<longleftrightarrow> Granted r1)
    \<and> (\<forall>s until. leases om now oid = Some (u, s, until) \<longrightarrow>
          leases om1 now = (leases om now)(oid \<mapsto> (u, s, now + TTL (lm_lease lm)))
          \<and> leases om2 now = (leases om now)(oid := None))
    \<and> (\<not> Granted r1 \<longrightarrow> om1 = om \<and> lm1 = lm \<and> om2 = om \<and> lm2 = lm)"
proof (cases "\<exists>obj. fmlookup om oid = Some obj \<and> IsOwnedBy (obj_Lock obj) u now")
  case True
  then obtain obj where obj: "fmlookup om oid = Some obj" "IsOwnedBy (obj_Lock obj) u now" by blast
  with assms show ?thesis
    by (auto simp: RefreshLock_def ReleaseLock_def Object_Get_def case_prod_unfold leases_Some leases_upd
        lease_of_def IsOwnedBy_def IsLocked_def)
next
  case False
  then have "leases om now oid \<noteq> Some (u, s, until)" for s until by (auto simp: leases_Some)
  moreover from False assms have "\<not> Granted r1" "\<not> Granted r2" "om1 = om" "lm1 = lm" "om2 = om" "lm2 = lm"
    by (auto simp: RefreshLock_def ReleaseLock_def Object_Get_def split: option.splits if_splits)
  ultimately show ?thesis by simp
qed

theorem Refresh_Release_refine_leases_witness:
  "Granted (fst (ReleaseLock ''chair'' ''ann'' 50 (demo_om ''ann'' ''s1'' 100) (demo_lm ''ann'')))"
proof -
  let ?r1 = "RefreshLock ''chair'' ''ann'' 50 (demo_om ''ann'' ''s1'' 100) (demo_lm ''ann'')"
  let ?r2 = "ReleaseLock ''chair'' ''ann'' 50 (demo_om ''ann'' ''s1'' 100) (demo_lm ''ann'')"
  have "leases (demo_om ''ann'' ''s1'' 100) 50 ''chair'' = Some (''ann'', ''s1'', 100)"
    by (simp add: demo_defs leases_def lease_of_def IsLocked_def)
  then show ?thesis
    using Refresh_Release_refine_leases [of "''chair''" "''ann''" 50 "demo_om ''ann'' ''s1'' 100"
        "demo_lm ''ann''" "fst ?r1" "fst (snd ?r1)" "snd (snd ?r1)" "fst ?r2" "fst (snd ?r2)" "snd (snd ?r2)"]
    by (simp add: demo_lm_def demo_lease_def)
qed

text \<open>
  C32: \<^verbatim>\<open>ReleaseExpired\<close> clears exactly the locks whose TTL has passed, whatever order the map is
  visited in: it returns their identifiers once each, leaves every other object as it was, and
  changes no active lease. The per-user counters stay exact if they were exact.
\<close>

theorem ReleaseExpired_correct:
  assumes "range_order ord" and "om_wf om" and "ReleaseExpired ord now om lm = (ids, om', lm')"
  shows "(\<forall>k. fmlookup om' k =
            map_option (\<lambda>obj. if expired_at now (obj_Lock obj) then cleared obj else obj) (fmlookup om k))
    \<and> distinct ids
    \<and> set ids = {k. \<exists>obj. fmlookup om k = Some obj \<and> expired_at now (obj_Lock obj)}
    \<and> leases om' now = leases om now
    \<and> (count_exact om lm \<longrightarrow> count_exact om' lm')"
proof -
  note loop = assms(3) [unfolded ReleaseExpired_def]
  have lookup: "fmlookup om' k =
      map_option (\<lambda>obj. if expired_at now (obj_Lock obj) then cleared obj else obj) (fmlookup om k)" for k
    by (rule release_loop_clears [OF loop assms(1)])
  have ids: "ids = filter (\<lambda>k. \<exists>obj. fmlookup om k = Some obj \<and> expired_at now (obj_Lock obj))
      (ord (fmdom om))"
    using release_loop_ids [OF loop assms(2)] range_orderD [OF assms(1)] by simp
  have "distinct ids" using ids range_orderD [OF assms(1)] by simp
  moreover have "set ids = {k. \<exists>obj. fmlookup om k = Some obj \<and> expired_at now (obj_Lock obj)}"
    using ids range_orderD [OF assms(1)] by (auto simp: fmlookup_dom_iff)
  moreover have "leases om' now k = leases om now k" for k
    by (cases "fmlookup om k")
      (auto simp: leases_def lookup lease_of_def expired_at_def IsLocked_def)
  moreover have "count_exact om lm \<longrightarrow> count_exact om' lm'"
    using release_loop_invariant [where P = count_exact, OF loop] exact_clear by blast
  ultimately show ?thesis using lookup by auto
qed

theorem ReleaseExpired_correct_witness:
  "set (fst (ReleaseExpired sorted_order 100 (demo_om ''ann'' ''s1'' 100) (demo_lm ''ann''))) = {''chair''}"
proof -
  let ?r = "ReleaseExpired sorted_order 100 (demo_om ''ann'' ''s1'' 100) (demo_lm ''ann'')"
  have "om_wf (demo_om ''ann'' ''s1'' 100)" by (auto simp: om_wf_def demo_defs)
  from ReleaseExpired_correct [OF sorted_order_range this, of 100 "demo_lm ''ann''" "fst ?r" "fst (snd ?r)" "snd (snd ?r)"]
  show ?thesis by (auto simp: demo_defs expired_at_def)
qed

text \<open>
  \<^verbatim>\<open>ReleaseBySession\<close> leaves no lock of the session behind and touches nobody else's lock:
  the active leases afterwards are those of the other sessions.
\<close>

theorem ReleaseBySession_correct:
  assumes "range_order ord" and "ReleaseBySession ord sid now om lm = (ids, om', lm')"
  shows "(\<forall>k. fmlookup om' k =
            map_option (\<lambda>obj. if held_by_session sid (obj_Lock obj) then cleared obj else obj) (fmlookup om k))
    \<and> (\<forall>t. leases om' t = (\<lambda>k. case leases om t k of Some (u, s, until) \<Rightarrow>
            (if s = sid then None else Some (u, s, until)) | None \<Rightarrow> None))
    \<and> (count_exact om lm \<longrightarrow> count_exact om' lm')"
proof -
  note loop = assms(2) [unfolded ReleaseBySession_def]
  have lookup: "fmlookup om' k =
      map_option (\<lambda>obj. if held_by_session sid (obj_Lock obj) then cleared obj else obj) (fmlookup om k)" for k
    by (rule release_loop_clears [OF loop assms(1)])
  moreover have "leases om' t k = (case leases om t k of Some (u, s, until) \<Rightarrow>
      (if s = sid then None else Some (u, s, until)) | None \<Rightarrow> None)" for t k
    by (cases "fmlookup om k")
      (auto simp: leases_def lookup lease_of_def held_by_session_def IsLocked_def)
  moreover have "count_exact om lm \<longrightarrow> count_exact om' lm'"
    using release_loop_invariant [where P = count_exact, OF loop] exact_clear by blast
  ultimately show ?thesis by auto
qed

theorem ReleaseBySession_correct_witness:
  "leases (fst (snd (ReleaseBySession sorted_order ''s1'' 50 (demo_om ''ann'' ''s1'' 100) (demo_lm ''ann''))))
     50 ''chair'' = None"
proof -
  let ?r = "ReleaseBySession sorted_order ''s1'' 50 (demo_om ''ann'' ''s1'' 100) (demo_lm ''ann'')"
  have "leases (demo_om ''ann'' ''s1'' 100) 50 ''chair'' = Some (''ann'', ''s1'', 100)"
    by (simp add: demo_defs leases_def lease_of_def IsLocked_def)
  with ReleaseBySession_correct [OF sorted_order_range, of "''s1''" 50 "demo_om ''ann'' ''s1'' 100"
      "demo_lm ''ann''" "fst ?r" "fst (snd ?r)" "snd (snd ?r)"]
  show ?thesis by simp
qed

text \<open>
  The order of a tick keeps the lock counters exact. When the expired locks were cleared at
  time \<open>now\<close>, an acquire stamped no later than \<open>now\<close> leaves every user's counter equal to the
  number of locks the user holds.
\<close>

theorem expire_then_acquire_exact:
  assumes "range_order ord" and "count_exact om lm" and "ReleaseExpired ord now om lm = (ids, om1, lm1)"
    and "t \<le> now" and "AcquireLock oid u s t om1 lm1 = (res, om2, lm2)"
  shows "count_exact om2 lm2"
proof -
  note loop = assms(3) [unfolded ReleaseExpired_def]
  have "count_exact om1 lm1"
    using release_loop_invariant [where P = count_exact, OF loop assms(2)] exact_clear by blast
  moreover have "\<not> expired_at t (obj_Lock obj)" if "fmlookup om1 oid = Some obj" for obj
  proof -
    from that release_loop_clears [OF loop assms(1), of oid] obtain obj0
      where "obj = (if expired_at now (obj_Lock obj0) then cleared obj0 else obj0)" by auto
    with assms(4) show ?thesis by (cases "expired_at now (obj_Lock obj0)") (auto simp: expired_at_def)
  qed
  ultimately show ?thesis using exact_acquire [OF _ assms(5)] by blast
qed

theorem expire_then_acquire_exact_witness:
  "let (ids, om1, lm1) = ReleaseExpired sorted_order 100 (demo_om ''ann'' ''s1'' 100) (demo_lm ''ann'');
       (res, om2, lm2) = AcquireLock ''chair'' ''bob'' ''s2'' 90 om1 lm1
   in count_exact om2 lm2"
proof -
  let ?e = "ReleaseExpired sorted_order 100 (demo_om ''ann'' ''s1'' 100) (demo_lm ''ann'')"
  let ?a = "AcquireLock ''chair'' ''bob'' ''s2'' 90 (fst (snd ?e)) (snd (snd ?e))"
  have "count_exact (demo_om ''ann'' ''s1'' 100) (demo_lm ''ann'')" by (rule demo_exact) simp
  then have "count_exact (fst (snd ?a)) (snd (snd ?a))"
    by (rule expire_then_acquire_exact [OF sorted_order_range, where t = 90 and now = 100
          and ids = "fst ?e" and res = "fst ?a"]) simp_all
  then show ?thesis by (simp add: case_prod_unfold Let_def)
qed

text \<open>
  C37: An expired lock that was not cleared yet leaks a unit of quota when it is overwritten.
  \<^verbatim>\<open>AcquireLock\<close> grants over an expired lock without giving its old owner's count back, so from
  exact counters the old owner's counter ends one above what the user holds; no later
  release of that object can repair it, since the object no longer names the user.
\<close>

theorem acquire_over_expired_leaks:
  assumes "count_exact om lm" and "fmlookup om oid = Some obj" and "expired_at now (obj_Lock obj)"
    and "AcquireLock oid u s now om lm = (res, om', lm')" and "Granted res"
  shows "map_get 0 (userLockCount lm') (LockedBy (obj_Lock obj)) =
    int (card (held om' (LockedBy (obj_Lock obj)))) + 1"
  using assms(4)
proof (cases rule: AcquireLock_cases)
  case (fresh obj')
  let ?v = "LockedBy (obj_Lock obj)"
  have v: "?v \<noteq> []" and mem: "oid \<in> held om ?v"
    using assms(2,3) by (auto simp: expired_at_def held_in)
  then have "0 < card (held om ?v)" by (metis card_gt_0_iff empty_iff finite_held)
  moreover have "map_get 0 (userLockCount lm) ?v = int (card (held om ?v))"
    using assms(1) v by (simp add: count_exact_def)
  ultimately show ?thesis
    using mem by (cases "u = ?v") (simp_all add: fresh held_upd insert_absorb card_Diff_singleton of_nat_diff)
qed (use assms in \<open>auto simp: IsOwnedBy_def IsLocked_def expired_at_def\<close>)

theorem acquire_over_expired_leaks_witness:
  "let (res, om, lm) = AcquireLock ''chair'' ''bob'' ''s2'' 200 (demo_om ''ann'' ''s1'' 100) (demo_lm ''ann'')
   in UserLockCount ''ann'' lm = int (card (held om ''ann'')) + 1 \<and> held om ''ann'' = {}"
proof -
  let ?om = "demo_om ''ann'' ''s1'' 100"
  let ?r = "AcquireLock ''chair'' ''bob'' ''s2'' 200 ?om (demo_lm ''ann'')"
  have "Granted (fst ?r)" and 1: "held (fst (snd ?r)) ''ann'' = {}"
    by (simp_all add: AcquireLock_def Object_Get_def demo_defs IsLocked_def held_upd)
  moreover have "count_exact ?om (demo_lm ''ann'')" by (rule demo_exact) simp
  ultimately show ?thesis
    using acquire_over_expired_leaks [of ?om "demo_lm ''ann''" "''chair''" "demo_chair ''ann'' ''s1'' 100" 200
        "''bob''" "''s2''" "fst ?r" "fst (snd ?r)" "snd (snd ?r)"]
    by (simp add: case_prod_unfold UserLockCount_def) (simp add: demo_defs expired_at_def)
qed

end
