(* ===== verification/Delta.thy ===== *)
theory Delta
  imports Player Object
begin

text \<open>
  Package \<^verbatim>\<open>internal/game/delta\<close>: the changes a client is sent in a broadcast tick
  (\<^verbatim>\<open>types.go\<close>), the per-session record of what was already sent (\<^verbatim>\<open>snapshot.go\<close>) and the
  builder that compares the two (\<^verbatim>\<open>builder.go\<close>). A nil slice and an empty slice are both the
  empty list; nil pointers to deltas are options. \<^verbatim>\<open>BuildPlayerDelta\<close> updates the snapshot
  behind its pointer, so the model returns the updated snapshot with the delta.
\<close>

section \<open>Data\<close>

record PlayerEnterDelta =
  pe_PlayerID :: string
  pe_Transform :: PlayerTransform
  pe_Version :: u32

record PlayerUpdateDelta =
  pu_PlayerID :: string
  pu_Transform :: PlayerTransform
  pu_Version :: u32

record PlayerLeaveDelta =
  pl_PlayerID :: string

record PlayerDelta =
  pd_Tick :: u32
  pd_Enters :: "PlayerEnterDelta list"
  pd_Updates :: "PlayerUpdateDelta list"
  pd_Leaves :: "PlayerLeaveDelta list"

definition PlayerDelta_IsEmpty :: "PlayerDelta \<Rightarrow> bool" where
  "PlayerDelta_IsEmpty d \<longleftrightarrow>
     length (pd_Enters d) = 0 \<and> length (pd_Updates d) = 0 \<and> length (pd_Leaves d) = 0"

record ObjectEnterDelta =
  oe_ObjectID :: string
  oe_Kind :: string
  oe_Transform :: ObjectTransform
  oe_Lock :: LockState
  oe_Version :: u32

record ObjectUpdateDelta =
  ou_ObjectID :: string
  ou_Transform :: "ObjectTransform option"
  ou_Lock :: "LockState option"
  ou_Version :: u32

record ObjectLeaveDelta =
  ol_ObjectID :: string

record ObjectLockDelta =
  ok_ObjectID :: string
  ok_Lock :: LockState
  ok_Version :: u32

record ObjectDelta =
  od_Tick :: u32
  od_Enters :: "ObjectEnterDelta list"
  od_Updates :: "ObjectUpdateDelta list"
  od_Leaves :: "ObjectLeaveDelta list"
  od_Locks :: "ObjectLockDelta list"

definition ObjectDelta_IsEmpty :: "ObjectDelta \<Rightarrow> bool" where
  "ObjectDelta_IsEmpty d \<longleftrightarrow>
     length (od_Enters d) = 0 \<and> length (od_Updates d) = 0 \<and> length (od_Leaves d) = 0
     \<and> length (od_Locks d) = 0"

record DeltaBatch =
  db_Tick :: u32
  db_PlayerDelta :: "PlayerDelta option"
  db_ObjectDelta :: "ObjectDelta option"

definition DeltaBatch_IsEmpty :: "DeltaBatch \<Rightarrow> bool" where
  "DeltaBatch_IsEmpty b =
     (let playerEmpty = (case db_PlayerDelta b of None \<Rightarrow> True | Some d \<Rightarrow> PlayerDelta_IsEmpty d);
          objectEmpty = (case db_ObjectDelta b of None \<Rightarrow> True | Some d \<Rightarrow> ObjectDelta_IsEmpty d)
      in playerEmpty \<and> objectEmpty)"

section \<open>Snapshots\<close>

record ClientSnapshot =
  cs_VisiblePlayers :: "(string, u32) fmap"

definition NewClientSnapshot :: ClientSnapshot where
  "NewClientSnapshot = \<lparr>cs_VisiblePlayers = fmempty\<rparr>"

record SnapshotCache =
  sc_snapshots :: "(string, ClientSnapshot) fmap"

definition NewSnapshotCache :: SnapshotCache where
  "NewSnapshotCache = \<lparr>sc_snapshots = fmempty\<rparr>"

definition GetOrCreate :: "string \<Rightarrow> SnapshotCache \<Rightarrow> ClientSnapshot \<times> SnapshotCache" where
  "GetOrCreate sessionID c =
     (case fmlookup (sc_snapshots c) sessionID of
        Some s \<Rightarrow> (s, c)
      | None \<Rightarrow> (let s = NewClientSnapshot
                 in (s, c\<lparr>sc_snapshots := fmupd sessionID s (sc_snapshots c)\<rparr>)))"

definition SnapshotCache_Remove :: "string \<Rightarrow> SnapshotCache \<Rightarrow> SnapshotCache" where
  "SnapshotCache_Remove sessionID c = c\<lparr>sc_snapshots := fmdrop sessionID (sc_snapshots c)\<rparr>"

definition SnapshotCache_Len :: "SnapshotCache \<Rightarrow> nat" where
  "SnapshotCache_Len c = map_len (sc_snapshots c)"

section \<open>The builder\<close>

text \<open>One visible player: the body of the loop over \<^verbatim>\<open>visiblePlayers\<close>.\<close>

definition visit_player :: "(string, PlayerState) fmap \<Rightarrow> string
    \<Rightarrow> PlayerDelta \<times> (string, u32) fmap \<Rightarrow> PlayerDelta \<times> (string, u32) fmap" where
  "visit_player playerStates pid st =
     (case st of (pd, seen) \<Rightarrow>
       (case fmlookup playerStates pid of
          None \<Rightarrow> (pd, seen)
        | Some ps \<Rightarrow>
            (case Snapshot ps of (transform, version) \<Rightarrow>
              (case fmlookup seen pid of
                 None \<Rightarrow> (pd\<lparr>pd_Enters := pd_Enters pd @
                             [\<lparr>pe_PlayerID = pid, pe_Transform = transform, pe_Version = version\<rparr>]\<rparr>,
                          fmupd pid version seen)
               | Some lastVersion \<Rightarrow>
                   if version \<noteq> lastVersion
                   then (pd\<lparr>pd_Updates := pd_Updates pd @
                           [\<lparr>pu_PlayerID = pid, pu_Transform = transform, pu_Version = version\<rparr>]\<rparr>,
                         fmupd pid version seen)
                   else (pd, seen)))))"

definition BuildPlayerDelta :: "map_order \<Rightarrow> u32 \<Rightarrow> string list \<Rightarrow> ClientSnapshot
    \<Rightarrow> (string, PlayerState) fmap \<Rightarrow> PlayerDelta \<times> ClientSnapshot" where
  "BuildPlayerDelta ord tick visiblePlayers snapshot playerStates =
     (let nowVisible = fset_of_list visiblePlayers;
          (pd, seen) = fold (visit_player playerStates) visiblePlayers
             (\<lparr>pd_Tick = tick, pd_Enters = [], pd_Updates = [], pd_Leaves = []\<rparr>,
              cs_VisiblePlayers snapshot);
          leaves = map PlayerLeaveDelta.make (filter (\<lambda>pid. pid |\<notin>| nowVisible) (ord (fmdom seen)))
      in (pd\<lparr>pd_Leaves := leaves\<rparr>,
          snapshot\<lparr>cs_VisiblePlayers := fold (\<lambda>lv. fmdrop (pl_PlayerID lv)) leaves seen\<rparr>))"

section \<open>The client\<close>

text \<open>
  What a client that applies the deltas in order holds: the last transform and version sent
  of each player it was told about.
\<close>

type_synonym client_view = "string \<rightharpoonup> PlayerTransform \<times> u32"

definition apply_delta :: "PlayerDelta \<Rightarrow> client_view \<Rightarrow> client_view" where
  "apply_delta d v =
     (let v1 = fold (\<lambda>e v. v(pe_PlayerID e \<mapsto> (pe_Transform e, pe_Version e))) (pd_Enters d) v;
          v2 = fold (\<lambda>u v. v(pu_PlayerID u \<mapsto> (pu_Transform u, pu_Version u))) (pd_Updates d) v1
      in fold (\<lambda>l v. v(pl_PlayerID l := None)) (pd_Leaves d) v2)"

text \<open>The state of a player as it is sent, and what the server means a viewer to see.\<close>

definition sent_state :: "(string, PlayerState) fmap \<Rightarrow> client_view" where
  "sent_state playerStates pid = map_option Snapshot (fmlookup playerStates pid)"

definition enter_of :: "string \<Rightarrow> PlayerState \<Rightarrow> PlayerEnterDelta" where
  "enter_of pid ps = \<lparr>pe_PlayerID = pid, pe_Transform = ps_Transform ps, pe_Version = ps_Version ps\<rparr>"

definition update_of :: "string \<Rightarrow> PlayerState \<Rightarrow> PlayerUpdateDelta" where
  "update_of pid ps = \<lparr>pu_PlayerID = pid, pu_Transform = ps_Transform ps, pu_Version = ps_Version ps\<rparr>"

section \<open>Lemmas: the loop\<close>

text \<open>What the snapshot records after the loop.\<close>

definition seen_after :: "(string, PlayerState) fmap \<Rightarrow> string set \<Rightarrow> (string, u32) fmap \<Rightarrow> string \<Rightarrow> u32 option" where
  "seen_after ps V seen pid =
     (case fmlookup ps pid of
        Some p \<Rightarrow> if pid \<in> V then Some (ps_Version p) else fmlookup seen pid
      | None \<Rightarrow> fmlookup seen pid)"

text \<open>The loop invariant over the players visited so far (\<open>V\<close>).\<close>

definition loop_inv :: "(string, PlayerState) fmap \<Rightarrow> (string, u32) fmap \<Rightarrow> u32 \<Rightarrow> string set
    \<Rightarrow> PlayerDelta \<times> (string, u32) fmap \<Rightarrow> bool" where
  "loop_inv ps seen0 tick V st \<longleftrightarrow>
     pd_Tick (fst st) = tick \<and> pd_Leaves (fst st) = []
     \<and> distinct (map pe_PlayerID (pd_Enters (fst st))) \<and> distinct (map pu_PlayerID (pd_Updates (fst st)))
     \<and> set (pd_Enters (fst st)) = {enter_of pid p |pid p. pid \<in> V \<and> fmlookup ps pid = Some p \<and> fmlookup seen0 pid = None}
     \<and> set (pd_Updates (fst st)) = {update_of pid p |pid p. pid \<in> V \<and> fmlookup ps pid = Some p
           \<and> (\<exists>v. fmlookup seen0 pid = Some v \<and> v \<noteq> ps_Version p)}
     \<and> (\<forall>pid. fmlookup (snd st) pid = seen_after ps V seen0 pid)"

lemma visit_cases:
  obtains (absent) "fmlookup ps pid = None" "visit_player ps pid st = st"
  | (enter) p where "fmlookup ps pid = Some p" "fmlookup (snd st) pid = None"
      "visit_player ps pid st =
        ((fst st)\<lparr>pd_Enters := pd_Enters (fst st) @ [enter_of pid p]\<rparr>, fmupd pid (ps_Version p) (snd st))"
  | (update) p v where "fmlookup ps pid = Some p" "fmlookup (snd st) pid = Some v" "v \<noteq> ps_Version p"
      "visit_player ps pid st =
        ((fst st)\<lparr>pd_Updates := pd_Updates (fst st) @ [update_of pid p]\<rparr>, fmupd pid (ps_Version p) (snd st))"
  | (same) p where "fmlookup ps pid = Some p" "fmlookup (snd st) pid = Some (ps_Version p)"
      "visit_player ps pid st = st"
proof (cases "fmlookup ps pid")
  case None then show thesis by (intro absent) (auto simp: visit_player_def split: prod.split)
next
  case (Some p)
  obtain pd seen where st: "st = (pd, seen)" by (cases st)
  note d = visit_player_def Snapshot_def enter_of_def update_of_def
  show thesis
  proof (cases "fmlookup seen pid")
    case None with Some show thesis by (intro enter) (simp_all add: st d)
  next
    case (Some v)
    with \<open>fmlookup ps pid = Some p\<close> show thesis
      by (cases "v = ps_Version p") (simp_all add: st d same update)
  qed
qed

lemma visit_inv:
  assumes inv: "loop_inv ps seen0 tick V st"
  shows "loop_inv ps seen0 tick (insert pid V) (visit_player ps pid st)"
proof -
  have seen: "fmlookup (snd st) pid = seen_after ps V seen0 pid" using inv by (simp add: loop_inv_def)
  show ?thesis
  proof (cases rule: visit_cases [of ps pid st])
    case absent
    then show ?thesis using inv by (auto simp: loop_inv_def seen_after_def split: option.splits)
  next
    case (enter p)
    then have new: "pid \<notin> V" "fmlookup seen0 pid = None"
      using seen by (auto simp: seen_after_def split: if_splits)
    with enter inv show ?thesis
      by (auto simp: loop_inv_def enter_of_def seen_after_def split: option.splits)
  next
    case (update p v)
    then have new: "pid \<notin> V" "fmlookup seen0 pid = Some v"
      using seen by (auto simp: seen_after_def split: if_splits)
    with update inv show ?thesis
      by (auto simp: loop_inv_def update_of_def seen_after_def split: option.splits)
  next
    case (same p)
    then have "pid \<in> V \<or> fmlookup seen0 pid = Some (ps_Version p)"
      using seen by (auto simp: seen_after_def split: if_splits)
    with same inv show ?thesis
      by (auto simp: loop_inv_def seen_after_def split: option.splits)
  qed
qed


lemma loop_result:
  "loop_inv ps seen0 tick (set xs \<union> V) (fold (visit_player ps) xs st)"
  if "loop_inv ps seen0 tick V st"
  using that
proof (induction xs arbitrary: V st)
  case (Cons x xs)
  from Cons.IH [OF visit_inv [OF Cons.prems, of x]] show ?case by simp
qed simp

lemma fold_fmdrop:
  "fmlookup (fold (\<lambda>lv. fmdrop (f lv)) xs m) k = (if k \<in> f ` set xs then None else fmlookup m k)"
  by (induction xs arbitrary: m) auto

lemma make_leave [simp]: "pl_PlayerID (PlayerLeaveDelta.make x) = x"
  by (simp add: PlayerLeaveDelta.defs)

text \<open>The whole function, described by sets.\<close>

lemma BuildPlayerDelta_result:
  assumes ord: "range_order ord"
    and b: "BuildPlayerDelta ord tick vis snap ps = (d, snap')"
  defines "old \<equiv> cs_VisiblePlayers snap"
  shows "pd_Tick d = tick"
    and "distinct (map pe_PlayerID (pd_Enters d))" and "distinct (map pu_PlayerID (pd_Updates d))"
    and "distinct (map pl_PlayerID (pd_Leaves d))"
    and "set (pd_Enters d) = {enter_of pid p |pid p. pid \<in> set vis \<and> fmlookup ps pid = Some p \<and> fmlookup old pid = None}"
    and "set (pd_Updates d) = {update_of pid p |pid p. pid \<in> set vis \<and> fmlookup ps pid = Some p
           \<and> (\<exists>v. fmlookup old pid = Some v \<and> v \<noteq> ps_Version p)}"
    and "pl_PlayerID ` set (pd_Leaves d) = fset (fmdom old) - set vis"
    and "fmlookup (cs_VisiblePlayers snap') pid = (if pid \<in> set vis then seen_after ps (set vis) old pid else None)"
proof -
  let ?start = "(\<lparr>pd_Tick = tick, pd_Enters = [], pd_Updates = [], pd_Leaves = []\<rparr>, old)"
  let ?leaving = "\<lambda>seen. map PlayerLeaveDelta.make (filter (\<lambda>pid. pid |\<notin>| fset_of_list vis) (ord (fmdom seen)))"
  obtain pd seen where f: "fold (visit_player ps) vis ?start = (pd, seen)" by fastforce
  have "loop_inv ps old tick {} ?start" by (auto simp: loop_inv_def seen_after_def split: option.split)
  from loop_result [OF this, of vis] have inv: "loop_inv ps old tick (set vis) (pd, seen)" by (simp add: f)
  then have seen: "fmlookup seen k = seen_after ps (set vis) old k" for k by (simp add: loop_inv_def)
  have d: "d = pd\<lparr>pd_Leaves := ?leaving seen\<rparr>"
    and s: "snap' = snap\<lparr>cs_VisiblePlayers := fold (\<lambda>lv. fmdrop (pl_PlayerID lv)) (?leaving seen) seen\<rparr>"
    using b by (auto simp: BuildPlayerDelta_def f old_def [symmetric] Let_def)
  show "pd_Tick d = tick" "distinct (map pe_PlayerID (pd_Enters d))" "distinct (map pu_PlayerID (pd_Updates d))"
    "set (pd_Enters d) = {enter_of pid p |pid p. pid \<in> set vis \<and> fmlookup ps pid = Some p \<and> fmlookup old pid = None}"
    "set (pd_Updates d) = {update_of pid p |pid p. pid \<in> set vis \<and> fmlookup ps pid = Some p
           \<and> (\<exists>v. fmlookup old pid = Some v \<and> v \<noteq> ps_Version p)}"
    using inv by (auto simp: loop_inv_def d)
  show "distinct (map pl_PlayerID (pd_Leaves d))"
    using range_orderD [OF ord] by (simp add: d comp_def)
  have leaves: "pl_PlayerID ` set (?leaving seen) = fset (fmdom seen) - set vis"
    using range_orderD [OF ord] by (force simp: image_iff fset_of_list_elem)
  have "k \<notin> set vis \<Longrightarrow> k |\<in>| fmdom seen \<longleftrightarrow> k |\<in>| fmdom old" for k
    by (auto simp: fmlookup_dom_iff seen seen_after_def split: option.splits)
  with leaves show "pl_PlayerID ` set (pd_Leaves d) = fset (fmdom old) - set vis" by (auto simp: d)
  show "fmlookup (cs_VisiblePlayers snap') pid = (if pid \<in> set vis then seen_after ps (set vis) old pid else None)"
  proof -
    have "fmlookup (fold (\<lambda>lv. fmdrop (pl_PlayerID lv)) (?leaving seen) seen) pid =
        (if pid \<in> fset (fmdom seen) - set vis then None else fmlookup seen pid)"
      by (simp only: fold_fmdrop leaves)
    then show ?thesis using fmdom_notD [of pid seen] by (auto simp: s seen)
  qed
qed

section \<open>Lemmas: the client follows\<close>

lemma rebuild_empty:
  assumes "range_order ord" and "range_order ord'" and "set vis' = set vis"
    and "BuildPlayerDelta ord tick vis snap ps = (d, snap')"
    and b: "BuildPlayerDelta ord' tick' vis' snap' ps = (d2, snap2)"
  shows "PlayerDelta_IsEmpty d2"
proof -
  note r = BuildPlayerDelta_result [OF assms(2) b] and q = BuildPlayerDelta_result(8) [OF assms(1,4)]
  have "set (pd_Enters d2) = {}"
    unfolding r(5) by (auto simp: q assms(3) seen_after_def)
  moreover have "set (pd_Updates d2) = {}"
    unfolding r(6) by (auto simp: q assms(3) seen_after_def)
  moreover have "pl_PlayerID ` set (pd_Leaves d2) = {}"
    unfolding r(7) by (auto simp: q assms(3) fmlookup_dom_iff split: if_splits)
  ultimately show ?thesis by (simp add: PlayerDelta_IsEmpty_def)
qed

lemma ids_of:
  "pe_PlayerID ` {enter_of pid p |pid p. P pid p} = {pid. \<exists>p. P pid p}"
  "pu_PlayerID ` {update_of pid p |pid p. P pid p} = {pid. \<exists>p. P pid p}"
  by (force simp: enter_of_def update_of_def image_Collect)+

lemma fold_upd_state:
  "\<forall>e\<in>set xs. f (k e) = Some (g e) \<Longrightarrow>
   fold (\<lambda>e v. v(k e \<mapsto> g e)) xs v i = (if i \<in> k ` set xs then f i else v i)"
  by (induction xs arbitrary: v) auto

lemma fold_forget: "fold (\<lambda>l v. v(k l := None)) xs v i = (if i \<in> k ` set xs then None else v i)"
  by (induction xs arbitrary: v) auto

text \<open>
  The snapshot records exactly the versions the client holds, and every state the client
  holds was the state of that player at that version (\<open>hist\<close>).
\<close>

definition coherent :: "(string \<Rightarrow> u32 \<Rightarrow> PlayerTransform) \<Rightarrow> ClientSnapshot \<Rightarrow> client_view \<Rightarrow> bool" where
  "coherent hist snap v \<longleftrightarrow>
     (\<forall>pid. fmlookup (cs_VisiblePlayers snap) pid = map_option snd (v pid))
     \<and> (\<forall>pid t w. v pid = Some (t, w) \<longrightarrow> t = hist pid w)"

text \<open>A version number names one transform: no wrap-around and no reset between two broadcasts.\<close>

definition versions_name :: "(string \<Rightarrow> u32 \<Rightarrow> PlayerTransform) \<Rightarrow> (string, PlayerState) fmap \<Rightarrow> bool" where
  "versions_name hist ps \<longleftrightarrow> (\<forall>pid p. fmlookup ps pid = Some p \<longrightarrow> ps_Transform p = hist pid (ps_Version p))"

definition shown :: "(string, PlayerState) fmap \<Rightarrow> string set \<Rightarrow> client_view \<Rightarrow> client_view" where
  "shown ps V v pid =
     (if pid \<in> V then (case fmlookup ps pid of Some p \<Rightarrow> Some (Snapshot p) | None \<Rightarrow> v pid) else None)"

lemma apply_build:
  assumes ord: "range_order ord" and b: "BuildPlayerDelta ord tick vis snap ps = (d, snap')"
    and coh: "coherent hist snap v" and names: "versions_name hist ps"
  shows "apply_delta d v = shown ps (set vis) v"
proof
  fix pid
  note r = BuildPlayerDelta_result [OF ord b]
  have old: "fmlookup (cs_VisiblePlayers snap) pid = map_option snd (v pid)" using coh by (simp add: coherent_def)
  have leave: "pid \<in> pl_PlayerID ` set (pd_Leaves d) \<longleftrightarrow> pid \<notin> set vis \<and> v pid \<noteq> None"
    using old by (auto simp: r(7) fmlookup_dom_iff)
  have E: "pid \<in> pe_PlayerID ` set (pd_Enters d) \<longleftrightarrow> pid \<in> set vis \<and> v pid = None \<and> fmlookup ps pid \<noteq> None"
    unfolding r(5) ids_of using old by auto
  have U: "pid \<in> pu_PlayerID ` set (pd_Updates d) \<longleftrightarrow> pid \<in> set vis \<and>
      (\<exists>t w p. v pid = Some (t, w) \<and> fmlookup ps pid = Some p \<and> w \<noteq> ps_Version p)"
    unfolding r(6) ids_of using old by auto
  let ?v1 = "fold (\<lambda>e v. v(pe_PlayerID e \<mapsto> (pe_Transform e, pe_Version e))) (pd_Enters d) v"
  let ?v2 = "fold (\<lambda>u v. v(pu_PlayerID u \<mapsto> (pu_Transform u, pu_Version u))) (pd_Updates d) ?v1"
  have v1: "?v1 pid = (if pid \<in> pe_PlayerID ` set (pd_Enters d) then sent_state ps pid else v pid)"
    by (rule fold_upd_state) (auto simp: r(5) enter_of_def sent_state_def Snapshot_def)
  have v2: "?v2 pid = (if pid \<in> pu_PlayerID ` set (pd_Updates d) then sent_state ps pid else ?v1 pid)"
    by (rule fold_upd_state) (auto simp: r(6) update_of_def sent_state_def Snapshot_def)
  have "v pid = Some (t, w) \<Longrightarrow> fmlookup ps pid = Some p \<Longrightarrow> w = ps_Version p \<Longrightarrow> t = ps_Transform p" for t w p
    using coh names by (simp add: coherent_def versions_name_def)
  then show "apply_delta d v pid = shown ps (set vis) v pid"
    by (cases "v pid") (auto simp: apply_delta_def fold_forget leave v2 v1 E U shown_def sent_state_def Snapshot_def
        split: option.split)
qed

lemma coherent_build:
  assumes "range_order ord" and "BuildPlayerDelta ord tick vis snap ps = (d, snap')"
    and "coherent hist snap v" and "versions_name hist ps"
  shows "coherent hist snap' (apply_delta d v)"
  using BuildPlayerDelta_result(8) [OF assms(1,2)] assms(3,4)
  by (auto simp: apply_build [OF assms] coherent_def shown_def seen_after_def versions_name_def Snapshot_def
      split: option.splits if_splits)

section \<open>Interface: a producer of deltas and its consumer\<close>

text \<open>
  A producer that turns frames into deltas against its own memory, and a consumer that applies
  them. The law: from related memories, one acceptable frame leaves them related and the
  consumer at the target of the frame. Then every run ends at the target of its last frame.
\<close>

locale delta_stream =
  fixes build :: "'f \<Rightarrow> 's \<Rightarrow> 'd \<times> 's" and apply_to :: "'d \<Rightarrow> 'v \<Rightarrow> 'v"
    and target :: "'f \<Rightarrow> 'v" and acceptable :: "'f \<Rightarrow> bool" and related :: "'s \<Rightarrow> 'v \<Rightarrow> bool"
  assumes follow: "related s v \<Longrightarrow> acceptable f \<Longrightarrow> build f s = (d, s') \<Longrightarrow>
    related s' (apply_to d v) \<and> apply_to d v = target f"
begin

fun run :: "'f list \<Rightarrow> 's \<times> 'v \<Rightarrow> 's \<times> 'v" where
  "run [] sv = sv"
| "run (f # fs) (s, v) = (case build f s of (d, s') \<Rightarrow> run fs (s', apply_to d v))"

lemma run_related:
  "related s v \<Longrightarrow> \<forall>f\<in>set fs. acceptable f \<Longrightarrow> run fs (s, v) = (s', v') \<Longrightarrow> related s' v'"
proof (induction fs arbitrary: s v)
  case (Cons f fs)
  obtain d t where b: "build f s = (d, t)" by fastforce
  from follow [OF Cons.prems(1) _ b] Cons.prems(2) have "related t (apply_to d v)" by auto
  from Cons.IH [OF this] Cons.prems b show ?case by simp
qed simp

lemma run_target:
  "related s v \<Longrightarrow> \<forall>f\<in>set fs. acceptable f \<Longrightarrow> fs \<noteq> [] \<Longrightarrow> snd (run fs (s, v)) = target (last fs)"
proof (induction fs arbitrary: s v)
  case (Cons f fs)
  obtain d t where b: "build f s = (d, t)" by fastforce
  from follow [OF Cons.prems(1) _ b] Cons.prems(2)
  have "related t (apply_to d v)" "apply_to d v = target f" by auto
  with Cons.IH [of t "apply_to d v"] Cons.prems b show ?case by (cases "fs = []") simp_all
qed simp

end

text \<open>A broadcast as one viewer gets it.\<close>

record frame =
  fr_ord :: map_order
  fr_tick :: u32
  fr_visible :: "string list"
  fr_players :: "(string, PlayerState) fmap"

definition build_frame :: "frame \<Rightarrow> ClientSnapshot \<Rightarrow> PlayerDelta \<times> ClientSnapshot" where
  "build_frame f snap = BuildPlayerDelta (fr_ord f) (fr_tick f) (fr_visible f) snap (fr_players f)"

definition frame_target :: "frame \<Rightarrow> client_view" where
  "frame_target f pid = (if pid \<in> set (fr_visible f) then sent_state (fr_players f) pid else None)"

definition frame_ok :: "(string \<Rightarrow> u32 \<Rightarrow> PlayerTransform) \<Rightarrow> frame \<Rightarrow> bool" where
  "frame_ok hist f \<longleftrightarrow> range_order (fr_ord f) \<and> versions_name hist (fr_players f)
     \<and> set (fr_visible f) \<subseteq> fset (fmdom (fr_players f))"

interpretation ds: delta_stream build_frame apply_delta frame_target "frame_ok hist" "coherent hist" for hist
proof
  fix s v f d s'
  assume coh: "coherent hist s v" and ok: "frame_ok hist f" and b: "build_frame f s = (d, s')"
  note b' = b [unfolded build_frame_def]
  from ok have f: "range_order (fr_ord f)" "versions_name hist (fr_players f)"
    "set (fr_visible f) \<subseteq> fset (fmdom (fr_players f))" by (simp_all add: frame_ok_def)
  have "apply_delta d v = frame_target f"
    using f(3) by (auto simp: apply_build [OF f(1) b' coh f(2)] fun_eq_iff shown_def frame_target_def sent_state_def
        fmlookup_dom_iff split: option.split)
  with coherent_build [OF f(1) b' coh f(2)]
  show "coherent hist s' (apply_delta d v) \<and> apply_delta d v = frame_target f" ..
qed

fun client_run :: "frame list \<Rightarrow> ClientSnapshot \<times> client_view \<Rightarrow> ClientSnapshot \<times> client_view" where
  "client_run [] sv = sv"
| "client_run (f # fs) (s, v) = (case build_frame f s of (d, s') \<Rightarrow> client_run fs (s', apply_delta d v))"

lemma client_run_eq: "client_run fs sv = ds.run fs sv"
  by (induction fs sv rule: client_run.induct) (simp_all split: prod.split)

section \<open>Properties\<close>

text \<open>
  A delta classifies exactly. The enters are the visible players the client does not
  hold, the updates those it holds at another version, the leaves those it holds that are no
  longer visible; each player is listed once in its list, with its current transform and
  version, and the snapshot then records the current version of every visible player.
\<close>

theorem BuildPlayerDelta_exact:
  assumes "range_order ord" and "set vis \<subseteq> fset (fmdom ps)"
    and "BuildPlayerDelta ord tick vis snap ps = (d, snap')"
  shows "distinct (map pe_PlayerID (pd_Enters d)) \<and> distinct (map pu_PlayerID (pd_Updates d))
    \<and> distinct (map pl_PlayerID (pd_Leaves d))
    \<and> set (pd_Enters d) = {enter_of pid p |pid p. pid \<in> set vis \<and> fmlookup ps pid = Some p
          \<and> fmlookup (cs_VisiblePlayers snap) pid = None}
    \<and> set (pd_Updates d) = {update_of pid p |pid p. pid \<in> set vis \<and> fmlookup ps pid = Some p
          \<and> (\<exists>v. fmlookup (cs_VisiblePlayers snap) pid = Some v \<and> v \<noteq> ps_Version p)}
    \<and> pl_PlayerID ` set (pd_Leaves d) = fset (fmdom (cs_VisiblePlayers snap)) - set vis
    \<and> (\<forall>pid. fmlookup (cs_VisiblePlayers snap') pid =
          (if pid \<in> set vis then map_option ps_Version (fmlookup ps pid) else None))"
proof -
  note r = BuildPlayerDelta_result [OF assms(1,3)]
  have "pid \<in> set vis \<Longrightarrow> seen_after ps (set vis) m pid = map_option ps_Version (fmlookup ps pid)" for pid m
    using assms(2) by (auto simp: seen_after_def fmlookup_dom_iff split: option.split)
  with r show ?thesis by simp
qed

definition demo_player :: "string \<Rightarrow> u32 \<Rightarrow> PlayerState" where
  "demo_player pid v = (NewPlayerState pid pid 0)\<lparr>ps_Version := v\<rparr>"

theorem BuildPlayerDelta_exact_witness:
  "pl_PlayerID ` set (pd_Leaves (fst (BuildPlayerDelta sorted_order 7 [''b'']
      \<lparr>cs_VisiblePlayers = fmap_of_list [(''a'', 3)]\<rparr> (fmap_of_list [(''b'', demo_player ''b'' 2)])))) = {''a''}"
  using BuildPlayerDelta_exact [OF sorted_order_range _ prod.collapse [symmetric], of "[''b'']"
      "fmap_of_list [(''b'', demo_player ''b'' 2)]" 7 "\<lparr>cs_VisiblePlayers = fmap_of_list [(''a'', 3)]\<rparr>"]
  by (simp add: fset_of_list.rep_eq)



text \<open>
  Nothing is sent twice. A second broadcast with the same visible set and the same player
  map is empty, whatever the snapshot was before the first, so the room skips it.
\<close>

theorem unchanged_broadcast_empty:
  assumes "range_order ord" and "range_order ord'" and "set vis' = set vis"
    and "BuildPlayerDelta ord tick vis snap ps = (d, snap')"
  shows "DeltaBatch_IsEmpty \<lparr>db_Tick = tick', db_PlayerDelta = Some (fst (BuildPlayerDelta ord' tick' vis' snap' ps)),
     db_ObjectDelta = None\<rparr>"
  using rebuild_empty [OF assms prod.collapse [symmetric]] by (simp add: DeltaBatch_IsEmpty_def)

theorem unchanged_broadcast_empty_witness:
  "DeltaBatch_IsEmpty \<lparr>db_Tick = 4, db_PlayerDelta = Some (fst (BuildPlayerDelta sorted_order 4 [''b'']
     (snd (BuildPlayerDelta sorted_order 2 [''b''] NewClientSnapshot (fmap_of_list [(''b'', demo_player ''b'' 0)])))
     (fmap_of_list [(''b'', demo_player ''b'' 0)]))), db_ObjectDelta = None\<rparr>"
  by (rule unchanged_broadcast_empty [OF sorted_order_range sorted_order_range refl prod.collapse [symmetric]])

end
