(* ===== verification/Spatial.thy ===== *)
theory Spatial
  imports GoFloat
begin

text \<open>
  Packages \<^verbatim>\<open>internal/game/spatial\<close> (\<^verbatim>\<open>types.go\<close>, \<^verbatim>\<open>hash.go\<close>) and \<^verbatim>\<open>internal/game/interest\<close>
  (\<^verbatim>\<open>manager.go\<close>): the grid hash over the XZ plane and the visibility query built on it. The grid
  keeps two maps, cell to entities and entity to cell; \<open>grid_inv\<close> says how they agree, every
  operation keeps it, and under it the write to a missing cell map, which would panic in Go
  (\<open>PanicNilMap\<close>), cannot happen. The index refines a plain map from identifiers to positions
  (locale \<open>position_index\<close>), and a radius query returns exactly the tracked entities that lie in
  the scanned window of cells and pass the distance test, each once.
\<close>

section \<open>Data\<close>

record EntityPosition =
  ep_X :: gofloat
  ep_Z :: gofloat

definition Pos :: "gofloat \<Rightarrow> gofloat \<Rightarrow> EntityPosition" where
  "Pos x z = \<lparr>ep_X = x, ep_Z = z\<rparr>"

record CellCoord =
  cc_X :: int
  cc_Z :: int

record SpatialConfig =
  CellSizeM :: gofloat
  MaxWorldCoord :: gofloat

definition DefaultSpatialConfig :: SpatialConfig where
  "DefaultSpatialConfig = \<lparr>CellSizeM = FNum 10, MaxWorldCoord = FNum 100000\<rparr>"

record cellEntry =
  ce_coord :: CellCoord
  ce_pos :: EntityPosition

record GridSpatialHash =
  cellSize :: gofloat
  maxWorldCoord :: gofloat
  cells :: "(CellCoord, (string, EntityPosition) fmap) fmap"
  entities :: "(string, cellEntry) fmap"

datatype spatial_err = PosNotFinite char | PosExceedsBound char | PanicNilMap

section \<open>The grid\<close>

definition NewGridSpatialHash :: "SpatialConfig \<Rightarrow> GridSpatialHash" where
  "NewGridSpatialHash config =
     (let maxCoord = (if fle (MaxWorldCoord config) (FNum 0) then MaxWorldCoord DefaultSpatialConfig
                      else MaxWorldCoord config)
      in \<lparr>cellSize = CellSizeM config, maxWorldCoord = maxCoord, cells = fmempty, entities = fmempty\<rparr>)"

definition validatePosition :: "GridSpatialHash \<Rightarrow> EntityPosition \<Rightarrow> spatial_err option" where
  "validatePosition h pos =
     (if IsNaN (ep_X pos) \<or> IsInf (ep_X pos) then Some (PosNotFinite CHR ''X'')
      else if IsNaN (ep_Z pos) \<or> IsInf (ep_Z pos) then Some (PosNotFinite CHR ''Z'')
      else if flt (maxWorldCoord h) (Abs (ep_X pos)) then Some (PosExceedsBound CHR ''X'')
      else if flt (maxWorldCoord h) (Abs (ep_Z pos)) then Some (PosExceedsBound CHR ''Z'')
      else None)"

text \<open>The quotient is a float32 division; \<^verbatim>\<open>math.Floor\<close> works on its exact float64 image.\<close>

definition cell_index :: "gofloat \<Rightarrow> gofloat \<Rightarrow> int" where
  "cell_index x csize = to_int (Floor (fdiv round32 x csize))"

definition toCellCoord :: "EntityPosition \<Rightarrow> gofloat \<Rightarrow> CellCoord" where
  "toCellCoord pos csize = \<lparr>cc_X = cell_index (ep_X pos) csize, cc_Z = cell_index (ep_Z pos) csize\<rparr>"

definition removeFromCell :: "string \<Rightarrow> CellCoord \<Rightarrow> GridSpatialHash \<Rightarrow> GridSpatialHash" where
  "removeFromCell eid coord h =
     (case fmlookup (cells h) coord of
        None \<Rightarrow> h
      | Some cell \<Rightarrow>
          let cell' = fmdrop eid cell
          in if map_len cell' = 0 then h\<lparr>cells := fmdrop coord (cells h)\<rparr>
             else h\<lparr>cells := fmupd coord cell' (cells h)\<rparr>)"

text \<open>The second half of \<^verbatim>\<open>Update\<close>: enter the entity into its cell, made if absent.\<close>

definition insertIntoCell ::
  "string \<Rightarrow> CellCoord \<Rightarrow> EntityPosition \<Rightarrow> GridSpatialHash \<Rightarrow> GridSpatialHash" where
  "insertIntoCell eid coord pos h =
     (let cell = (case fmlookup (cells h) coord of None \<Rightarrow> fmempty | Some c \<Rightarrow> c)
      in h\<lparr>cells := fmupd coord (fmupd eid pos cell) (cells h),
           entities := fmupd eid \<lparr>ce_coord = coord, ce_pos = pos\<rparr> (entities h)\<rparr>)"

definition Spatial_Update ::
  "string \<Rightarrow> EntityPosition \<Rightarrow> GridSpatialHash \<Rightarrow> spatial_err option \<times> GridSpatialHash" where
  "Spatial_Update eid pos h =
     (case validatePosition h pos of
        Some e \<Rightarrow> (Some e, h)
      | None \<Rightarrow>
          let newCoord = toCellCoord pos (cellSize h)
          in case fmlookup (entities h) eid of
               Some entry \<Rightarrow>
                 if ce_coord entry = newCoord then
                   (case fmlookup (cells h) newCoord of
                      None \<Rightarrow> (Some PanicNilMap, h)
                    | Some cell \<Rightarrow>
                        (None, h\<lparr>cells := fmupd newCoord (fmupd eid pos cell) (cells h),
                                 entities := fmupd eid \<lparr>ce_coord = newCoord, ce_pos = pos\<rparr>
                                               (entities h)\<rparr>))
                 else (None, insertIntoCell eid newCoord pos (removeFromCell eid (ce_coord entry) h))
             | None \<Rightarrow> (None, insertIntoCell eid newCoord pos h))"

definition Spatial_Remove :: "string \<Rightarrow> GridSpatialHash \<Rightarrow> GridSpatialHash" where
  "Spatial_Remove eid h =
     (case fmlookup (entities h) eid of
        None \<Rightarrow> h
      | Some entry \<Rightarrow>
          let h' = removeFromCell eid (ce_coord entry) h
          in h'\<lparr>entities := fmdrop eid (entities h')\<rparr>)"

definition Spatial_Get :: "string \<Rightarrow> GridSpatialHash \<Rightarrow> EntityPosition option" where
  "Spatial_Get eid h = map_option ce_pos (fmlookup (entities h) eid)"

definition Spatial_Len :: "GridSpatialHash \<Rightarrow> nat" where
  "Spatial_Len h = map_len (entities h)"

definition Spatial_Clear :: "GridSpatialHash \<Rightarrow> GridSpatialHash" where
  "Spatial_Clear h = h\<lparr>cells := fmempty, entities := fmempty\<rparr>"

definition Spatial_CellSize :: "GridSpatialHash \<Rightarrow> gofloat" where
  "Spatial_CellSize h = cellSize h"

text \<open>
  The distance test of \<^verbatim>\<open>QueryRadius\<close>: coordinates are subtracted in float32, the rest is float64.
\<close>

definition in_radius :: "EntityPosition \<Rightarrow> gofloat \<Rightarrow> EntityPosition \<Rightarrow> bool" where
  "in_radius pos radius entityPos =
     (let radiusSq = fmul round64 radius radius;
          dx = fsub round32 (ep_X pos) (ep_X entityPos);
          dz = fsub round32 (ep_Z pos) (ep_Z entityPos)
      in fle (fadd round64 (fmul round64 dx dx) (fmul round64 dz dz)) radiusSq)"

text \<open>The cells the two nested loops visit, in their order.\<close>

definition window :: "EntityPosition \<Rightarrow> gofloat \<Rightarrow> gofloat \<Rightarrow> CellCoord list" where
  "window pos radius csize =
     (let viewerCoord = toCellCoord pos csize;
          vx = cc_X viewerCoord; vz = cc_Z viewerCoord;
          cellRadius = to_int (Ceil (fdiv round32 radius csize))
      in concat (map (\<lambda>cx. map (\<lambda>cz. \<lparr>cc_X = cx, cc_Z = cz\<rparr>)
                     [wrap64 (vz - cellRadius) .. wrap64 (vz + cellRadius)])
                  [wrap64 (vx - cellRadius) .. wrap64 (vx + cellRadius)]))"

definition QueryRadius ::
  "map_order \<Rightarrow> EntityPosition \<Rightarrow> gofloat \<Rightarrow> GridSpatialHash \<Rightarrow> string list" where
  "QueryRadius ord pos radius h =
     (if fle radius (FNum 0) then []
      else if validatePosition h pos \<noteq> None then []
      else concat (map (\<lambda>coord.
             case fmlookup (cells h) coord of
               None \<Rightarrow> []
             | Some cell \<Rightarrow>
                 filter (\<lambda>eid. case fmlookup cell eid of None \<Rightarrow> False
                               | Some entityPos \<Rightarrow> in_radius pos radius entityPos) (ord (fmdom cell)))
           (window pos radius (cellSize h))))"

section \<open>Interest management\<close>

record InterestConfig =
  VisualRadiusM :: gofloat
  ObjectRadiusM :: gofloat
  VoiceRadiusM :: gofloat
  FullAvatarRadiusM :: gofloat
  LowLodRadiusM :: gofloat

definition DefaultInterestConfig :: InterestConfig where
  "DefaultInterestConfig =
     \<lparr>VisualRadiusM = FNum 30, ObjectRadiusM = FNum 30, VoiceRadiusM = FNum 30,
      FullAvatarRadiusM = FNum 30, LowLodRadiusM = FNum 30\<rparr>"

definition QueryVisiblePlayers ::
  "map_order \<Rightarrow> InterestConfig \<Rightarrow> GridSpatialHash \<Rightarrow> EntityPosition \<Rightarrow> string \<Rightarrow> string list" where
  "QueryVisiblePlayers ord config idx viewerPos viewerID =
     filter (\<lambda>eid. eid \<noteq> viewerID) (QueryRadius ord viewerPos (VisualRadiusM config) idx)"

section \<open>Invariant\<close>

text \<open>
  The two maps describe the same placement, every entity lies in the cell of its position, and
  no empty cell is kept.
\<close>

definition placed :: "GridSpatialHash \<Rightarrow> CellCoord \<Rightarrow> string \<Rightarrow> EntityPosition \<Rightarrow> bool" where
  "placed h c eid p \<longleftrightarrow> (\<exists>cell. fmlookup (cells h) c = Some cell \<and> fmlookup cell eid = Some p)"

definition grid_inv :: "GridSpatialHash \<Rightarrow> bool" where
  "grid_inv h \<longleftrightarrow>
     (\<forall>c eid p. placed h c eid p \<longleftrightarrow> fmlookup (entities h) eid = Some \<lparr>ce_coord = c, ce_pos = p\<rparr>) \<and>
     (\<forall>eid e. fmlookup (entities h) eid = Some e \<longrightarrow>
        ce_coord e = toCellCoord (ce_pos e) (cellSize h) \<and> validatePosition h (ce_pos e) = None) \<and>
     (\<forall>c. fmlookup (cells h) c \<noteq> Some fmempty)"

section \<open>Lemmas: the grid\<close>

lemma grid_invD:
  assumes "grid_inv h"
  shows "placed h c eid p \<longleftrightarrow> fmlookup (entities h) eid = Some \<lparr>ce_coord = c, ce_pos = p\<rparr>"
    and "fmlookup (entities h) eid = Some e \<Longrightarrow> ce_coord e = toCellCoord (ce_pos e) (cellSize h)"
    and "fmlookup (entities h) eid = Some e \<Longrightarrow> validatePosition h (ce_pos e) = None"
    and "fmlookup (cells h) c \<noteq> Some fmempty"
  using assms by (auto simp: grid_inv_def)

lemma grid_inv_unique:
  "grid_inv h \<Longrightarrow> placed h c eid p \<Longrightarrow> placed h c' eid p' \<Longrightarrow> c = c' \<and> p = p'"
  by (auto simp: grid_invD)

lemma removeFromCell_frame [simp]:
  "cellSize (removeFromCell eid c h) = cellSize h"
  "maxWorldCoord (removeFromCell eid c h) = maxWorldCoord h"
  "entities (removeFromCell eid c h) = entities h"
  by (auto simp: removeFromCell_def Let_def split: option.split)

lemma removeFromCell_placed:
  "placed (removeFromCell eid c h) c' e p \<longleftrightarrow> placed h c' e p \<and> \<not> (c' = c \<and> e = eid)"
proof (cases "fmlookup (cells h) c")
  case None
  then show ?thesis by (auto simp: removeFromCell_def placed_def)
next
  case (Some cell)
  show ?thesis
  proof (cases "fmdrop eid cell = fmempty")
    case True
    then have "e = eid \<or> fmlookup cell e = None" by (metis fmempty_lookup fmlookup_drop)
    with True Some show ?thesis by (auto simp: removeFromCell_def placed_def)
  next
    case False
    with Some show ?thesis by (auto simp: removeFromCell_def placed_def Let_def split: if_splits)
  qed
qed

lemma removeFromCell_nonempty:
  "\<forall>c. fmlookup (cells h) c \<noteq> Some fmempty \<Longrightarrow> fmlookup (cells (removeFromCell eid c h)) c' \<noteq> Some fmempty"
  by (auto simp: removeFromCell_def Let_def split: option.splits)

lemma insertIntoCell_frame [simp]:
  "cellSize (insertIntoCell eid c p h) = cellSize h"
  "maxWorldCoord (insertIntoCell eid c p h) = maxWorldCoord h"
  "entities (insertIntoCell eid c p h) = fmupd eid \<lparr>ce_coord = c, ce_pos = p\<rparr> (entities h)"
  by (simp_all add: insertIntoCell_def Let_def)

lemma insertIntoCell_placed:
  "placed (insertIntoCell eid c p h) c' e q \<longleftrightarrow>
     (if c' = c \<and> e = eid then q = p else placed h c' e q)"
  by (auto simp: insertIntoCell_def placed_def Let_def split: option.split)

lemma fmupd_nonempty [simp]: "fmupd k v m \<noteq> fmempty"
  by (metis fmempty_lookup fmupd_lookup option.distinct(1))

lemma insertIntoCell_nonempty:
  "\<forall>c. fmlookup (cells h) c \<noteq> Some fmempty \<Longrightarrow> fmlookup (cells (insertIntoCell eid c p h)) c' \<noteq> Some fmempty"
  by (auto simp: insertIntoCell_def Let_def)

lemma validatePosition_frame:
  "maxWorldCoord h' = maxWorldCoord h \<Longrightarrow> validatePosition h' = validatePosition h"
  by (simp add: validatePosition_def fun_eq_iff)

text \<open>Taking an entity out of its cell leaves exactly the others placed.\<close>

lemma removed_placed:
  assumes "grid_inv h" "fmlookup (entities h) eid = Some entry"
  shows "placed (removeFromCell eid (ce_coord entry) h) c e p \<longleftrightarrow> e \<noteq> eid \<and> placed h c e p"
  using grid_invD(1) [OF assms(1)] assms(2) by (auto simp: removeFromCell_placed)

text \<open>Under the invariant \<^verbatim>\<open>Update\<close> is one insertion, after taking the entity out of its old cell.\<close>

lemma Spatial_Update_valid:
  assumes "grid_inv h" "validatePosition h pos = None"
  obtains h0 where "Spatial_Update eid pos h = (None, insertIntoCell eid (toCellCoord pos (cellSize h)) pos h0)"
    "\<And>c e p. placed h0 c e p \<and> e \<noteq> eid \<longleftrightarrow> placed h c e p \<and> e \<noteq> eid"
    "\<And>c p. placed h0 c eid p \<Longrightarrow> c = toCellCoord pos (cellSize h)"
    "cellSize h0 = cellSize h" "maxWorldCoord h0 = maxWorldCoord h" "entities h0 = entities h"
    "\<And>c. fmlookup (cells h0) c \<noteq> Some fmempty"
proof (cases "fmlookup (entities h) eid")
  case None
  with assms grid_invD [OF assms(1)] show thesis
    by (intro that [of h]) (auto simp: Spatial_Update_def)
next
  case (Some entry)
  let ?c = "toCellCoord pos (cellSize h)"
  from Some grid_invD(1) [OF assms(1), of "ce_coord entry" eid "ce_pos entry"]
  obtain cell where cell: "fmlookup (cells h) (ce_coord entry) = Some cell" by (auto simp: placed_def)
  show thesis
  proof (cases "ce_coord entry = ?c")
    case True
    with Some cell assms(2) have "Spatial_Update eid pos h = (None, insertIntoCell eid ?c pos h)"
      by (simp add: Spatial_Update_def insertIntoCell_def Let_def)
    moreover have "c = ?c" if "placed h c eid p" for c p
      using that True Some grid_invD(1) [OF assms(1)] by auto
    ultimately show thesis using grid_invD(4) [OF assms(1)] by (intro that [of h]) auto
  next
    case False
    let ?start = "removeFromCell eid (ce_coord entry) h"
    from False Some assms(2) have "Spatial_Update eid pos h = (None, insertIntoCell eid ?c pos ?start)"
      by (simp add: Spatial_Update_def Let_def)
    then show thesis
      using removed_placed [OF assms(1) Some] removeFromCell_nonempty grid_invD(4) [OF assms(1)]
      by (intro that [of ?start]) auto
  qed
qed

lemma grid_inv_insert:
  assumes "grid_inv h" "validatePosition h pos = None"
    and "\<And>c e p. placed h0 c e p \<and> e \<noteq> eid \<longleftrightarrow> placed h c e p \<and> e \<noteq> eid"
    and "\<And>c p. placed h0 c eid p \<Longrightarrow> c = toCellCoord pos (cellSize h)"
    and "cellSize h0 = cellSize h" "maxWorldCoord h0 = maxWorldCoord h" "entities h0 = entities h"
    and "\<And>c. fmlookup (cells h0) c \<noteq> Some fmempty"
  shows "grid_inv (insertIntoCell eid (toCellCoord pos (cellSize h)) pos h0)"
proof -
  let ?h = "insertIntoCell eid (toCellCoord pos (cellSize h)) pos h0"
  note D = grid_invD [OF assms(1)]
  have "validatePosition ?h = validatePosition h" by (rule validatePosition_frame) (simp add: assms)
  moreover have "placed ?h c e p \<longleftrightarrow> fmlookup (entities ?h) e = Some \<lparr>ce_coord = c, ce_pos = p\<rparr>" for c e p
  proof (cases "e = eid")
    case True
    with assms(4) show ?thesis by (auto simp: insertIntoCell_placed)
  next
    case False
    with assms(3) [of c e p] D(1) [of c e p] assms(7) show ?thesis by (simp add: insertIntoCell_placed)
  qed
  ultimately show ?thesis
    using assms D insertIntoCell_nonempty unfolding grid_inv_def by (auto simp: assms)
qed

lemma Update_inv: "grid_inv h \<Longrightarrow> grid_inv (snd (Spatial_Update eid pos h))"
proof (cases "validatePosition h pos")
  case None
  assume inv: "grid_inv h"
  from Spatial_Update_valid [OF inv None, of eid] obtain h0 where
    "snd (Spatial_Update eid pos h) = insertIntoCell eid (toCellCoord pos (cellSize h)) pos h0"
    and h0: "\<And>c e p. placed h0 c e p \<and> e \<noteq> eid \<longleftrightarrow> placed h c e p \<and> e \<noteq> eid"
    "\<And>c p. placed h0 c eid p \<Longrightarrow> c = toCellCoord pos (cellSize h)"
    "cellSize h0 = cellSize h" "maxWorldCoord h0 = maxWorldCoord h" "entities h0 = entities h"
    "\<And>c. fmlookup (cells h0) c \<noteq> Some fmempty" by (metis snd_conv)
  then show ?thesis using grid_inv_insert [OF inv None h0] by simp
qed (simp add: Spatial_Update_def)

lemma Remove_inv: "grid_inv h \<Longrightarrow> grid_inv (Spatial_Remove eid h)"
proof (cases "fmlookup (entities h) eid")
  case (Some entry)
  assume inv: "grid_inv h"
  let ?start = "removeFromCell eid (ce_coord entry) h"
  have "validatePosition (?start\<lparr>entities := fmdrop eid (entities h)\<rparr>) = validatePosition h"
    by (rule validatePosition_frame) simp
  moreover have "placed (?start\<lparr>entities := x\<rparr>) c e p = placed ?start c e p" for x c e p
    by (simp add: placed_def)
  ultimately show ?thesis
    using grid_invD [OF inv] removed_placed [OF inv Some] removeFromCell_nonempty
    unfolding grid_inv_def by (auto simp: Spatial_Remove_def Some Let_def)
qed (simp add: Spatial_Remove_def)

lemma New_inv: "grid_inv (NewGridSpatialHash config)"
  by (simp add: grid_inv_def NewGridSpatialHash_def placed_def Let_def)

section \<open>The index as a map from identifiers to positions\<close>

text \<open>
  What a room relies on: looking an entity up gives its last accepted position. Operations as
  data: \<open>Inl (i, p)\<close> moves entity \<open>i\<close> to \<open>p\<close>, \<open>Inr i\<close> removes it.
\<close>

locale position_index =
  fixes lookup :: "'h \<Rightarrow> 'i \<Rightarrow> 'p option"
    and place :: "'i \<Rightarrow> 'p \<Rightarrow> 'h \<Rightarrow> 'h"
    and remove :: "'i \<Rightarrow> 'h \<Rightarrow> 'h"
    and accepts :: "'h \<Rightarrow> 'p \<Rightarrow> bool"
    and invar :: "'h \<Rightarrow> bool"
  assumes invar_place: "invar h \<Longrightarrow> invar (place i p h)"
    and invar_remove: "invar h \<Longrightarrow> invar (remove i h)"
    and accepts_place: "accepts (place i p h) = accepts h"
    and accepts_remove: "accepts (remove i h) = accepts h"
    and lookup_place: "invar h \<Longrightarrow> accepts h p \<Longrightarrow> lookup (place i p h) = (lookup h)(i \<mapsto> p)"
    and refused_place: "\<not> accepts h p \<Longrightarrow> place i p h = h"
    and lookup_remove: "invar h \<Longrightarrow> lookup (remove i h) = (lookup h)(i := None)"
begin

fun exec :: "('i \<times> 'p) + 'i \<Rightarrow> 'h \<Rightarrow> 'h" where
  "exec (Inl (i, p)) h = place i p h"
| "exec (Inr i) h = remove i h"

fun exec_map :: "('p \<Rightarrow> bool) \<Rightarrow> ('i \<times> 'p) + 'i \<Rightarrow> ('i \<rightharpoonup> 'p) \<Rightarrow> ('i \<rightharpoonup> 'p)" where
  "exec_map ok (Inl (i, p)) m = (if ok p then m(i \<mapsto> p) else m)"
| "exec_map ok (Inr i) m = m(i := None)"

lemma exec_step:
  assumes "invar h"
  shows "invar (exec x h) \<and> accepts (exec x h) = accepts h
    \<and> lookup (exec x h) = exec_map (accepts h) x (lookup h)"
proof (cases x)
  case (Inl a)
  obtain i p where "a = (i, p)" by (cases a)
  with Inl assms show ?thesis
    by (cases "accepts h p") (simp_all add: invar_place accepts_place lookup_place refused_place)
qed (use assms in \<open>simp add: invar_remove accepts_remove lookup_remove\<close>)

lemma exec_refines:
  "invar h \<Longrightarrow> invar (fold exec xs h) \<and> lookup (fold exec xs h) = fold (exec_map (accepts h)) xs (lookup h)"
  by (induction xs arbitrary: h) (simp_all add: exec_step)

end

definition spatial_accepts :: "GridSpatialHash \<Rightarrow> EntityPosition \<Rightarrow> bool" where
  "spatial_accepts h pos \<longleftrightarrow> validatePosition h pos = None"

lemma Update_frame [simp]:
  "cellSize (snd (Spatial_Update eid pos h)) = cellSize h"
  "maxWorldCoord (snd (Spatial_Update eid pos h)) = maxWorldCoord h"
  by (auto simp: Spatial_Update_def Let_def split: option.split)

lemma Remove_frame [simp]:
  "cellSize (Spatial_Remove eid h) = cellSize h"
  "maxWorldCoord (Spatial_Remove eid h) = maxWorldCoord h"
  "entities (Spatial_Remove eid h) = fmdrop eid (entities h)"
  by (auto simp: Spatial_Remove_def Let_def fmdrop_idle fmdom_notI split: option.split)

lemma Update_entities:
  assumes "grid_inv h" "validatePosition h pos = None"
  shows "entities (snd (Spatial_Update eid pos h)) =
    fmupd eid \<lparr>ce_coord = toCellCoord pos (cellSize h), ce_pos = pos\<rparr> (entities h)"
  by (rule Spatial_Update_valid [OF assms, of eid]) simp

lemma Update_rejected: "validatePosition h pos = Some e \<Longrightarrow> Spatial_Update eid pos h = (Some e, h)"
  by (simp add: Spatial_Update_def)

interpretation si: position_index "\<lambda>h eid. Spatial_Get eid h" "\<lambda>eid pos h. snd (Spatial_Update eid pos h)"
  Spatial_Remove spatial_accepts grid_inv
proof
  fix h i p
  show "grid_inv h \<Longrightarrow> grid_inv (snd (Spatial_Update i p h))" by (rule Update_inv)
  show "grid_inv h \<Longrightarrow> grid_inv (Spatial_Remove i h)" by (rule Remove_inv)
  show "spatial_accepts (snd (Spatial_Update i p h)) = spatial_accepts h"
    by (simp add: spatial_accepts_def fun_eq_iff validatePosition_frame [of "snd (Spatial_Update i p h)" h])
  show "spatial_accepts (Spatial_Remove i h) = spatial_accepts h"
    by (simp add: spatial_accepts_def fun_eq_iff validatePosition_frame [of "Spatial_Remove i h" h])
  show "(\<lambda>e. Spatial_Get e (snd (Spatial_Update i p h))) = (\<lambda>e. Spatial_Get e h)(i \<mapsto> p)"
    if "grid_inv h" "spatial_accepts h p"
    using that by (auto simp: Spatial_Get_def spatial_accepts_def Update_entities fun_eq_iff)
  show "snd (Spatial_Update i p h) = h" if "\<not> spatial_accepts h p"
    using that by (auto simp: spatial_accepts_def Update_rejected)
  show "(\<lambda>e. Spatial_Get e (Spatial_Remove i h)) = (\<lambda>e. Spatial_Get e h)(i := None)"
    by (auto simp: Spatial_Get_def fun_eq_iff)
qed

section \<open>Lemmas: queries\<close>

lemma Get_iff_placed:
  "grid_inv h \<Longrightarrow> Spatial_Get eid h = Some p \<longleftrightarrow> placed h (toCellCoord p (cellSize h)) eid p"
proof -
  assume inv: "grid_inv h"
  have "Spatial_Get eid h = Some p \<longleftrightarrow> (\<exists>c. fmlookup (entities h) eid = Some \<lparr>ce_coord = c, ce_pos = p\<rparr>)"
    by (auto simp: Spatial_Get_def) (metis cellEntry.surjective old.unit.exhaust)
  with grid_invD(1,2) [OF inv] show ?thesis by fastforce
qed

lemma placed_cell: "grid_inv h \<Longrightarrow> placed h c eid p \<Longrightarrow> c = toCellCoord p (cellSize h)"
  using grid_invD(1,2) by fastforce

lemma distinct_window: "distinct (window pos radius csize)"
proof -
  have "distinct (concat (map (\<lambda>cx. map (\<lambda>cz. \<lparr>cc_X = cx, cc_Z = cz\<rparr>) ys) xs))"
    if "distinct xs" "distinct ys" for xs ys :: "int list"
    using that by (induction xs) (auto simp: distinct_map inj_on_def)
  then show ?thesis by (simp add: window_def Let_def)
qed

text \<open>What one cell contributes to a query.\<close>

definition cell_hits :: "map_order \<Rightarrow> EntityPosition \<Rightarrow> gofloat \<Rightarrow> GridSpatialHash \<Rightarrow> CellCoord \<Rightarrow> string list" where
  "cell_hits ord pos radius h coord =
     (case fmlookup (cells h) coord of None \<Rightarrow> []
      | Some cell \<Rightarrow> filter (\<lambda>eid. case fmlookup cell eid of None \<Rightarrow> False
                      | Some entityPos \<Rightarrow> in_radius pos radius entityPos) (ord (fmdom cell)))"

lemma set_cell_hits:
  "range_order ord \<Longrightarrow>
   set (cell_hits ord pos radius h c) = {eid. \<exists>p. placed h c eid p \<and> in_radius pos radius p}"
  by (cases "fmlookup (cells h) c")
    (auto simp: cell_hits_def placed_def range_orderD fmlookup_dom_iff split: option.splits)

lemma distinct_cell_hits: "range_order ord \<Longrightarrow> distinct (cell_hits ord pos radius h c)"
  by (auto simp: cell_hits_def range_orderD split: option.split)

lemma QueryRadius_eq:
  "\<lbrakk>\<not> fle radius (FNum 0); validatePosition h pos = None\<rbrakk> \<Longrightarrow>
   QueryRadius ord pos radius h = concat (map (cell_hits ord pos radius h) (window pos radius (cellSize h)))"
  by (simp add: QueryRadius_def cell_hits_def [abs_def])

lemma distinct_concat_hits:
  assumes "grid_inv h" "range_order ord" "distinct cs"
  shows "distinct (concat (map (cell_hits ord pos radius h) cs))"
  using assms(3)
proof (induction cs)
  case (Cons c cs)
  then show ?case
    using distinct_cell_hits [OF assms(2)] set_cell_hits [OF assms(2)] grid_inv_unique [OF assms(1)]
    by simp blast
qed simp

lemma set_QueryRadius:
  assumes "grid_inv h" "range_order ord" "\<not> fle radius (FNum 0)" "validatePosition h pos = None"
  shows "set (QueryRadius ord pos radius h) =
    {eid. \<exists>p. Spatial_Get eid h = Some p \<and> toCellCoord p (cellSize h) \<in> set (window pos radius (cellSize h))
           \<and> in_radius pos radius p}"
  using placed_cell [OF assms(1)]
  by (auto simp: QueryRadius_eq assms set_cell_hits Get_iff_placed)

section \<open>Lemmas: the default grid of ten metres\<close>

text \<open>
  Coordinates for which the division by the cell size is reliable: float32 values below 2^23 that
  are not within 2^-120 of zero unless they are zero.
\<close>

definition f32_coord :: "rat \<Rightarrow> bool" where
  "f32_coord x \<longleftrightarrow> is_f32 x \<and> (x = 0 \<or> pow2 (-120) \<le> \<bar>x\<bar>) \<and> \<bar>x\<bar> < pow2 23"

lemma f32_coord_bound: "f32_coord x \<Longrightarrow> \<bar>x\<bar> < 8388608"
  by (simp add: f32_coord_def pow2_def power_int_def)

lemma f32_coord_of_int:
  assumes "\<bar>k\<bar> < 8388608"
  shows "f32_coord (of_int k)"
proof -
  have "is_f32 (of_int k)" using assms by (simp add: is_f32_def round32_of_int)
  moreover have "k = 0 \<or> pow2 (-120) \<le> \<bar>of_int k\<bar>"
  proof -
    have one: "pow2 (-120) \<le> 1" using pow2_mono [of "-120" 0] by (simp add: pow2_def)
    have "k = 0 \<or> 1 \<le> \<bar>of_int k :: rat\<bar>" by (metis of_int_1_le_iff of_int_abs zero_less_abs_iff int_one_le_iff_zero_less)
    with one show ?thesis by (meson order_trans)
  qed
  moreover have "\<bar>of_int k :: rat\<bar> < 8388608" using assms by (metis of_int_abs of_int_less_iff of_int_numeral)
  moreover have "pow2 23 = 8388608" by (simp add: pow2_def power_int_def)
  ultimately show ?thesis by (auto simp: f32_coord_def)
qed

lemma to_int_small: "\<bar>k\<bar> < 9223372036854775808 \<Longrightarrow> to_int (FNum (of_int k)) = k"
  by (auto simp: Let_def)

lemma tenth_bounds:
  fixes x :: rat
  assumes "\<bar>x\<bar> < 8388608"
  shows "\<bar>\<lfloor>x / 10\<rfloor>\<bar> < 838862" "\<bar>\<lceil>x / 10\<rceil>\<bar> < 838862"
proof -
  have x: "-838861 < x / 10" "x / 10 < 838861" using assms by linarith+
  have "-838861 \<le> \<lfloor>x / 10\<rfloor>" "\<lfloor>x / 10\<rfloor> < 838861" using x by (simp_all add: le_floor_iff floor_less_iff)
  then show "\<bar>\<lfloor>x / 10\<rfloor>\<bar> < 838862" by linarith
  have "-838861 < \<lceil>x / 10\<rceil>" "\<lceil>x / 10\<rceil> \<le> 838861" using x by (simp_all add: less_ceiling_iff ceiling_le_iff)
  then show "\<bar>\<lceil>x / 10\<rceil>\<bar> < 838862" by linarith
qed

lemma cell_index_10:
  assumes "f32_coord x"
  shows "cell_index (FNum x) (FNum 10) = \<lfloor>x / 10\<rfloor>"
proof -
  from assms obtain y where y: "round32 (x / 10) = FNum y"
    and less: "\<And>k::int. y < of_int k \<longleftrightarrow> x / 10 < of_int k"
    unfolding f32_coord_def by (metis div10_compare)
  have "of_int \<lfloor>x / 10\<rfloor> \<le> y" using less [of "\<lfloor>x / 10\<rfloor>"] of_int_floor_le [of "x / 10"] by linarith
  moreover have "y < of_int \<lfloor>x / 10\<rfloor> + 1"
    using less [of "\<lfloor>x / 10\<rfloor> + 1"] floor_correct [of "x / 10"] by simp
  ultimately have floor: "\<lfloor>y\<rfloor> = \<lfloor>x / 10\<rfloor>" by (simp add: floor_eq_iff)
  moreover have "\<bar>\<lfloor>x / 10\<rfloor>\<bar> < 9223372036854775808"
    using tenth_bounds(1) [OF f32_coord_bound [OF assms]] by linarith
  ultimately show ?thesis by (simp add: cell_index_def y to_int_small del: to_int.simps)
qed

lemma cell_radius_10:
  assumes "f32_coord r"
  shows "to_int (Ceil (fdiv round32 (FNum r) (FNum 10))) = \<lceil>r / 10\<rceil>"
proof -
  from assms obtain y where y: "round32 (r / 10) = FNum y"
    and less: "\<And>k::int. of_int k < y \<longleftrightarrow> of_int k < r / 10"
    unfolding f32_coord_def by (metis div10_compare)
  have "y \<le> of_int \<lceil>r / 10\<rceil>" using less [of "\<lceil>r / 10\<rceil>"] le_of_int_ceiling [of "r / 10"] by linarith
  moreover have "of_int \<lceil>r / 10\<rceil> - 1 < y"
    using less [of "\<lceil>r / 10\<rceil> - 1"] ceiling_correct [of "r / 10"] by simp
  ultimately have ceil: "\<lceil>y\<rceil> = \<lceil>r / 10\<rceil>" by (simp add: ceiling_eq_iff)
  moreover have "\<bar>\<lceil>r / 10\<rceil>\<bar> < 9223372036854775808"
    using tenth_bounds(2) [OF f32_coord_bound [OF assms]] by linarith
  ultimately show ?thesis by (simp add: y to_int_small del: to_int.simps)
qed

lemma set_window:
  "c \<in> set (window pos radius csize) \<longleftrightarrow>
     (let v = toCellCoord pos csize; n = to_int (Ceil (fdiv round32 radius csize))
      in cc_X c \<in> {wrap64 (cc_X v - n) .. wrap64 (cc_X v + n)}
         \<and> cc_Z c \<in> {wrap64 (cc_Z v - n) .. wrap64 (cc_Z v + n)})"
proof -
  have "c \<in> (\<Union>x\<in>A. (\<lambda>z. \<lparr>cc_X = x, cc_Z = z\<rparr>) ` B) \<longleftrightarrow> cc_X c \<in> A \<and> cc_Z c \<in> B" for A B
    by (cases c) (simp add: image_iff)
  then show ?thesis by (simp add: window_def Let_def)
qed

text \<open>The scanned interval of cells contains every coordinate within the radius.\<close>

lemma window_covers:
  assumes "f32_coord p" "f32_coord e" "f32_coord r" "\<bar>p - e\<bar> \<le> r"
  shows "cell_index (FNum e) (FNum 10) \<in>
    {wrap64 (cell_index (FNum p) (FNum 10) - \<lceil>r / 10\<rceil>) .. wrap64 (cell_index (FNum p) (FNum 10) + \<lceil>r / 10\<rceil>)}"
proof -
  note b = assms(1-3) [THEN f32_coord_bound]
  have w: "wrap64 k = k" if "\<bar>k\<bar> < 2000000" for k using that by (intro wrap64_id) auto
  have "wrap64 (\<lfloor>p / 10\<rfloor> - \<lceil>r / 10\<rceil>) = \<lfloor>p / 10\<rfloor> - \<lceil>r / 10\<rceil>"
    "wrap64 (\<lfloor>p / 10\<rfloor> + \<lceil>r / 10\<rceil>) = \<lfloor>p / 10\<rfloor> + \<lceil>r / 10\<rceil>"
    using b [THEN tenth_bounds(1)] b [THEN tenth_bounds(2)] by (intro w; linarith)+
  moreover have "\<lfloor>p / 10\<rfloor> - \<lceil>r / 10\<rceil> \<le> \<lfloor>e / 10\<rfloor>" "\<lfloor>e / 10\<rfloor> \<le> \<lfloor>p / 10\<rfloor> + \<lceil>r / 10\<rceil>"
    using assms(4) by linarith+
  ultimately show ?thesis by (simp add: cell_index_10 assms)
qed

section \<open>Properties\<close>

text \<open>A sequence of moves (\<open>Inl\<close>) and removals (\<open>Inr\<close>) on the index, and on a plain map.\<close>

fun spatial_op :: "(string \<times> EntityPosition) + string \<Rightarrow> GridSpatialHash \<Rightarrow> GridSpatialHash" where
  "spatial_op (Inl (eid, pos)) h = snd (Spatial_Update eid pos h)"
| "spatial_op (Inr eid) h = Spatial_Remove eid h"

fun map_op :: "(EntityPosition \<Rightarrow> bool) \<Rightarrow> (string \<times> EntityPosition) + string
    \<Rightarrow> (string \<rightharpoonup> EntityPosition) \<Rightarrow> (string \<rightharpoonup> EntityPosition)" where
  "map_op ok (Inl (eid, pos)) m = (if ok pos then m(eid \<mapsto> pos) else m)"
| "map_op ok (Inr eid) m = m(eid := None)"

lemma spatial_op_exec: "spatial_op = si.exec"
proof (intro ext)
  fix x h show "spatial_op x h = si.exec x h" by (induction x h rule: spatial_op.induct) simp_all
qed

lemma map_op_exec: "map_op = si.exec_map"
proof (intro ext)
  fix ok x m show "map_op ok x m k = si.exec_map ok x m k" for k
    by (induction ok x m rule: map_op.induct) simp_all
qed

text \<open>
  C14: The grid hash implements a map. After any sequence of moves and removals on a new grid,
  looking an entity up gives its last accepted position and nothing after a removal, as a
  plain map would; the invariant tying cells to entities holds, and no further move can hit
  the write to a missing cell map.
\<close>

theorem spatial_refines_map:
  "let h0 = NewGridSpatialHash config; h = fold spatial_op ops h0
   in grid_inv h
      \<and> (\<lambda>eid. Spatial_Get eid h) = fold (map_op (\<lambda>p. validatePosition h0 p = None)) ops (\<lambda>_. None)
      \<and> fst (Spatial_Update eid pos h) \<noteq> Some PanicNilMap"
proof -
  let ?start = "NewGridSpatialHash config"
  let ?h = "fold spatial_op ops ?start"
  have start: "(\<lambda>eid. Spatial_Get eid ?start) = (\<lambda>_. None)"
    by (simp add: Spatial_Get_def NewGridSpatialHash_def Let_def)
  have accepts: "spatial_accepts ?start = (\<lambda>p. validatePosition ?start p = None)"
    by (simp add: spatial_accepts_def fun_eq_iff)
  from si.exec_refines [OF New_inv [of config], of ops]
  have ref: "grid_inv ?h"
    "(\<lambda>eid. Spatial_Get eid ?h) = fold (map_op (\<lambda>p. validatePosition ?start p = None)) ops (\<lambda>_. None)"
    unfolding spatial_op_exec map_op_exec accepts start by blast+
  have "fst (Spatial_Update eid pos ?h) \<noteq> Some PanicNilMap"
  proof (cases "validatePosition ?h pos")
    case None
    from Spatial_Update_valid [OF ref(1) None, of eid] show ?thesis by (metis fst_conv option.distinct(1))
  qed (auto simp: Update_rejected validatePosition_def split: if_splits)
  with ref show ?thesis by (simp add: Let_def)
qed

text \<open>
  A radius query is exact for the cells it scans. Whatever order cells are visited in, it
  returns, once each, precisely the tracked entities that lie in the window of cells around
  the viewer and pass the distance test; for a non-positive radius or an invalid position it
  returns nothing. The visibility query is the same set without the viewer.
\<close>

theorem QueryRadius_exact:
  assumes "grid_inv h" and "range_order ord"
  shows "distinct (QueryRadius ord pos radius h)
    \<and> set (QueryRadius ord pos radius h) =
        (if fle radius (FNum 0) \<or> validatePosition h pos \<noteq> None then {}
         else {eid. \<exists>p. Spatial_Get eid h = Some p
                    \<and> toCellCoord p (cellSize h) \<in> set (window pos radius (cellSize h))
                    \<and> in_radius pos radius p})
    \<and> set (QueryVisiblePlayers ord cfg h pos viewer) = set (QueryRadius ord pos (VisualRadiusM cfg) h) - {viewer}"
proof (cases "fle radius (FNum 0) \<or> validatePosition h pos \<noteq> None")
  case True
  then have "QueryRadius ord pos radius h = []" by (auto simp: QueryRadius_def)
  with True show ?thesis by (auto simp: QueryVisiblePlayers_def)
next
  case False
  then have "distinct (QueryRadius ord pos radius h)"
    using distinct_concat_hits [OF assms distinct_window] by (simp add: QueryRadius_eq)
  with False set_QueryRadius [OF assms] show ?thesis by (auto simp: QueryVisiblePlayers_def)
qed

theorem QueryRadius_exact_witness:
  "set (QueryVisiblePlayers sorted_order DefaultInterestConfig
     (snd (Spatial_Update ''p1'' (Pos (FNum 1) (FNum 2)) (NewGridSpatialHash DefaultSpatialConfig)))
     (Pos (FNum 1) (FNum 2)) ''p1'') =
   set (QueryRadius sorted_order (Pos (FNum 1) (FNum 2)) (FNum 30)
     (snd (Spatial_Update ''p1'' (Pos (FNum 1) (FNum 2)) (NewGridSpatialHash DefaultSpatialConfig)))) - {''p1''}"
  using QueryRadius_exact [OF Update_inv [OF New_inv] sorted_order_range,
      of "Pos (FNum 1) (FNum 2)" "FNum 30" "''p1''" "Pos (FNum 1) (FNum 2)" DefaultSpatialConfig
         DefaultInterestConfig "''p1''"]
  by (simp add: DefaultInterestConfig_def)



end
