(* ===== verification/Cluster.thy ===== *)
theory Cluster
  imports Spatial
begin

text \<open>
  Package \<^verbatim>\<open>internal/game/cluster\<close>: the configuration and the output (\<^verbatim>\<open>types.go\<close>), the
  allocator interface (\<^verbatim>\<open>allocator.go\<close>), and its K-Means implementation (\<^verbatim>\<open>kmeans.go\<close>).

  The slices \<^verbatim>\<open>assignments\<close> and \<^verbatim>\<open>centroids\<close>, updated in place, are lists passed and returned.
  Go panics on an index outside a slice; \<open>pass_wf\<close> states that every index used is inside its
  slice and is shown of every state the loop reaches, so the unspecified part of \<open>!\<close> is never
  read. \<^verbatim>\<open>sort.Slice\<close> is not stable; the model uses the stable \<open>sort_key\<close>, which is the same
  function on the distinct player identifiers the room supplies.
\<close>

section \<open>Data\<close>

record ClusterConfig =
  cl_Enabled :: bool
  cl_TargetClusterSize :: int
  cl_MaxClusterRadius :: gofloat
  cl_ReclusterIntervalTicks :: int
  cl_MovementThreshold :: gofloat
  cl_MembershipHysteresis :: gofloat
  cl_MaxIterations :: int
  cl_MaxPlayersPerRoom :: int

definition DefaultClusterConfig :: ClusterConfig where
  "DefaultClusterConfig =
     \<lparr>cl_Enabled = True, cl_TargetClusterSize = 8, cl_MaxClusterRadius = FNum 30,
      cl_ReclusterIntervalTicks = 10, cl_MovementThreshold = FNum 2,
      cl_MembershipHysteresis = FNum 5, cl_MaxIterations = 20, cl_MaxPlayersPerRoom = 200\<rparr>"

record ClusterPlayer =
  cp_PlayerID :: string
  cp_Position :: EntityPosition

record ClusterInput =
  ci_Players :: "ClusterPlayer list"

record ClusterOutput =
  co_Assignments :: "(string, u32) fmap"
  co_Clusters :: "(u32, string list) fmap"
  co_Centroids :: "(u32, EntityPosition) fmap"
  co_K :: int

record KMeansClusterAllocator =
  prevOutput :: "ClusterOutput option"

datatype cluster_err = errTargetClusterSizeZero | errMaxIterationsZero | errMaxPlayersZero

definition NewKMeansClusterAllocator :: KMeansClusterAllocator where
  "NewKMeansClusterAllocator = \<lparr>prevOutput = None\<rparr>"

definition Reset :: "KMeansClusterAllocator \<Rightarrow> KMeansClusterAllocator" where
  "Reset a = a\<lparr>prevOutput := None\<rparr>"

section \<open>Configuration and input\<close>

definition validateConfig :: "ClusterConfig \<Rightarrow> cluster_err option" where
  "validateConfig cfg =
     (if cl_TargetClusterSize cfg \<le> 0 then Some errTargetClusterSizeZero
      else if cl_MaxIterations cfg \<le> 0 then Some errMaxIterationsZero
      else if cl_MaxPlayersPerRoom cfg \<le> 0 then Some errMaxPlayersZero
      else None)"

definition isInvalidPos :: "EntityPosition \<Rightarrow> bool" where
  "isInvalidPos pos \<longleftrightarrow>
     IsNaN (ep_X pos) \<or> IsInf (ep_X pos) \<or> IsNaN (ep_Z pos) \<or> IsInf (ep_Z pos)"

text \<open>The loop of \<^verbatim>\<open>filterValidPlayers\<close>, with its \<^verbatim>\<open>break\<close> at the player limit.\<close>

fun filter_loop :: "ClusterConfig \<Rightarrow> ClusterPlayer list \<Rightarrow> ClusterPlayer list \<Rightarrow> ClusterPlayer list" where
  "filter_loop cfg [] out = out"
| "filter_loop cfg (p # ps) out =
     (if cp_PlayerID p = [] then filter_loop cfg ps out
      else if isInvalidPos (cp_Position p) then filter_loop cfg ps out
      else let out = out @ [p]
           in if cl_MaxPlayersPerRoom cfg > 0 \<and> int (length out) \<ge> cl_MaxPlayersPerRoom cfg then out
              else filter_loop cfg ps out)"

definition filterValidPlayers :: "ClusterPlayer list \<Rightarrow> ClusterConfig \<Rightarrow> ClusterPlayer list" where
  "filterValidPlayers players cfg = filter_loop cfg players []"

definition computeK :: "int \<Rightarrow> int \<Rightarrow> int" where
  "computeK n targetSize =
     (let k = go_div (wrap64 (n + targetSize - 1)) targetSize;
          k = (if k < 1 then 1 else k)
      in if k > n then n else k)"

definition initCentroids :: "ClusterPlayer list \<Rightarrow> nat \<Rightarrow> EntityPosition list" where
  "initCentroids players k =
     (let sorted = sort_key cp_PlayerID players
      in map (\<lambda>i. cp_Position (sorted ! i)) [0..<k])"

section \<open>Geometry\<close>

definition squaredDist :: "EntityPosition \<Rightarrow> EntityPosition \<Rightarrow> gofloat" where
  "squaredDist a b =
     (let dx = fsub round32 (ep_X a) (ep_X b); dz = fsub round32 (ep_Z a) (ep_Z b)
      in fadd round64 (fmul round64 dx dx) (fmul round64 dz dz))"

definition euclideanDist :: "EntityPosition \<Rightarrow> EntityPosition \<Rightarrow> gofloat" where
  "euclideanDist a b =
     (let dx = fsub round32 (ep_X a) (ep_X b); dz = fsub round32 (ep_Z a) (ep_Z b)
      in to_f32 (Sqrt (fadd round64 (fmul round64 dx dx) (fmul round64 dz dz))))"

fun nearest_loop :: "EntityPosition \<Rightarrow> EntityPosition list \<Rightarrow> nat \<Rightarrow> nat \<Rightarrow> gofloat \<Rightarrow> nat" where
  "nearest_loop pos [] i best bestDist = best"
| "nearest_loop pos (c # cs) i best bestDist =
     (let d = squaredDist pos c
      in if flt d bestDist then nearest_loop pos cs (i + 1) i d
         else nearest_loop pos cs (i + 1) best bestDist)"

definition nearestCentroidIndex :: "EntityPosition \<Rightarrow> EntityPosition list \<Rightarrow> nat" where
  "nearestCentroidIndex pos centroids =
     nearest_loop pos (tl centroids) 1 0 (squaredDist pos (centroids ! 0))"

section \<open>One pass of K-Means\<close>

fun assignNearest :: "ClusterPlayer list \<Rightarrow> EntityPosition list \<Rightarrow> nat list \<Rightarrow> bool \<times> nat list" where
  "assignNearest (p # ps) centroids (a # as) =
     (let nearest = nearestCentroidIndex (cp_Position p) centroids;
          (changed, rest) = assignNearest ps centroids as
      in (a \<noteq> nearest \<or> changed, nearest # rest))"
| "assignNearest [] centroids as = (False, as)"
| "assignNearest (p # ps) centroids [] = (False, [])"

record cluster_sums =
  sumX :: "gofloat list"
  sumZ :: "gofloat list"
  count :: "nat list"

definition add_member :: "ClusterPlayer \<times> nat \<Rightarrow> cluster_sums \<Rightarrow> cluster_sums" where
  "add_member pc s =
     (case pc of (p, c) \<Rightarrow>
       \<lparr>sumX = (sumX s)[c := fadd round64 (sumX s ! c) (ep_X (cp_Position p))],
        sumZ = (sumZ s)[c := fadd round64 (sumZ s ! c) (ep_Z (cp_Position p))],
        count = (count s)[c := count s ! c + 1]\<rparr>)"

definition recomputeCentroids :: "ClusterPlayer list \<Rightarrow> nat list \<Rightarrow> EntityPosition list \<Rightarrow> nat \<Rightarrow> EntityPosition list" where
  "recomputeCentroids players assignments centroids k =
     (let s = fold add_member (zip players assignments)
                \<lparr>sumX = replicate k (FNum 0), sumZ = replicate k (FNum 0), count = replicate k 0\<rparr>
      in map (\<lambda>c. if count s ! c > 0
                  then Pos (to_f32 (fdiv round64 (sumX s ! c) (FNum (of_nat (count s ! c)))))
                           (to_f32 (fdiv round64 (sumZ s ! c) (FNum (of_nat (count s ! c)))))
                  else centroids ! c) [0..<k])"

fun kmeans_loop :: "ClusterPlayer list \<Rightarrow> nat \<Rightarrow> nat \<Rightarrow> EntityPosition list \<times> nat list
    \<Rightarrow> EntityPosition list \<times> nat list" where
  "kmeans_loop players k 0 (centroids, assignments) = (centroids, assignments)"
| "kmeans_loop players k (Suc m) (centroids, assignments) =
     (let (changed, assignments) = assignNearest players centroids assignments;
          centroids = recomputeCentroids players assignments centroids k
      in if \<not> changed then (centroids, assignments)
         else kmeans_loop players k m (centroids, assignments))"

section \<open>Hysteresis and output\<close>

definition hysteresis_one :: "EntityPosition list \<Rightarrow> ClusterOutput \<Rightarrow> gofloat \<Rightarrow> ClusterPlayer \<Rightarrow> nat \<Rightarrow> nat" where
  "hysteresis_one centroids prev hysteresis p a =
     (case fmlookup (co_Assignments prev) (cp_PlayerID p) of None \<Rightarrow> a
      | Some prevID \<Rightarrow>
        (case fmlookup (co_Centroids prev) prevID of None \<Rightarrow> a
         | Some prevCentroid \<Rightarrow>
             let newCentroid = centroids ! a;
                 distNew = euclideanDist (cp_Position p) newCentroid;
                 distOld = euclideanDist (cp_Position p) prevCentroid
             in if fle (fsub round32 distOld hysteresis) distNew
                then nearestCentroidIndex prevCentroid centroids
                else a))"

definition applyHysteresis :: "ClusterPlayer list \<Rightarrow> nat list \<Rightarrow> EntityPosition list \<Rightarrow> ClusterOutput \<Rightarrow> gofloat \<Rightarrow> nat list" where
  "applyHysteresis players assignments centroids prev hysteresis =
     map2 (hysteresis_one centroids prev hysteresis) players assignments"

definition emptyOutput :: ClusterOutput where
  "emptyOutput = \<lparr>co_Assignments = fmempty, co_Clusters = fmempty, co_Centroids = fmempty, co_K = 0\<rparr>"

definition add_output :: "ClusterPlayer \<times> nat \<Rightarrow> ClusterOutput \<Rightarrow> ClusterOutput" where
  "add_output pa out =
     (case pa of (p, a) \<Rightarrow>
       let cid = word_of_nat a
       in out\<lparr>co_Assignments := fmupd (cp_PlayerID p) cid (co_Assignments out),
              co_Clusters := fmupd cid (map_get [] (co_Clusters out) cid @ [cp_PlayerID p]) (co_Clusters out)\<rparr>)"

definition buildOutput :: "ClusterPlayer list \<Rightarrow> nat list \<Rightarrow> EntityPosition list \<Rightarrow> nat \<Rightarrow> ClusterOutput" where
  "buildOutput players assignments centroids k =
     fold add_output (zip players assignments)
       \<lparr>co_Assignments = fmempty, co_Clusters = fmempty,
        co_Centroids = fold (\<lambda>c. fmupd (word_of_nat c) (centroids ! c)) [0..<k] fmempty,
        co_K = int k\<rparr>"

section \<open>Compute\<close>

definition Compute :: "ClusterInput \<Rightarrow> ClusterConfig \<Rightarrow> KMeansClusterAllocator
    \<Rightarrow> (cluster_err + ClusterOutput) \<times> KMeansClusterAllocator" where
  "Compute input config a =
     (case validateConfig config of
        Some err \<Rightarrow> (Inl err, a)
      | None \<Rightarrow>
          let valid = filterValidPlayers (ci_Players input) config;
              n = length valid
          in if n = 0 then (let out = emptyOutput in (Inr out, a\<lparr>prevOutput := Some out\<rparr>))
             else let k = nat (computeK (int n) (cl_TargetClusterSize config));
                      (centroids, assignments) =
                        kmeans_loop valid k (nat (cl_MaxIterations config))
                          (initCentroids valid k, replicate n 0);
                      assignments =
                        (case prevOutput a of
                           Some prev \<Rightarrow>
                             if flt (FNum 0) (cl_MembershipHysteresis config)
                             then applyHysteresis valid assignments centroids prev (cl_MembershipHysteresis config)
                             else assignments
                         | None \<Rightarrow> assignments);
                      out = buildOutput valid assignments centroids k
                  in (Inr out, a\<lparr>prevOutput := Some out\<rparr>))"

section \<open>Lemmas: input\<close>

definition usable :: "ClusterPlayer \<Rightarrow> bool" where
  "usable p \<longleftrightarrow> cp_PlayerID p \<noteq> [] \<and> \<not> isInvalidPos (cp_Position p)"

lemma filter_loop_eq:
  "int (length out) < cl_MaxPlayersPerRoom cfg \<Longrightarrow>
   filter_loop cfg ps out = out @ take (nat (cl_MaxPlayersPerRoom cfg) - length out) (filter usable ps)"
proof (induction cfg ps out rule: filter_loop.induct)
  case (2 cfg p ps out)
  let ?m = "cl_MaxPlayersPerRoom cfg"
  show ?case
  proof (cases "usable p")
    case True
    have step: "nat ?m - length out = Suc (nat ?m - length (out @ [p]))" using 2(4) by simp
    show ?thesis
    proof (cases "int (length (out @ [p])) \<ge> ?m")
      case full: True
      with 2(4) have "nat ?m - length (out @ [p]) = 0" "0 < ?m" by auto
      with True full show ?thesis by (simp add: step usable_def del: length_append)
    next
      case False
      then show ?thesis using True 2(3) [OF _ _ refl] by (simp add: step usable_def del: length_append)
    qed
  qed (use 2 in \<open>auto simp: usable_def\<close>)
qed simp

lemma filterValidPlayers_eq:
  "0 < cl_MaxPlayersPerRoom cfg \<Longrightarrow>
   filterValidPlayers ps cfg = take (nat (cl_MaxPlayersPerRoom cfg)) (filter usable ps)"
  by (simp add: filterValidPlayers_def filter_loop_eq)

lemma computeK_bounds: "1 \<le> n \<Longrightarrow> 1 \<le> computeK n t \<and> computeK n t \<le> n"
  by (simp add: computeK_def Let_def)

lemma computeK_ceiling:
  assumes "1 \<le> n" "1 \<le> t" "n + t \<le> 2 ^ 63"
  shows "computeK n t = \<lceil>of_int n / of_int t :: rat\<rceil>"
proof -
  let ?q = "(n + t - 1) div t"
  have lo: "?q * t \<le> n + t - 1"
    using assms div_mult_mod_eq [of "n + t - 1" t] pos_mod_sign [of t "n + t - 1"] by linarith
  have hi: "n + t - 1 < ?q * t + t"
    using assms div_mult_mod_eq [of "n + t - 1" t] pos_mod_bound [of t "n + t - 1"] by linarith
  have eq: "\<lceil>of_int n / of_int t :: rat\<rceil> = ?q"
  proof (rule ceiling_unique)
    have "of_int ((?q - 1) * t) < (of_int n :: rat)" using lo by (subst of_int_less_iff) (simp add: algebra_simps)
    then show "of_int ?q - 1 < (of_int n / of_int t :: rat)" using assms by (simp add: pos_less_divide_eq)
    have "(of_int n :: rat) \<le> of_int (?q * t)" using hi by (subst of_int_le_iff) simp
    then show "(of_int n / of_int t :: rat) \<le> of_int ?q" using assms by (simp add: pos_divide_le_eq)
  qed
  have w: "wrap64 (n + t - 1) = n + t - 1" using assms by (intro wrap64_id) auto
  have g: "go_div (n + t - 1) t = ?q" using assms by (intro go_div_nonneg) auto
  have "1 \<le> ?q" using assms by (simp add: pos_imp_zdiv_pos_iff int_one_le_iff_zero_less)
  moreover have "?q \<le> n"
  proof -
    have "0 \<le> (n - 1) * (t - 1)" using assms by simp
    then have "n + t - 1 \<le> n * t" by (simp add: algebra_simps)
    then have "?q \<le> (n * t) div t" using assms by (intro zdiv_mono1) auto
    with assms show ?thesis by simp
  qed
  ultimately show ?thesis by (simp add: computeK_def Let_def w g eq)
qed

section \<open>Lemmas: the nearest centroid\<close>

lemma nearest_loop_min:
  fixes pos
  defines "d \<equiv> squaredDist pos"
  assumes "best < length pre" and "\<forall>j<length pre. \<not> flt (d (pre ! j)) (d (pre ! best))"
    and "\<forall>j<best. IsNaN (d (pre ! j)) \<or> flt (d (pre ! best)) (d (pre ! j))"
  shows "let r = nearest_loop pos cs (length pre) best (d (pre ! best)); all = pre @ cs
    in r < length all \<and> (\<forall>j<length all. \<not> flt (d (all ! j)) (d (all ! r)))
       \<and> (\<forall>j<r. IsNaN (d (all ! j)) \<or> flt (d (all ! r)) (d (all ! j)))"
  using assms(2-)
proof (induction cs arbitrary: pre best)
  case (Cons c cs)
  show ?case
  proof (cases "flt (d c) (d (pre ! best))")
    case True
    have at: "(pre @ [c]) ! length pre = c" by simp
    have "\<not> flt (d ((pre @ [c]) ! j)) (d c)" if "j < length (pre @ [c])" for j
      using that Cons.prems(2) True flt_trans by (cases "j = length pre") (auto simp: nth_append less_Suc_eq)
    moreover have "IsNaN (d ((pre @ [c]) ! j)) \<or> flt (d c) (d ((pre @ [c]) ! j))" if "j < length pre" for j
      using that Cons.prems(2) True flt_not_flt_trans by (simp add: nth_append) blast
    ultimately show ?thesis
      using Cons.IH [of "length pre" "pre @ [c]"] True by (simp add: at d_def Let_def)
  next
    case False
    have at: "(pre @ [c]) ! best = pre ! best" using Cons.prems(1) by (simp add: nth_append)
    have "\<not> flt (d ((pre @ [c]) ! j)) (d (pre ! best))" if "j < length (pre @ [c])" for j
      using that Cons.prems(2) False by (cases "j = length pre") (auto simp: nth_append less_Suc_eq)
    moreover have "IsNaN (d ((pre @ [c]) ! j)) \<or> flt (d (pre ! best)) (d ((pre @ [c]) ! j))" if "j < best" for j
      using that Cons.prems(1,3) by (simp add: nth_append)
    ultimately show ?thesis
      using Cons.IH [of best "pre @ [c]"] Cons.prems(1) False by (simp add: at d_def Let_def)
  qed
qed (simp add: Let_def)

lemma nearestCentroidIndex_min:
  fixes pos
  defines "d \<equiv> squaredDist pos"
  assumes "cs \<noteq> []"
  shows "nearestCentroidIndex pos cs < length cs"
    and "\<forall>j<length cs. \<not> flt (d (cs ! j)) (d (cs ! nearestCentroidIndex pos cs))"
    and "\<forall>j<nearestCentroidIndex pos cs. IsNaN (d (cs ! j)) \<or> flt (d (cs ! nearestCentroidIndex pos cs)) (d (cs ! j))"
proof -
  obtain c rest where cs: "cs = c # rest" using assms(2) by (cases cs) auto
  have n: "nearestCentroidIndex pos cs = nearest_loop pos rest (length [c]) 0 (squaredDist pos ([c] ! 0))"
    by (simp add: nearestCentroidIndex_def cs)
  have "let r = nearest_loop pos rest (length [c]) 0 (squaredDist pos ([c] ! 0)); all = [c] @ rest
    in r < length all \<and> (\<forall>j<length all. \<not> flt (d (all ! j)) (d (all ! r)))
       \<and> (\<forall>j<r. IsNaN (d (all ! j)) \<or> flt (d (all ! r)) (d (all ! j)))"
    unfolding d_def by (rule nearest_loop_min) simp_all
  then show "nearestCentroidIndex pos cs < length cs"
    "\<forall>j<length cs. \<not> flt (d (cs ! j)) (d (cs ! nearestCentroidIndex pos cs))"
    "\<forall>j<nearestCentroidIndex pos cs. IsNaN (d (cs ! j)) \<or> flt (d (cs ! nearestCentroidIndex pos cs)) (d (cs ! j))"
    unfolding n [symmetric] Let_def cs by simp_all
qed

section \<open>Lemmas: the loop\<close>

definition pass_wf :: "ClusterPlayer list \<Rightarrow> nat \<Rightarrow> EntityPosition list \<times> nat list \<Rightarrow> bool" where
  "pass_wf players k st \<longleftrightarrow>
     length (fst st) = k \<and> length (snd st) = length players \<and> (\<forall>a\<in>set (snd st). a < k)"

lemma assignNearest_eq:
  "length as = length ps \<Longrightarrow>
   assignNearest ps cs as = (as \<noteq> map (\<lambda>p. nearestCentroidIndex (cp_Position p) cs) ps,
                             map (\<lambda>p. nearestCentroidIndex (cp_Position p) cs) ps)"
  by (induction ps cs as rule: assignNearest.induct) (auto simp: Let_def split: prod.splits)

text \<open>A pass without the test for changes.\<close>

definition full_pass :: "ClusterPlayer list \<Rightarrow> nat \<Rightarrow> EntityPosition list \<times> nat list \<Rightarrow> EntityPosition list \<times> nat list" where
  "full_pass ps k st =
     (let as = snd (assignNearest ps (fst st) (snd st)) in (recomputeCentroids ps as (fst st) k, as))"

lemma kmeans_loop_Suc:
  "kmeans_loop ps k (Suc m) st =
     (if fst (assignNearest ps (fst st) (snd st)) then kmeans_loop ps k m (full_pass ps k st) else full_pass ps k st)"
  by (cases st) (simp add: full_pass_def Let_def split: prod.split)

lemma kmeans_loop_0 [simp]: "kmeans_loop ps k 0 st = st"
  by (cases st) simp

lemma length_recompute [simp]: "length (recomputeCentroids ps as cs k) = k"
  by (simp add: recomputeCentroids_def Let_def)

lemma recompute_idem:
  "recomputeCentroids ps as (recomputeCentroids ps as cs k) k = recomputeCentroids ps as cs k"
  by (simp add: recomputeCentroids_def Let_def)

lemma full_pass_wf: "pass_wf ps k st \<Longrightarrow> 0 < k \<Longrightarrow> pass_wf ps k (full_pass ps k st)"
  using nearestCentroidIndex_min(1) [of "fst st"]
  by (cases st) (auto simp: pass_wf_def full_pass_def assignNearest_eq Let_def)

lemma kmeans_loop_wf: "pass_wf ps k st \<Longrightarrow> 0 < k \<Longrightarrow> pass_wf ps k (kmeans_loop ps k m st)"
  by (induction m arbitrary: st) (auto simp: kmeans_loop_Suc full_pass_wf simp del: kmeans_loop.simps(2) split: prod.splits)

text \<open>After a first pass, a pass without changes is a fixed point, so leaving the loop is sound.\<close>

lemma settled:
  assumes "length (snd st) = length ps" and "\<not> fst (assignNearest ps (fst (full_pass ps k st)) (snd (full_pass ps k st)))"
  shows "full_pass ps k (full_pass ps k st) = full_pass ps k st"
proof -
  let ?as = "snd (full_pass ps k st)" and ?cs = "fst (full_pass ps k st)"
  have as: "length ?as = length ps" using assms(1) by (simp add: full_pass_def assignNearest_eq Let_def)
  with assms(2) have same: "assignNearest ps ?cs ?as = (False, ?as)" by (simp add: assignNearest_eq)
  have "recomputeCentroids ps ?as ?cs k = ?cs" by (simp add: full_pass_def Let_def recompute_idem)
  with same show ?thesis by (simp add: full_pass_def [of ps k "full_pass ps k st"])
qed

lemma kmeans_loop_full:
  assumes "length (snd st) = length ps"
  shows "kmeans_loop ps k m (full_pass ps k st) = (full_pass ps k ^^ m) (full_pass ps k st)"
  using assms
proof (induction m arbitrary: st)
  case (Suc m)
  let ?st = "full_pass ps k st"
  have len: "length (snd ?st) = length ps" using Suc.prems by (simp add: full_pass_def assignNearest_eq Let_def)
  show ?case
  proof (cases "fst (assignNearest ps (fst ?st) (snd ?st))")
    case True
    then show ?thesis using Suc.IH [OF len] by (simp add: kmeans_loop_Suc funpow_swap1 del: kmeans_loop.simps)
  next
    case False
    from settled [OF Suc.prems False] have fp: "full_pass ps k ?st = ?st" .
    then have "(full_pass ps k ^^ j) ?st = ?st" for j by (induction j) simp_all
    with False fp show ?thesis by (simp add: kmeans_loop_Suc del: kmeans_loop.simps)
  qed
qed simp

section \<open>Lemmas: the output\<close>

text \<open>What the room relies on: clusters partition the players, assignments name their cluster.\<close>

definition members :: "ClusterOutput \<Rightarrow> u32 \<Rightarrow> string list" where
  "members out cid = map_get [] (co_Clusters out) cid"

definition well_clustered :: "string set \<Rightarrow> ClusterOutput \<Rightarrow> bool" where
  "well_clustered ids out \<longleftrightarrow>
     fset (fmdom (co_Assignments out)) = ids
     \<and> (\<forall>pid cid. fmlookup (co_Assignments out) pid = Some cid \<longleftrightarrow> pid \<in> set (members out cid))
     \<and> (\<forall>cid. distinct (members out cid))
     \<and> (\<forall>cid. members out cid \<noteq> [] \<longrightarrow> uint cid < co_K out \<and> cid |\<in>| fmdom (co_Centroids out))"

lemma add_output_simps [simp]:
  "co_Assignments (add_output (p, a) out) = fmupd (cp_PlayerID p) (word_of_nat a) (co_Assignments out)"
  "co_Centroids (add_output (p, a) out) = co_Centroids out"
  "co_K (add_output (p, a) out) = co_K out"
  "members (add_output (p, a) out) cid = (if word_of_nat a = cid then members out cid @ [cp_PlayerID p] else members out cid)"
  by (simp_all add: add_output_def members_def Let_def)

lemma outputs_frame [simp]:
  "co_Centroids (fold add_output xs out) = co_Centroids out"
  "co_K (fold add_output xs out) = co_K out"
  by (induction xs arbitrary: out) auto

lemma outputs_members:
  "members (fold add_output xs out) cid =
     members out cid @ map (cp_PlayerID \<circ> fst) (filter (\<lambda>(p, a). word_of_nat a = cid) xs)"
  by (induction xs arbitrary: out) auto

lemma outputs_assign:
  "distinct (map (cp_PlayerID \<circ> fst) xs) \<Longrightarrow>
   fmlookup (co_Assignments (fold add_output xs out)) pid = Some cid \<longleftrightarrow>
     (\<exists>(p, a)\<in>set xs. cp_PlayerID p = pid \<and> word_of_nat a = cid)
     \<or> pid \<notin> (cp_PlayerID \<circ> fst) ` set xs \<and> fmlookup (co_Assignments out) pid = Some cid"
proof (induction xs arbitrary: out)
  case (Cons x xs)
  obtain p a where x: "x = (p, a)" by (cases x)
  from Cons show ?case by (auto simp: x)
qed simp

lemma centroid_ids: "fset (fmdom (fold (\<lambda>c. fmupd (f c) (g c)) xs m)) = f ` set xs \<union> fset (fmdom m)"
  by (induction xs arbitrary: m) auto

lemma in_members: "y \<in> (f \<circ> fst) ` {x \<in> A. case x of (p, a) \<Rightarrow> g a = c} \<longleftrightarrow> (\<exists>(p, a)\<in>A. f p = y \<and> g a = c)"
  by (auto simp: image_iff)

lemma buildOutput_members:
  "members (buildOutput ps as cs k) cid = map (cp_PlayerID \<circ> fst) (filter (\<lambda>(p, a). word_of_nat a = cid) (zip ps as))"
  by (simp add: buildOutput_def outputs_members) (simp add: members_def)

lemma buildOutput_assign:
  assumes "distinct (map (cp_PlayerID \<circ> fst) (zip ps as))"
  shows "fmlookup (co_Assignments (buildOutput ps as cs k)) pid = Some cid \<longleftrightarrow> pid \<in> set (members (buildOutput ps as cs k) cid)"
  unfolding buildOutput_members set_map set_filter in_members
  by (simp add: buildOutput_def outputs_assign [OF assms])

lemma buildOutput_ids:
  assumes "length as = length ps"
  shows "pid \<in> cp_PlayerID ` set ps \<longleftrightarrow> (\<exists>cid. pid \<in> set (members (buildOutput ps as cs k) cid))"
proof -
  have "set ps = fst ` set (zip ps as)" using assms by (metis map_fst_zip set_map)
  then show ?thesis unfolding buildOutput_members set_map set_filter in_members by (auto simp: image_iff Bex_def)
qed

lemma buildOutput_bounds:
  assumes "\<forall>a\<in>set as. a < k" and "pid \<in> set (members (buildOutput ps as cs k) cid)"
  shows "uint cid < int k" and "cid |\<in>| fmdom (co_Centroids (buildOutput ps as cs k))"
proof -
  from assms(2) obtain p a where "(p, a) \<in> set (zip ps as)" and cid: "cid = word_of_nat a"
    unfolding buildOutput_members set_map set_filter in_members by auto
  then have a: "a < k" using assms(1) by (auto dest: set_zip_rightD)
  have "unat cid \<le> a" unfolding cid unat_of_nat by (rule mod_less_eq_dividend)
  with a show "uint cid < int k" unfolding uint_nat [of cid] by linarith
  show "cid |\<in>| fmdom (co_Centroids (buildOutput ps as cs k))"
    using a by (simp add: buildOutput_def centroid_ids cid)
qed

lemma buildOutput_wf:
  assumes "distinct (map cp_PlayerID ps)" and "length as = length ps" and "\<forall>a\<in>set as. a < k"
  shows "well_clustered (cp_PlayerID ` set ps) (buildOutput ps as cs k)"
proof -
  let ?out = "buildOutput ps as cs k"
  have dist: "distinct (map (cp_PlayerID \<circ> fst) (zip ps as))"
    using assms(1,2) by (simp add: map_map [symmetric] del: map_map)
  note asg = buildOutput_assign [OF dist, of cs k]
  have "fset (fmdom (co_Assignments ?out)) = cp_PlayerID ` set ps"
    unfolding set_eq_iff buildOutput_ids [OF assms(2), of _ cs k] fmlookup_dom_iff asg by blast
  moreover have "distinct (members ?out cid)" for cid
    unfolding buildOutput_members by (rule distinct_map_filter [OF dist])
  moreover have "uint cid < co_K ?out \<and> cid |\<in>| fmdom (co_Centroids ?out)" if "members ?out cid \<noteq> []" for cid
    using buildOutput_bounds [OF assms(3) hd_in_set [OF that]] by (simp add: buildOutput_def)
  ultimately show ?thesis unfolding well_clustered_def using asg by blast
qed

lemma hysteresis_one_bound: "a < length cs \<Longrightarrow> hysteresis_one cs prev h p a < length cs"
  using nearestCentroidIndex_min(1) [of cs]
  by (cases "cs = []") (auto simp: hysteresis_one_def Let_def split: option.split)

lemma applyHysteresis_wf: "pass_wf ps k (cs, as) \<Longrightarrow> pass_wf ps k (cs, applyHysteresis ps as cs prev h)"
  using hysteresis_one_bound [of _ cs prev h]
  by (auto simp: pass_wf_def applyHysteresis_def dest: set_zip_rightD)

section \<open>Lemmas: the whole computation\<close>

text \<open>The players a call takes into account.\<close>

definition considered :: "ClusterInput \<Rightarrow> ClusterConfig \<Rightarrow> ClusterPlayer list" where
  "considered input cfg = take (nat (cl_MaxPlayersPerRoom cfg)) (filter usable (ci_Players input))"

lemma Compute_cases:
  assumes "Compute input cfg a = (res, a')"
  obtains (error) e where "validateConfig cfg = Some e" "res = Inl e" "a' = a"
  | (none) "validateConfig cfg = None" "considered input cfg = []" "res = Inr emptyOutput"
      "a' = a\<lparr>prevOutput := Some emptyOutput\<rparr>"
  | (some) out k cs as where "validateConfig cfg = None" "considered input cfg \<noteq> []"
      "k = nat (computeK (int (length (considered input cfg))) (cl_TargetClusterSize cfg))"
      "pass_wf (considered input cfg) k (cs, as)" "out = buildOutput (considered input cfg) as cs k"
      "res = Inr out" "a' = a\<lparr>prevOutput := Some out\<rparr>"
proof (cases "validateConfig cfg")
  case (Some e)
  with assms show thesis by (intro error) (auto simp: Compute_def)
next
  case None
  then have "0 < cl_MaxPlayersPerRoom cfg" by (simp add: validateConfig_def split: if_splits)
  then have v: "filterValidPlayers (ci_Players input) cfg = considered input cfg"
    by (simp add: filterValidPlayers_eq considered_def)
  let ?v = "considered input cfg" and ?h = "cl_MembershipHysteresis cfg"
  let ?k = "nat (computeK (int (length ?v)) (cl_TargetClusterSize cfg))"
  show thesis
  proof (cases "?v = []")
    case True
    with None assms show thesis by (intro none) (auto simp: Compute_def v Let_def)
  next
    case False
    then have n: "1 \<le> int (length ?v)" by (cases ?v) auto
    from computeK_bounds [OF n, of "cl_TargetClusterSize cfg"] have k: "0 < ?k" by simp
    then have "pass_wf ?v ?k (initCentroids ?v ?k, replicate (length ?v) 0)"
      by (simp add: pass_wf_def initCentroids_def Let_def)
    obtain cs as where l: "kmeans_loop ?v ?k (nat (cl_MaxIterations cfg)) (initCentroids ?v ?k, replicate (length ?v) 0) = (cs, as)"
      by fastforce
    let ?as = "case prevOutput a of None \<Rightarrow> as | Some prev \<Rightarrow> if flt (FNum 0) ?h then applyHysteresis ?v as cs prev ?h else as"
    have "pass_wf ?v ?k (cs, as)" using kmeans_loop_wf \<open>pass_wf _ _ _\<close> k l by metis
    then have wf: "pass_wf ?v ?k (cs, ?as)" by (auto simp: applyHysteresis_wf split: option.split)
    from None False assms l
    have "res = Inr (buildOutput ?v ?as cs ?k)" "a' = a\<lparr>prevOutput := Some (buildOutput ?v ?as cs ?k)\<rparr>"
      by (auto simp: Compute_def v Let_def split: option.splits)
    with None False wf show thesis by (intro some) auto
  qed
qed

section \<open>Interface: ClusterAllocator\<close>

text \<open>
  The Go interface \<^verbatim>\<open>ClusterAllocator\<close> and its contract: a result is a partition of the players
  considered, and a failed call changes nothing. Clients build interest sets from the result;
  that these are symmetric follows from the contract alone.
\<close>

definition cluster_mates :: "ClusterOutput \<Rightarrow> string \<Rightarrow> string set" where
  "cluster_mates out pid =
     (case fmlookup (co_Assignments out) pid of None \<Rightarrow> {} | Some cid \<Rightarrow> set (members out cid) - {pid})"

lemma mates_iff:
  assumes "well_clustered ids out"
  shows "q \<in> cluster_mates out p \<longleftrightarrow> q \<noteq> p \<and> (\<exists>cid. p \<in> set (members out cid) \<and> q \<in> set (members out cid))"
proof -
  have "fmlookup (co_Assignments out) p = Some cid \<longleftrightarrow> p \<in> set (members out cid)" for cid
    using assms by (simp add: well_clustered_def)
  then show ?thesis by (cases "fmlookup (co_Assignments out) p") (auto simp: cluster_mates_def, metis)
qed

lemma member_assigned:
  assumes "well_clustered ids out" and "p \<in> set (members out cid)"
  shows "p \<in> ids"
proof -
  from assms have "fmlookup (co_Assignments out) p = Some cid" by (simp add: well_clustered_def)
  then have "p \<in> fset (fmdom (co_Assignments out))" by (rule fmdomI)
  with assms(1) show ?thesis by (simp add: well_clustered_def)
qed

locale cluster_allocator =
  fixes compute :: "ClusterInput \<Rightarrow> ClusterConfig \<Rightarrow> 'a \<Rightarrow> ('e + ClusterOutput) \<times> 'a"
    and covers :: "ClusterInput \<Rightarrow> ClusterConfig \<Rightarrow> string set"
  assumes partition: "distinct (map cp_PlayerID (ci_Players input)) \<Longrightarrow>
      compute input cfg a = (Inr out, a') \<Longrightarrow> well_clustered (covers input cfg) out"
    and failed: "compute input cfg a = (Inl e, a') \<Longrightarrow> a' = a"
begin

lemma mates_symmetric:
  assumes "distinct (map cp_PlayerID (ci_Players input))" and "compute input cfg a = (Inr out, a')"
  shows "q \<in> cluster_mates out p \<longleftrightarrow> p \<in> cluster_mates out q"
  by (auto simp: mates_iff [OF partition [OF assms]])

lemma mates_covered:
  assumes "distinct (map cp_PlayerID (ci_Players input))" and "compute input cfg a = (Inr out, a')"
  shows "cluster_mates out p \<subseteq> covers input cfg - {p}"
  using partition [OF assms] member_assigned [OF partition [OF assms]]
  by (auto simp: mates_iff [OF partition [OF assms]])

end

lemma considered_distinct:
  "distinct (map cp_PlayerID (ci_Players input)) \<Longrightarrow> distinct (map cp_PlayerID (considered input cfg))"
  by (simp add: considered_def take_map [symmetric] distinct_map_filter)

interpretation km: cluster_allocator Compute "\<lambda>input cfg. cp_PlayerID ` set (considered input cfg)"
proof
  fix input cfg a out a'
  assume d: "distinct (map cp_PlayerID (ci_Players input))" and c: "Compute input cfg a = (Inr out, a')"
  from c show "well_clustered (cp_PlayerID ` set (considered input cfg)) out"
  proof (cases rule: Compute_cases)
    case none
    then show ?thesis by (simp add: well_clustered_def emptyOutput_def members_def)
  next
    case (some out' k cs as)
    then show ?thesis using buildOutput_wf [OF considered_distinct [OF d]] by (auto simp: pass_wf_def)
  qed simp
next
  fix input cfg a e a'
  assume "Compute input cfg a = (Inl e, a')"
  then show "a' = a" by (cases rule: Compute_cases) simp_all
qed

section \<open>Properties\<close>


definition demo_at :: "string \<Rightarrow> rat \<Rightarrow> ClusterPlayer" where
  "demo_at pid x = \<lparr>cp_PlayerID = pid, cp_Position = Pos (FNum x) (FNum 0)\<rparr>"


text \<open>
  K is the ceiling. For every n and target size whose sum stays in the int range, the
  integer expression (n + t - 1) / t with its two clamps is ceil(n / t) of exact arithmetic.
\<close>

theorem computeK_is_ceiling:
  assumes "1 \<le> n" and "1 \<le> t" and "n + t \<le> 2 ^ 63"
  shows "computeK n t = \<lceil>of_int n / of_int t :: rat\<rceil>"
  using assms by (rule computeK_ceiling)

theorem computeK_is_ceiling_witness: "computeK 17 8 = 3"
  using computeK_is_ceiling [of 17 8] by (simp add: ceiling_unique)

text \<open>
  The nearest centroid is chosen, and the lowest index among equals. No centroid is
  strictly closer to the player than the one chosen, and every centroid with a lower index
  is strictly farther (or at no comparable distance); the index is inside the slice.
\<close>

theorem nearestCentroidIndex_argmin:
  assumes "cs \<noteq> []"
  shows "nearestCentroidIndex pos cs < length cs
    \<and> (\<forall>j<length cs. \<not> flt (squaredDist pos (cs ! j)) (squaredDist pos (cs ! nearestCentroidIndex pos cs)))
    \<and> (\<forall>j<nearestCentroidIndex pos cs. IsNaN (squaredDist pos (cs ! j))
          \<or> flt (squaredDist pos (cs ! nearestCentroidIndex pos cs)) (squaredDist pos (cs ! j)))"
  using nearestCentroidIndex_min [OF assms] by blast

theorem nearestCentroidIndex_argmin_witness:
  "nearestCentroidIndex (Pos (FNum 1) (FNum 1)) [Pos (FNum 9) (FNum 9), Pos (FNum 2) (FNum 1)] < 2"
  using nearestCentroidIndex_argmin [of "[Pos (FNum 9) (FNum 9), Pos (FNum 2) (FNum 1)]" "Pos (FNum 1) (FNum 1)"] by simp

text \<open>
  C34: Leaving the loop early loses nothing, once the first pass changed an assignment. Then the
  loop with its break computes the same centroids and assignments as MaxIterations full
  passes, and every state it goes through keeps all indices inside their slices, so no
  pass can panic.
\<close>

theorem kmeans_early_exit_sound:
  assumes "pass_wf players k (centroids, assignments)" and "0 < k"
    and "fst (assignNearest players centroids assignments)"
  shows "kmeans_loop players k m (centroids, assignments) = (full_pass players k ^^ m) (centroids, assignments)
    \<and> pass_wf players k (kmeans_loop players k m (centroids, assignments))"
proof -
  let ?st = "(centroids, assignments)"
  have "length (snd ?st) = length players" using assms(1) by (simp add: pass_wf_def)
  then have "kmeans_loop players k m ?st = (full_pass players k ^^ m) ?st"
    using assms(3) by (cases m) (simp_all add: kmeans_loop_Suc kmeans_loop_full funpow_swap1 del: kmeans_loop.simps)
  with kmeans_loop_wf [OF assms(1,2), of m] show ?thesis by simp
qed

theorem kmeans_early_exit_sound_witness:
  "kmeans_loop [demo_at ''a'' 0, demo_at ''b'' 9] 2 20 ([Pos (FNum 0) (FNum 0), Pos (FNum 9) (FNum 0)], [0, 0]) =
   (full_pass [demo_at ''a'' 0, demo_at ''b'' 9] 2 ^^ 20) ([Pos (FNum 0) (FNum 0), Pos (FNum 9) (FNum 0)], [0, 0])"
proof -
  have "fst (assignNearest [demo_at ''a'' 0, demo_at ''b'' 9] [Pos (FNum 0) (FNum 0), Pos (FNum 9) (FNum 0)] [0, 0])"
    by code_simp
  moreover have "pass_wf [demo_at ''a'' 0, demo_at ''b'' 9] 2 ([Pos (FNum 0) (FNum 0), Pos (FNum 9) (FNum 0)], [0, 0])"
    by (simp add: pass_wf_def)
  ultimately show ?thesis
    using kmeans_early_exit_sound [of "[demo_at ''a'' 0, demo_at ''b'' 9]" 2 "[Pos (FNum 0) (FNum 0), Pos (FNum 9) (FNum 0)]" "[0, 0]" 20]
    by simp
qed

text \<open>
  The first pass can end the loop too early. The assignments start as zeros, so a first pass
  that puts everybody into cluster 0 counts as unchanged although the centroids then move.
  Two players at the spawn point with the lowest identifiers and a third 1000 m away: with a
  target size of two the loop stops after one pass with all three in cluster 0 and cluster 1
  empty, while a second pass would have separated them.
\<close>

theorem first_pass_stops_early:
  "let ps = [demo_at ''a'' 0, demo_at ''b'' 0, demo_at ''c'' 1000];
       start = (initCentroids ps 2, [0, 0, 0])
   in computeK 3 2 = 2 \<and> snd (kmeans_loop ps 2 20 start) = [0, 0, 0]
      \<and> snd (full_pass ps 2 (full_pass ps 2 start)) = [1, 1, 0]"
  by code_simp

end
