(* ===== verification/Room.thy ===== *)
theory Room
  imports Delta Cluster
begin

text \<open>
  Package \<^verbatim>\<open>internal/game/room\<close>, first part: the room's data and configuration (\<^verbatim>\<open>types.go\<close>), its
  construction and queries (\<^verbatim>\<open>room.go\<close>), and the command handlers of \<^verbatim>\<open>handleCommand\<close>
  (\<^verbatim>\<open>tick.go\<close>), one definition per case of its switch. The loop that runs them is in the theory
  RoomLoop.

  The room goroutine is the only writer of the maps, each critical section under
  \<^verbatim>\<open>sessionMu\<close> is atomic for readers, and one command is handled at a time, so a handler is a
  function from room to room. \<^verbatim>\<open>atomic.Int32\<close> and \<^verbatim>\<open>atomic.Uint32\<close> are 32-bit words. The buffered
  channel \<^verbatim>\<open>commands\<close> is a list with the capacity \<^verbatim>\<open>CommandQueueSize\<close>. \<^verbatim>\<open>Payload any\<close> is a sum of
  the types the handlers assert, with \<open>OtherPayload\<close> for everything else, nil included.
  \<^verbatim>\<open>MarkStatus\<close> on a player that is deleted from the map in the next statement has no
  observer and leaves no trace in the state.
\<close>

section \<open>Data\<close>

record sessionAttachment =
  att_playerID :: string
  att_userID :: string

datatype RoomStatus =
  RoomStatusCreated | RoomStatusRunning | RoomStatusDraining | RoomStatusClosed | RoomStatusOther int

fun RoomStatus_String :: "RoomStatus \<Rightarrow> string" where
  "RoomStatus_String RoomStatusCreated = ''created''"
| "RoomStatus_String RoomStatusRunning = ''running''"
| "RoomStatus_String RoomStatusDraining = ''draining''"
| "RoomStatus_String RoomStatusClosed = ''closed''"
| "RoomStatus_String (RoomStatusOther _) = ''unknown''"

record RoomConfig =
  MaxPlayers :: int
  TickRateHz :: int
  BroadcastRateHz :: int
  CommandQueueSize :: int
  SpatialCellSizeM :: gofloat
  InterestVisualRadiusM :: gofloat
  ObjectLockLease :: LockLease
  rc_ClusterConfig :: ClusterConfig

definition DefaultRoomConfig :: RoomConfig where
  "DefaultRoomConfig =
     \<lparr>MaxPlayers = 200, TickRateHz = 20, BroadcastRateHz = 10, CommandQueueSize = 256,
      SpatialCellSizeM = FNum 10, InterestVisualRadiusM = FNum 30,
      ObjectLockLease = DefaultLockLease, rc_ClusterConfig = DefaultClusterConfig\<rparr>"

datatype RoomCommandKind =
  CmdJoin | CmdLeave | CmdDisconnect | CmdPlayerInput | CmdUpdatePlayerTransform
| CmdObjectLockAcquire | CmdObjectLockRefresh | CmdObjectLockRelease | CmdObjectUpdate
| CmdUnknown nat

record ObjectCommandPayload =
  ocp_ObjectID :: string
  ocp_Transform :: "ObjectTransform option"
  ocp_CustomState :: "bytes option"

datatype Payload =
  InputPayload PlayerInput | TransformPayload PlayerTransform
| ObjectPayload ObjectCommandPayload | OtherPayload

record RoomCommand =
  cmd_Kind :: RoomCommandKind
  cmd_SessionID :: string
  cmd_PlayerID :: string
  cmd_UserID :: string
  cmd_Payload :: Payload
  cmd_Timestamp :: time

record RoomSpec =
  rs_LogicalRoomID :: string
  rs_InstanceID :: string
  rs_Config :: RoomConfig

record Room =
  instanceID :: string
  logicalRoomID :: string
  config :: RoomConfig
  commands :: "RoomCommand list"
  status :: RoomStatus
  playerCount :: u32
  currentTick :: u32
  activeSessions :: "(string, sessionAttachment) fmap"
  userSessionIndex :: "(string, string) fmap"
  players :: "(string, PlayerState) fmap"
  spatial :: GridSpatialHash
  interestMgr :: InterestConfig
  snapshotCache :: SnapshotCache
  dirtyPlayers :: "string fset"
  objectMgr :: ObjectManager
  lockMgr :: LockManager
  clusterAlloc :: KMeansClusterAllocator
  clusterOutput :: ClusterOutput
  lastClusterTick :: u32
  maxMovementSinceLastCluster :: gofloat
  clusterMembershipDirty :: bool
  broadcaster :: bool  \<comment> \<open>whether a broadcaster is set\<close>

section \<open>Construction\<close>

text \<open>The defaulting of \<^verbatim>\<open>newRoom\<close>, which leaves the cluster configuration and \<^verbatim>\<open>MaxPlayers\<close> alone.\<close>

definition room_config :: "RoomConfig \<Rightarrow> RoomConfig" where
  "room_config cfg =
     (let defaults = DefaultRoomConfig;
          cfg = (if TickRateHz cfg \<le> 0 then cfg\<lparr>TickRateHz := TickRateHz defaults\<rparr> else cfg);
          cfg = (if BroadcastRateHz cfg \<le> 0 then cfg\<lparr>BroadcastRateHz := BroadcastRateHz defaults\<rparr> else cfg);
          cfg = (if CommandQueueSize cfg \<le> 0 then cfg\<lparr>CommandQueueSize := CommandQueueSize defaults\<rparr> else cfg);
          cfg = (if fle (SpatialCellSizeM cfg) (FNum 0) then cfg\<lparr>SpatialCellSizeM := SpatialCellSizeM defaults\<rparr> else cfg)
      in if fle (InterestVisualRadiusM cfg) (FNum 0)
         then cfg\<lparr>InterestVisualRadiusM := InterestVisualRadiusM defaults\<rparr> else cfg)"

definition newRoom :: "RoomSpec \<Rightarrow> Room" where
  "newRoom spec =
     (let cfg = room_config (rs_Config spec);
          interestCfg = DefaultInterestConfig\<lparr>VisualRadiusM := InterestVisualRadiusM cfg\<rparr>;
          lease = (if TTL (ObjectLockLease cfg) \<le> 0 then DefaultLockLease else ObjectLockLease cfg)
      in \<lparr>instanceID = rs_InstanceID spec, logicalRoomID = rs_LogicalRoomID spec, config = cfg,
          commands = [], status = RoomStatusCreated, playerCount = 0, currentTick = 0,
          activeSessions = fmempty, userSessionIndex = fmempty, players = fmempty,
          spatial = NewGridSpatialHash \<lparr>CellSizeM = SpatialCellSizeM cfg, MaxWorldCoord = FNum 0\<rparr>,
          interestMgr = interestCfg, snapshotCache = NewSnapshotCache, dirtyPlayers = {||},
          objectMgr = NewObjectManager, lockMgr = NewLockManager lease,
          clusterAlloc = NewKMeansClusterAllocator, clusterOutput = emptyOutput,
          lastClusterTick = 0, maxMovementSinceLastCluster = FNum 0,
          clusterMembershipDirty = False, broadcaster = False\<rparr>)"

definition SetBroadcaster :: "Room \<Rightarrow> Room" where
  "SetBroadcaster r = r\<lparr>broadcaster := True\<rparr>"

section \<open>Queries\<close>

definition PlayerCount :: "Room \<Rightarrow> int" where
  "PlayerCount r = sint (playerCount r)"

definition HasSession :: "string \<Rightarrow> Room \<Rightarrow> bool" where
  "HasSession sid r \<longleftrightarrow> sid |\<in>| fmdom (activeSessions r)"

definition HasUser :: "string \<Rightarrow> Room \<Rightarrow> bool" where
  "HasUser uid r \<longleftrightarrow> uid |\<in>| fmdom (userSessionIndex r)"

definition ActiveSessions :: "map_order \<Rightarrow> Room \<Rightarrow> string list" where
  "ActiveSessions ord r = ord (fmdom (activeSessions r))"

definition GetPlayerState :: "string \<Rightarrow> Room \<Rightarrow> (PlayerTransform \<times> u32) option" where
  "GetPlayerState pid r = map_option Snapshot (fmlookup (players r) pid)"

definition NearbyPlayers :: "map_order \<Rightarrow> string \<Rightarrow> gofloat \<Rightarrow> Room \<Rightarrow> string list" where
  "NearbyPlayers ord pid radius r =
     (case Spatial_Get pid (spatial r) of
        None \<Rightarrow> []
      | Some pos \<Rightarrow> filter (\<lambda>eid. eid \<noteq> pid) (QueryRadius ord pos radius (spatial r)))"

definition NearbyPlayersAt :: "map_order \<Rightarrow> Vector3 \<Rightarrow> gofloat \<Rightarrow> Room \<Rightarrow> string list" where
  "NearbyPlayersAt ord pos radius r = QueryRadius ord (Pos (v_X pos) (v_Z pos)) radius (spatial r)"

definition SnapshotCacheLen :: "Room \<Rightarrow> nat" where
  "SnapshotCacheLen r = SnapshotCache_Len (snapshotCache r)"

definition DirtyPlayerCount :: "Room \<Rightarrow> nat" where
  "DirtyPlayerCount r = fcard (dirtyPlayers r)"

definition CreateObject :: "string \<Rightarrow> string \<Rightarrow> ObjectTransform \<Rightarrow> Room \<Rightarrow> object_err option \<times> Room" where
  "CreateObject oid kind transform r =
     (case Object_Create oid kind transform (objectMgr r) of
        (Inl e, om) \<Rightarrow> (Some e, r\<lparr>objectMgr := om\<rparr>)
      | (Inr _, om) \<Rightarrow> (None, r\<lparr>objectMgr := om\<rparr>))"

definition ObjectCount :: "Room \<Rightarrow> nat" where
  "ObjectCount r = Object_Count (objectMgr r)"

definition Room_UserLockCount :: "string \<Rightarrow> Room \<Rightarrow> int" where
  "Room_UserLockCount uid r = UserLockCount uid (lockMgr r)"

definition PlayerCluster :: "string \<Rightarrow> Room \<Rightarrow> u32 option" where
  "PlayerCluster pid r = fmlookup (co_Assignments (clusterOutput r)) pid"

text \<open>The two interest sets: the other members of the cluster, or the players in the radius.\<close>

definition cluster_interest :: "Room \<Rightarrow> string \<Rightarrow> string list" where
  "cluster_interest r pid =
     (case fmlookup (co_Assignments (clusterOutput r)) pid of
        None \<Rightarrow> []
      | Some viewerCluster \<Rightarrow>
          filter (\<lambda>memberID. memberID \<noteq> pid) (map_get [] (co_Clusters (clusterOutput r)) viewerCluster))"

definition radius_interest :: "map_order \<Rightarrow> Room \<Rightarrow> string \<Rightarrow> PlayerState \<Rightarrow> string list" where
  "radius_interest ord r pid ps =
     (case Snapshot ps of (transform, _) \<Rightarrow>
       QueryVisiblePlayers ord (interestMgr r) (spatial r)
         (Pos (v_X (pt_Position transform)) (v_Z (pt_Position transform))) pid)"

definition VisiblePlayersFor :: "map_order \<Rightarrow> string \<Rightarrow> Room \<Rightarrow> string list" where
  "VisiblePlayersFor ord pid r =
     (if cl_Enabled (rc_ClusterConfig (config r)) then cluster_interest r pid
      else case fmlookup (players r) pid of
             None \<Rightarrow> []
           | Some ps \<Rightarrow> radius_interest ord r pid ps)"

section \<open>Enqueue\<close>

datatype room_err = RoomNotRunning string RoomStatus | QueueFull string | CannotStart string RoomStatus

definition Enqueue :: "RoomCommand \<Rightarrow> Room \<Rightarrow> room_err option \<times> Room" where
  "Enqueue cmd r =
     (if status r \<noteq> RoomStatusRunning then (Some (RoomNotRunning (instanceID r) (status r)), r)
      else if int (length (commands r)) < CommandQueueSize (config r)
           then (None, r\<lparr>commands := commands r @ [cmd]\<rparr>)
           else (Some (QueueFull (instanceID r)), r))"

section \<open>Command handlers\<close>

definition handle_Join :: "RoomCommand \<Rightarrow> Room \<Rightarrow> Room" where
  "handle_Join cmd r =
     (if cmd_UserID cmd \<noteq> [] \<and> cmd_UserID cmd |\<in>| fmdom (userSessionIndex r) then r
      else
        let r = r\<lparr>activeSessions := fmupd (cmd_SessionID cmd)
                    \<lparr>att_playerID = cmd_PlayerID cmd, att_userID = cmd_UserID cmd\<rparr> (activeSessions r)\<rparr>;
            r = (if cmd_UserID cmd \<noteq> []
                 then r\<lparr>userSessionIndex := fmupd (cmd_UserID cmd) (cmd_SessionID cmd) (userSessionIndex r)\<rparr>
                 else r);
            r = r\<lparr>playerCount := playerCount r + 1, clusterMembershipDirty := True\<rparr>;
            pid = cmd_PlayerID cmd;
            p = SetStatus PlayerStatusActive (NewPlayerState pid (cmd_UserID cmd) (cmd_Timestamp cmd));
            r = r\<lparr>players := fmupd pid p (players r)\<rparr>;
            r = r\<lparr>spatial := snd (Spatial_Update pid (Pos (FNum 0) (FNum 0)) (spatial r))\<rparr>
        in r\<lparr>snapshotCache := snd (GetOrCreate (cmd_SessionID cmd) (snapshotCache r))\<rparr>)"

text \<open>
  The first half of leave and of disconnect: detach the session and drop player \<open>pid\<close>, which
  is the command's player for a leave and the attached one for a disconnect.
\<close>

definition detach_session :: "string \<Rightarrow> sessionAttachment \<Rightarrow> string \<Rightarrow> Room \<Rightarrow> Room" where
  "detach_session sid att pid r =
     (let r = r\<lparr>activeSessions := fmdrop sid (activeSessions r)\<rparr>;
          r = (if att_userID att \<noteq> []
               then r\<lparr>userSessionIndex := fmdrop (att_userID att) (userSessionIndex r)\<rparr> else r)
      in r\<lparr>playerCount := playerCount r - 1, clusterMembershipDirty := True,
           players := fmdrop pid (players r),
           spatial := Spatial_Remove pid (spatial r),
           snapshotCache := SnapshotCache_Remove sid (snapshotCache r),
           dirtyPlayers := dirtyPlayers r |-| {|pid|}\<rparr>)"

definition release_session_locks :: "go_env \<Rightarrow> string \<Rightarrow> Room \<Rightarrow> Room" where
  "release_session_locks env sid r =
     (case ReleaseBySession (env_ord env) sid (env_now env) (objectMgr r) (lockMgr r) of
        (_, om, lm) \<Rightarrow> r\<lparr>objectMgr := om, lockMgr := lm\<rparr>)"

definition handle_Leave :: "go_env \<Rightarrow> RoomCommand \<Rightarrow> Room \<Rightarrow> Room" where
  "handle_Leave env cmd r =
     release_session_locks env (cmd_SessionID cmd)
       (case fmlookup (activeSessions r) (cmd_SessionID cmd) of
          None \<Rightarrow> r
        | Some att \<Rightarrow> detach_session (cmd_SessionID cmd) att (cmd_PlayerID cmd) r)"

definition handle_Disconnect :: "go_env \<Rightarrow> RoomCommand \<Rightarrow> Room \<Rightarrow> Room" where
  "handle_Disconnect env cmd r =
     release_session_locks env (cmd_SessionID cmd)
       (case fmlookup (activeSessions r) (cmd_SessionID cmd) of
          None \<Rightarrow> r
        | Some att \<Rightarrow> detach_session (cmd_SessionID cmd) att (att_playerID att) r)"

definition movement_dist :: "Vector3 \<Rightarrow> Vector3 \<Rightarrow> gofloat" where
  "movement_dist newPos oldPos =
     (let dx = fsub round32 (v_X newPos) (v_X oldPos); dz = fsub round32 (v_Z newPos) (v_Z oldPos)
      in to_f32 (Sqrt (fadd round32 (fmul round32 dx dx) (fmul round32 dz dz))))"

text \<open>The locked section that the two movement commands share word for word.\<close>

definition move_player :: "go_env \<Rightarrow> string \<Rightarrow> PlayerTransform \<Rightarrow> u32 \<Rightarrow> Room \<Rightarrow> Room" where
  "move_player env pid transform tick r =
     (case fmlookup (players r) pid of
        None \<Rightarrow> r
      | Some p \<Rightarrow>
          let (prevTransform, _) = Snapshot p;
              newPos = pt_Position transform;
              dist = movement_dist newPos (pt_Position prevTransform);
              r = r\<lparr>maxMovementSinceLastCluster :=
                      if flt (maxMovementSinceLastCluster r) dist then dist else maxMovementSinceLastCluster r\<rparr>;
              r = r\<lparr>players := fmupd pid (UpdateTransform (env_now env) transform tick p) (players r)\<rparr>;
              r = r\<lparr>spatial := snd (Spatial_Update pid (Pos (v_X newPos) (v_Z newPos)) (spatial r))\<rparr>
          in r\<lparr>dirtyPlayers := finsert pid (dirtyPlayers r)\<rparr>)"

definition handle_PlayerInput :: "go_env \<Rightarrow> RoomCommand \<Rightarrow> u32 \<Rightarrow> Room \<Rightarrow> Room" where
  "handle_PlayerInput env cmd tick r =
     (case cmd_Payload cmd of
        InputPayload input \<Rightarrow>
          (case ValidatePlayerInput input of
             Some _ \<Rightarrow> r
           | None \<Rightarrow> move_player env (cmd_PlayerID cmd) (pi_Transform input) tick r)
      | _ \<Rightarrow> r)"

definition handle_UpdatePlayerTransform :: "go_env \<Rightarrow> RoomCommand \<Rightarrow> u32 \<Rightarrow> Room \<Rightarrow> Room" where
  "handle_UpdatePlayerTransform env cmd tick r =
     (case cmd_Payload cmd of
        TransformPayload transform \<Rightarrow> move_player env (cmd_PlayerID cmd) transform tick r
      | _ \<Rightarrow> r)"

definition handle_ObjectLockAcquire :: "RoomCommand \<Rightarrow> Room \<Rightarrow> Room" where
  "handle_ObjectLockAcquire cmd r =
     (case cmd_Payload cmd of
        ObjectPayload payload \<Rightarrow>
          (case AcquireLock (ocp_ObjectID payload) (cmd_UserID cmd) (cmd_SessionID cmd) (cmd_Timestamp cmd)
                  (objectMgr r) (lockMgr r) of
             (_, om, lm) \<Rightarrow> r\<lparr>objectMgr := om, lockMgr := lm\<rparr>)
      | _ \<Rightarrow> r)"

definition handle_ObjectLockRefresh :: "RoomCommand \<Rightarrow> Room \<Rightarrow> Room" where
  "handle_ObjectLockRefresh cmd r =
     (case cmd_Payload cmd of
        ObjectPayload payload \<Rightarrow>
          (case RefreshLock (ocp_ObjectID payload) (cmd_UserID cmd) (cmd_Timestamp cmd) (objectMgr r) (lockMgr r) of
             (_, om, lm) \<Rightarrow> r\<lparr>objectMgr := om, lockMgr := lm\<rparr>)
      | _ \<Rightarrow> r)"

definition handle_ObjectLockRelease :: "RoomCommand \<Rightarrow> Room \<Rightarrow> Room" where
  "handle_ObjectLockRelease cmd r =
     (case cmd_Payload cmd of
        ObjectPayload payload \<Rightarrow>
          (case ReleaseLock (ocp_ObjectID payload) (cmd_UserID cmd) (cmd_Timestamp cmd) (objectMgr r) (lockMgr r) of
             (_, om, lm) \<Rightarrow> r\<lparr>objectMgr := om, lockMgr := lm\<rparr>)
      | _ \<Rightarrow> r)"

definition handle_ObjectUpdate :: "RoomCommand \<Rightarrow> Room \<Rightarrow> Room" where
  "handle_ObjectUpdate cmd r =
     (case cmd_Payload cmd of
        ObjectPayload payload \<Rightarrow>
          let r = (case ocp_Transform payload of
                     None \<Rightarrow> r
                   | Some t \<Rightarrow> r\<lparr>objectMgr := snd (Object_UpdateTransform (ocp_ObjectID payload) t (objectMgr r))\<rparr>)
          in (case ocp_CustomState payload of
                None \<Rightarrow> r
              | Some state \<Rightarrow> r\<lparr>objectMgr := snd (UpdateCustomState (ocp_ObjectID payload) (Some state) (objectMgr r))\<rparr>)
      | _ \<Rightarrow> r)"

definition handleCommand :: "go_env \<Rightarrow> RoomCommand \<Rightarrow> u32 \<Rightarrow> Room \<Rightarrow> Room" where
  "handleCommand env cmd tick r =
     (case cmd_Kind cmd of
        CmdJoin \<Rightarrow> handle_Join cmd r
      | CmdLeave \<Rightarrow> handle_Leave env cmd r
      | CmdDisconnect \<Rightarrow> handle_Disconnect env cmd r
      | CmdPlayerInput \<Rightarrow> handle_PlayerInput env cmd tick r
      | CmdUpdatePlayerTransform \<Rightarrow> handle_UpdatePlayerTransform env cmd tick r
      | CmdObjectLockAcquire \<Rightarrow> handle_ObjectLockAcquire cmd r
      | CmdObjectLockRefresh \<Rightarrow> handle_ObjectLockRefresh cmd r
      | CmdObjectLockRelease \<Rightarrow> handle_ObjectLockRelease cmd r
      | CmdObjectUpdate \<Rightarrow> handle_ObjectUpdate cmd r
      | CmdUnknown _ \<Rightarrow> r)"

end
