(* ===== verification/RoomCommands.thy ===== *)
theory RoomCommands
  imports Room
begin

text \<open>
  What the command handlers of a room preserve. \<open>room_inv\<close> ties the room's maps together and
  holds after every command whatsoever; \<open>member_inv\<close> relates sessions, users and players and
  holds as long as a join brings a new session and player and a leave names its own player
  (\<open>well_behaved\<close>). One preservation lemma per handler, one summary per invariant.
\<close>

section \<open>Invariants\<close>

definition locks_inv :: "Room \<Rightarrow> bool" where
  "locks_inv r \<longleftrightarrow> 0 < TTL (lm_lease (lockMgr r))
     \<and> lock_reachable (lm_lease (lockMgr r)) (objectMgr r, lockMgr r)"

definition index_inv :: "Room \<Rightarrow> bool" where
  "index_inv r \<longleftrightarrow> grid_inv (spatial r) \<and> maxWorldCoord (spatial r) = FNum 100000
     \<and> fmdom (entities (spatial r)) = fmdom (players r)"

definition cluster_inv :: "Room \<Rightarrow> bool" where
  "cluster_inv r \<longleftrightarrow>
     (\<exists>ids. well_clustered ids (clusterOutput r)
        \<and> (clusterMembershipDirty r \<or> ids \<subseteq> fset (fmdom (players r))))
     \<and> (validateConfig (rc_ClusterConfig (config r)) \<noteq> None \<longrightarrow> clusterOutput r = emptyOutput)"

definition room_inv :: "Room \<Rightarrow> bool" where
  "room_inv r \<longleftrightarrow> index_inv r \<and> locks_inv r \<and> cluster_inv r
     \<and> fmdom (sc_snapshots (snapshotCache r)) = fmdom (activeSessions r)
     \<and> dirtyPlayers r |\<subseteq>| fmdom (players r)
     \<and> (\<forall>pid p. fmlookup (players r) pid = Some p \<longrightarrow> ps_ID p = pid)"

definition member_inv :: "Room \<Rightarrow> bool" where
  "member_inv r \<longleftrightarrow>
     playerCount r = word_of_nat (map_len (activeSessions r))
     \<and> (\<forall>u s. fmlookup (userSessionIndex r) u = Some s \<longleftrightarrow>
          u \<noteq> [] \<and> (\<exists>att. fmlookup (activeSessions r) s = Some att \<and> att_userID att = u))
     \<and> (\<forall>pid. pid |\<in>| fmdom (players r) \<longleftrightarrow>
          (\<exists>s att. fmlookup (activeSessions r) s = Some att \<and> att_playerID att = pid))
     \<and> (\<forall>s s' att att'. fmlookup (activeSessions r) s = Some att \<longrightarrow> fmlookup (activeSessions r) s' = Some att'
          \<longrightarrow> att_playerID att = att_playerID att' \<longrightarrow> s = s')"

text \<open>What the callers of \<^verbatim>\<open>Enqueue\<close> are meant to supply.\<close>

definition well_behaved :: "RoomCommand \<Rightarrow> Room \<Rightarrow> bool" where
  "well_behaved cmd r \<longleftrightarrow>
     (case cmd_Kind cmd of
        CmdJoin \<Rightarrow> cmd_SessionID cmd |\<notin>| fmdom (activeSessions r) \<and> cmd_PlayerID cmd |\<notin>| fmdom (players r)
      | CmdLeave \<Rightarrow> (case fmlookup (activeSessions r) (cmd_SessionID cmd) of
                       None \<Rightarrow> True | Some att \<Rightarrow> att_playerID att = cmd_PlayerID cmd)
      | _ \<Rightarrow> True)"

section \<open>Lemmas: the parts a handler leaves alone\<close>

text \<open>Object commands touch the object and lock managers only.\<close>

definition with_objects :: "ObjectManager \<Rightarrow> LockManager \<Rightarrow> Room \<Rightarrow> Room" where
  "with_objects om lm r = r\<lparr>objectMgr := om, lockMgr := lm\<rparr>"

lemma with_objects_sel [simp]:
  "players (with_objects om lm r) = players r" "activeSessions (with_objects om lm r) = activeSessions r"
  "userSessionIndex (with_objects om lm r) = userSessionIndex r" "spatial (with_objects om lm r) = spatial r"
  "snapshotCache (with_objects om lm r) = snapshotCache r" "dirtyPlayers (with_objects om lm r) = dirtyPlayers r"
  "playerCount (with_objects om lm r) = playerCount r" "clusterOutput (with_objects om lm r) = clusterOutput r"
  "clusterMembershipDirty (with_objects om lm r) = clusterMembershipDirty r" "config (with_objects om lm r) = config r"
  "objectMgr (with_objects om lm r) = om" "lockMgr (with_objects om lm r) = lm"
  "commands (with_objects om lm r) = commands r" "status (with_objects om lm r) = status r"
  by (simp_all add: with_objects_def)

inductive lock_steps :: "ObjectManager \<times> LockManager \<Rightarrow> ObjectManager \<times> LockManager \<Rightarrow> bool" where
  none: "lock_steps w w"
| more: "lock_steps w w' \<Longrightarrow> lock_step w' w'' \<Longrightarrow> lock_steps w w''"

lemma one_lock_step: "lock_step w w' \<Longrightarrow> lock_steps w w'"
  by (rule lock_steps.more [OF lock_steps.none])

lemma lock_steps_trans: "lock_steps v w \<Longrightarrow> lock_steps u v \<Longrightarrow> lock_steps u w"
  by (induction rule: lock_steps.induct) (auto intro: lock_steps.intros)

lemma lock_steps_lease: "lock_steps w w' \<Longrightarrow> lm_lease (snd w') = lm_lease (snd w)"
  by (induction rule: lock_steps.induct) (auto simp: lock_step_lease)

lemma lock_steps_reachable: "lock_steps w w' \<Longrightarrow> lock_reachable lease w \<Longrightarrow> lock_reachable lease w'"
  by (induction rule: lock_steps.induct) (auto intro: lock_reachable.step)

lemma with_objects_inv:
  assumes "lock_steps (objectMgr r, lockMgr r) (om, lm)"
  shows "room_inv r \<Longrightarrow> room_inv (with_objects om lm r)" and "member_inv r \<Longrightarrow> member_inv (with_objects om lm r)"
  using lock_steps_lease [OF assms] lock_steps_reachable [OF assms]
  by (auto simp: room_inv_def index_inv_def locks_inv_def cluster_inv_def member_inv_def)

lemma object_command_cases:
  assumes "cmd_Kind cmd \<in> {CmdObjectLockAcquire, CmdObjectLockRefresh, CmdObjectLockRelease, CmdObjectUpdate}"
  obtains om lm where "handleCommand env cmd tick r = with_objects om lm r"
    "lock_steps (objectMgr r, lockMgr r) (om, lm)"
proof (cases "cmd_Payload cmd")
  case (ObjectPayload p)
  from assms consider "cmd_Kind cmd = CmdObjectLockAcquire" | "cmd_Kind cmd = CmdObjectLockRefresh"
    | "cmd_Kind cmd = CmdObjectLockRelease" | "cmd_Kind cmd = CmdObjectUpdate" by auto
  then show thesis
  proof cases
    case 1
    obtain res om lm where a: "AcquireLock (ocp_ObjectID p) (cmd_UserID cmd) (cmd_SessionID cmd) (cmd_Timestamp cmd)
      (objectMgr r) (lockMgr r) = (res, om, lm)" by (metis surj_pair)
    from one_lock_step [OF lock_step.acquire [OF a]] 1 a ObjectPayload show thesis
      by (intro that) (simp_all add: handleCommand_def handle_ObjectLockAcquire_def with_objects_def)
  next
    case 2
    obtain res om lm where a: "RefreshLock (ocp_ObjectID p) (cmd_UserID cmd) (cmd_Timestamp cmd)
      (objectMgr r) (lockMgr r) = (res, om, lm)" by (metis surj_pair)
    from one_lock_step [OF lock_step.refresh [OF a]] 2 a ObjectPayload show thesis
      by (intro that) (simp_all add: handleCommand_def handle_ObjectLockRefresh_def with_objects_def)
  next
    case 3
    obtain res om lm where a: "ReleaseLock (ocp_ObjectID p) (cmd_UserID cmd) (cmd_Timestamp cmd)
      (objectMgr r) (lockMgr r) = (res, om, lm)" by (metis surj_pair)
    from one_lock_step [OF lock_step.release [OF a]] 3 a ObjectPayload show thesis
      by (intro that) (simp_all add: handleCommand_def handle_ObjectLockRelease_def with_objects_def)
  next
    case 4
    let ?o = "ocp_ObjectID p"
    define om1 where "om1 = (case ocp_Transform p of None \<Rightarrow> objectMgr r
      | Some t \<Rightarrow> snd (Object_UpdateTransform ?o t (objectMgr r)))"
    define om2 where "om2 = (case ocp_CustomState p of None \<Rightarrow> om1
      | Some c \<Rightarrow> snd (UpdateCustomState ?o (Some c) om1))"
    have "lock_steps (objectMgr r, lockMgr r) (om1, lockMgr r)"
      by (auto simp: om1_def intro: lock_steps.none one_lock_step lock_step.move [OF prod.collapse [symmetric]] split: option.split)
    moreover have "lock_steps (om1, lockMgr r) (om2, lockMgr r)"
      by (auto simp: om2_def intro: lock_steps.none one_lock_step lock_step.custom [OF prod.collapse [symmetric]] split: option.split)
    ultimately have "lock_steps (objectMgr r, lockMgr r) (om2, lockMgr r)" by (metis lock_steps_trans)
    with 4 ObjectPayload show thesis
      by (intro that) (auto simp: handleCommand_def handle_ObjectUpdate_def with_objects_def om1_def om2_def Let_def
          split: option.split)
  qed
qed (use assms that [of "objectMgr r" "lockMgr r"] in \<open>auto simp: handleCommand_def handle_ObjectLockAcquire_def
    handle_ObjectLockRefresh_def handle_ObjectLockRelease_def handle_ObjectUpdate_def with_objects_def lock_steps.none\<close>)

section \<open>Lemmas: joining, leaving, moving\<close>

lemma origin_valid: "maxWorldCoord h = FNum 100000 \<Longrightarrow> validatePosition h (Pos (FNum 0) (FNum 0)) = None"
  by (simp add: validatePosition_def Pos_def IsNaN_def)

lemma Update_dom:
  assumes "grid_inv h"
  shows "fmdom (entities (snd (Spatial_Update eid pos h))) =
    (if validatePosition h pos = None then finsert eid (fmdom (entities h)) else fmdom (entities h))"
  using assms by (auto simp: Update_entities Update_rejected)

lemma GetOrCreate_dom: "fmdom (sc_snapshots (snd (GetOrCreate sid c))) = finsert sid (fmdom (sc_snapshots c))"
  by (auto simp: GetOrCreate_def Let_def finsert_absorb fmdomI split: option.split)

lemma Join_cases:
  obtains (rejected) "handle_Join cmd r = r" "HasUser (cmd_UserID cmd) r" "cmd_UserID cmd \<noteq> []"
  | (joined) r' where "handle_Join cmd r = r'" "cmd_UserID cmd = [] \<or> \<not> HasUser (cmd_UserID cmd) r"
      "activeSessions r' = fmupd (cmd_SessionID cmd) \<lparr>att_playerID = cmd_PlayerID cmd, att_userID = cmd_UserID cmd\<rparr> (activeSessions r)"
      "userSessionIndex r' = (if cmd_UserID cmd = [] then userSessionIndex r
                              else fmupd (cmd_UserID cmd) (cmd_SessionID cmd) (userSessionIndex r))"
      "playerCount r' = playerCount r + 1" "clusterMembershipDirty r'"
      "players r' = fmupd (cmd_PlayerID cmd) (SetStatus PlayerStatusActive
          (NewPlayerState (cmd_PlayerID cmd) (cmd_UserID cmd) (cmd_Timestamp cmd))) (players r)"
      "spatial r' = snd (Spatial_Update (cmd_PlayerID cmd) (Pos (FNum 0) (FNum 0)) (spatial r))"
      "snapshotCache r' = snd (GetOrCreate (cmd_SessionID cmd) (snapshotCache r))"
      "dirtyPlayers r' = dirtyPlayers r" "objectMgr r' = objectMgr r" "lockMgr r' = lockMgr r"
      "clusterOutput r' = clusterOutput r" "config r' = config r"
proof (cases "cmd_UserID cmd \<noteq> [] \<and> HasUser (cmd_UserID cmd) r")
  case True
  then show thesis by (intro rejected) (simp_all add: handle_Join_def HasUser_def)
next
  case False
  then show thesis
    by (intro joined [OF refl]) (auto simp: handle_Join_def HasUser_def Let_def)
qed

lemma Join_room_inv:
  assumes inv: "room_inv r"
  shows "room_inv (handle_Join cmd r)"
proof (cases rule: Join_cases [of cmd r])
  case rejected
  with inv show ?thesis by simp
next
  case (joined r')
  from inv have g: "grid_inv (spatial r)" "maxWorldCoord (spatial r) = FNum 100000"
    by (simp_all add: room_inv_def index_inv_def)
  have "index_inv r'"
    using inv joined(7,8) Update_inv [OF g(1)] Update_dom [OF g(1)] origin_valid [OF g(2)]
    by (simp add: room_inv_def index_inv_def)
  moreover have "locks_inv r'" using inv joined(11,12) by (simp add: room_inv_def locks_inv_def)
  moreover have "cluster_inv r'" using inv joined(6,13,14) by (auto simp: room_inv_def cluster_inv_def)
  moreover have "\<forall>pid p. fmlookup (players r') pid = Some p \<longrightarrow> ps_ID p = pid"
    using inv by (auto simp: joined(7) room_inv_def SetStatus_def NewPlayerState_def)
  ultimately show ?thesis
    using inv by (auto simp: joined room_inv_def GetOrCreate_dom)
qed

lemma Join_member_inv:
  assumes inv: "member_inv r" and fresh: "cmd_SessionID cmd |\<notin>| fmdom (activeSessions r)"
    "cmd_PlayerID cmd |\<notin>| fmdom (players r)"
  shows "member_inv (handle_Join cmd r)"
proof (cases rule: Join_cases [of cmd r])
  case rejected
  with inv show ?thesis by simp
next
  case (joined r')
  let ?s = "cmd_SessionID cmd" and ?p = "cmd_PlayerID cmd" and ?u = "cmd_UserID cmd"
  have s: "fmlookup (activeSessions r) ?s = None" using fresh(1) by (rule fmdom_notD)
  have p: "att_playerID att \<noteq> ?p" if "fmlookup (activeSessions r) t = Some att" for t att
    using fresh(2) inv that by (auto simp: member_inv_def)
  have u: "att_userID att \<noteq> ?u" if "?u \<noteq> []" "fmlookup (activeSessions r) t = Some att" for t att
  proof
    assume "att_userID att = ?u"
    with inv that have "fmlookup (userSessionIndex r) ?u = Some t" by (auto simp: member_inv_def)
    with that(1) joined(2) show False by (auto simp: HasUser_def fmdomI)
  qed
  have "playerCount r' = word_of_nat (map_len (activeSessions r'))"
    using inv fresh(1) by (simp add: joined member_inv_def map_len_upd)
  moreover have "fmlookup (userSessionIndex r') v = Some t \<longleftrightarrow>
      v \<noteq> [] \<and> (\<exists>att. fmlookup (activeSessions r') t = Some att \<and> att_userID att = v)" for v t
    using inv s u by (auto simp: joined member_inv_def)
  moreover have "pid |\<in>| fmdom (players r') \<longleftrightarrow>
      (\<exists>s att. fmlookup (activeSessions r') s = Some att \<and> att_playerID att = pid)" for pid
  proof -
    have "pid |\<in>| fmdom (players r) \<longleftrightarrow> (\<exists>s att. fmlookup (activeSessions r) s = Some att \<and> att_playerID att = pid)"
      using inv by (simp add: member_inv_def)
    then show ?thesis using s by (auto simp: joined) (metis option.distinct(1))
  qed
  moreover have "t = t'" if "fmlookup (activeSessions r') t = Some att" "fmlookup (activeSessions r') t' = Some att'"
      "att_playerID att = att_playerID att'" for t t' att att'
  proof -
    have "t = t'" if "fmlookup (activeSessions r) t = Some att" "fmlookup (activeSessions r) t' = Some att'"
      using inv that \<open>att_playerID att = att_playerID att'\<close> unfolding member_inv_def by blast
    with that p [of t att] p [of t' att'] show ?thesis by (auto simp: joined(3) split: if_splits)
  qed
  ultimately show ?thesis unfolding joined(1) member_inv_def by blast
qed

lemma detach_room_inv:
  assumes inv: "room_inv r"
  shows "room_inv (detach_session sid att pid r)"
proof -
  let ?r = "detach_session sid att pid r"
  have sel: "players ?r = fmdrop pid (players r)" "spatial ?r = Spatial_Remove pid (spatial r)"
    "activeSessions ?r = fmdrop sid (activeSessions r)" "snapshotCache ?r = SnapshotCache_Remove sid (snapshotCache r)"
    "dirtyPlayers ?r = dirtyPlayers r |-| {|pid|}" "objectMgr ?r = objectMgr r" "lockMgr ?r = lockMgr r"
    "clusterOutput ?r = clusterOutput r" "config ?r = config r" "clusterMembershipDirty ?r"
    by (simp_all add: detach_session_def Let_def)
  have "grid_inv (Spatial_Remove pid (spatial r))" using inv by (intro Remove_inv) (simp add: room_inv_def index_inv_def)
  then have "index_inv ?r" using inv by (simp add: index_inv_def room_inv_def sel)
  moreover have "locks_inv ?r" "cluster_inv ?r"
    using inv by (auto simp: room_inv_def locks_inv_def cluster_inv_def sel)
  ultimately show ?thesis
    using inv by (auto simp: room_inv_def sel SnapshotCache_Remove_def split: if_splits)
qed

lemma detach_member_inv:
  assumes inv: "member_inv r" and att: "fmlookup (activeSessions r) sid = Some att"
  shows "member_inv (detach_session sid att (att_playerID att) r)"
proof -
  let ?r = "detach_session sid att (att_playerID att) r"
  have sel: "players ?r = fmdrop (att_playerID att) (players r)" "activeSessions ?r = fmdrop sid (activeSessions r)"
    "userSessionIndex ?r = (if att_userID att = [] then userSessionIndex r else fmdrop (att_userID att) (userSessionIndex r))"
    "playerCount ?r = playerCount r - 1"
    by (simp_all add: detach_session_def Let_def)
  have idx: "fmlookup (userSessionIndex r) u = Some s \<longleftrightarrow> u \<noteq> [] \<and> (\<exists>a. fmlookup (activeSessions r) s = Some a \<and> att_userID a = u)" for u s
    using inv by (simp add: member_inv_def)
  have dom: "pid |\<in>| fmdom (players r) \<longleftrightarrow> (\<exists>s a. fmlookup (activeSessions r) s = Some a \<and> att_playerID a = pid)" for pid
    using inv by (simp add: member_inv_def)
  have inj: "s = s'" if "fmlookup (activeSessions r) s = Some a" "fmlookup (activeSessions r) s' = Some a'"
    "att_playerID a = att_playerID a'" for s s' a a'
    using inv that unfolding member_inv_def by blast
  have in_dom: "sid |\<in>| fmdom (activeSessions r)" using att by (rule fmdomI)
  then have "0 < map_len (activeSessions r)" by (auto simp: neq0_conv [symmetric])
  then have "playerCount ?r = word_of_nat (map_len (activeSessions ?r))"
    using inv in_dom by (simp add: sel member_inv_def map_len_drop)
  moreover have "fmlookup (userSessionIndex ?r) u = Some s \<longleftrightarrow>
      u \<noteq> [] \<and> (\<exists>a. fmlookup (activeSessions ?r) s = Some a \<and> att_userID a = u)" for u s
  proof -
    have "u \<noteq> [] \<and> att_userID att = u \<and> fmlookup (userSessionIndex r) u = Some s \<Longrightarrow> s = sid"
      using idx [of u sid] att by auto
    then show ?thesis using idx [of u s] att by (auto simp: sel)
  qed
  moreover have "pid |\<in>| fmdom (players ?r) \<longleftrightarrow>
      (\<exists>s a. fmlookup (activeSessions ?r) s = Some a \<and> att_playerID a = pid)" for pid
    using dom [of pid] inj att by (auto simp: sel)
  moreover have "s = s'" if "fmlookup (activeSessions ?r) s = Some a" "fmlookup (activeSessions ?r) s' = Some a'"
    "att_playerID a = att_playerID a'" for s s' a a'
    using that inj by (auto simp: sel split: if_splits)
  ultimately show ?thesis unfolding member_inv_def by blast
qed

lemma release_session_cases:
  assumes "range_order (env_ord env)"
  obtains om lm where "release_session_locks env sid r = with_objects om lm r"
    "lock_steps (objectMgr r, lockMgr r) (om, lm)"
    "\<exists>ids. ReleaseBySession (env_ord env) sid (env_now env) (objectMgr r) (lockMgr r) = (ids, om, lm)"
proof -
  obtain ids om lm where b: "ReleaseBySession (env_ord env) sid (env_now env) (objectMgr r) (lockMgr r) = (ids, om, lm)"
    by (metis surj_pair)
  from one_lock_step [OF lock_step.session_gone [OF assms b]] b show thesis
    by (intro that [of om lm]) (simp_all add: release_session_locks_def with_objects_def)
qed

lemma move_cases:
  obtains (absent) "fmlookup (players r) pid = None" "move_player env pid t tick r = r"
  | (moved) p r' where "fmlookup (players r) pid = Some p" "move_player env pid t tick r = r'"
      "players r' = fmupd pid (UpdateTransform (env_now env) t tick p) (players r)"
      "spatial r' = snd (Spatial_Update pid (Pos (v_X (pt_Position t)) (v_Z (pt_Position t))) (spatial r))"
      "dirtyPlayers r' = finsert pid (dirtyPlayers r)"
      "activeSessions r' = activeSessions r" "userSessionIndex r' = userSessionIndex r"
      "playerCount r' = playerCount r" "snapshotCache r' = snapshotCache r" "objectMgr r' = objectMgr r"
      "lockMgr r' = lockMgr r" "clusterOutput r' = clusterOutput r" "config r' = config r"
      "clusterMembershipDirty r' = clusterMembershipDirty r"
proof (cases "fmlookup (players r) pid")
  case None
  then show thesis by (intro absent) (simp_all add: move_player_def)
next
  case (Some p)
  then show thesis by (intro moved [OF Some refl]) (simp_all add: move_player_def Snapshot_def Let_def)
qed

lemma move_room_inv:
  assumes inv: "room_inv r"
  shows "room_inv (move_player env pid t tick r)"
proof (cases rule: move_cases [of r pid env t tick])
  case (moved p r')
  have idx: "index_inv r" and lk: "locks_inv r" and cl: "cluster_inv r" using inv by (simp_all add: room_inv_def)
  have dom: "fmdom (players r') = fmdom (players r)"
    using fmdomI [OF moved(1)] by (simp add: moved(3) finsert_absorb)
  have g: "grid_inv (spatial r)" "fmdom (entities (spatial r)) = fmdom (players r)"
    using idx by (simp_all add: index_inv_def)
  have "index_inv r'"
    unfolding index_inv_def dom moved(4)
    using idx Update_inv [OF g(1)] fmdomI [OF moved(1)]
    by (simp add: Update_dom [OF g(1)] g(2) finsert_absorb index_inv_def)
  moreover have "locks_inv r'" using lk by (simp add: locks_inv_def moved(10,11))
  moreover have "cluster_inv r'" using cl by (simp add: cluster_inv_def dom moved(12-14))
  moreover have "\<forall>q x. fmlookup (players r') q = Some x \<longrightarrow> ps_ID x = q"
    using inv moved(1) by (simp add: moved(3) room_inv_def UpdateTransform_def)
  moreover have "dirtyPlayers r' |\<subseteq>| fmdom (players r')"
    using inv fmdomI [OF moved(1)] by (simp add: dom moved(5) room_inv_def)
  ultimately show ?thesis
    using inv unfolding moved(2) room_inv_def moved(6,9) by blast
qed (use assms in simp)

lemma move_member_inv: "member_inv r \<Longrightarrow> member_inv (move_player env pid t tick r)"
proof (cases rule: move_cases [of r pid env t tick])
  case (moved p r')
  assume inv: "member_inv r"
  have "fmdom (players r') = fmdom (players r)" using moved(1,3) by (simp add: finsert_absorb fmdomI)
  with inv show ?thesis unfolding moved(2) member_inv_def moved(6-8) by simp
qed simp

section \<open>Lemmas: every command\<close>

text \<open>What no command touches.\<close>

definition core :: "Room \<Rightarrow> RoomCommand list \<times> RoomStatus \<times> RoomConfig \<times> u32 \<times> u32 \<times> bool \<times> InterestConfig \<times> string" where
  "core r = (commands r, status r, config r, currentTick r, lastClusterTick r, broadcaster r, interestMgr r, instanceID r)"

lemma core_parts [frame]:
  "core (release_session_locks env sid r) = core r"
  "core (detach_session sid att pid r) = core r"
  "core (move_player env pid t tick r) = core r"
  "core (handle_Join cmd r) = core r"
  "core (handle_ObjectLockAcquire cmd r) = core r" "core (handle_ObjectLockRefresh cmd r) = core r"
  "core (handle_ObjectLockRelease cmd r) = core r" "core (handle_ObjectUpdate cmd r) = core r"
  by (simp_all add: core_def release_session_locks_def detach_session_def move_player_def handle_Join_def
      handle_ObjectLockAcquire_def handle_ObjectLockRefresh_def handle_ObjectLockRelease_def handle_ObjectUpdate_def
      Let_def split: Payload.split option.split prod.split)

lemma handleCommand_core: "core (handleCommand env cmd tick r) = core r"
  by (simp add: handleCommand_def handle_Leave_def handle_Disconnect_def handle_PlayerInput_def
      handle_UpdatePlayerTransform_def frame split: RoomCommandKind.split option.split Payload.split)

lemma handleCommand_frame [simp]:
  "commands (handleCommand env cmd tick r) = commands r"
  "status (handleCommand env cmd tick r) = status r" "config (handleCommand env cmd tick r) = config r"
  "currentTick (handleCommand env cmd tick r) = currentTick r"
  "lastClusterTick (handleCommand env cmd tick r) = lastClusterTick r"
  "instanceID (handleCommand env cmd tick r) = instanceID r"
  using handleCommand_core [of env cmd tick r] by (simp_all add: core_def)

lemma detach_then_release:
  assumes "range_order (env_ord env)"
  shows "room_inv r \<Longrightarrow> room_inv (release_session_locks env sid r)"
    and "member_inv r \<Longrightarrow> member_inv (release_session_locks env sid r)"
  using release_session_cases [OF assms, of sid r] with_objects_inv by metis+

lemma handleCommand_room_inv:
  assumes "range_order (env_ord env)" and inv: "room_inv r"
  shows "room_inv (handleCommand env cmd tick r)"
proof (cases "cmd_Kind cmd \<in> {CmdObjectLockAcquire, CmdObjectLockRefresh, CmdObjectLockRelease, CmdObjectUpdate}")
  case True
  then show ?thesis using inv with_objects_inv(1) by (metis object_command_cases)
next
  case False
  then show ?thesis
    using inv Join_room_inv [OF inv] detach_room_inv [OF inv] detach_then_release(1) [OF assms(1)] move_room_inv [OF inv]
    by (auto simp: handleCommand_def handle_Leave_def handle_Disconnect_def handle_PlayerInput_def
        handle_UpdatePlayerTransform_def split: RoomCommandKind.splits option.splits Payload.splits)
qed

lemma handleCommand_member_inv:
  assumes "range_order (env_ord env)" and inv: "member_inv r" and "well_behaved cmd r"
  shows "member_inv (handleCommand env cmd tick r)"
proof (cases "cmd_Kind cmd \<in> {CmdObjectLockAcquire, CmdObjectLockRefresh, CmdObjectLockRelease, CmdObjectUpdate}")
  case True
  then show ?thesis using inv with_objects_inv(2) by (metis object_command_cases)
next
  case False
  have detach: "member_inv (detach_session sid att pid r)"
    if "fmlookup (activeSessions r) sid = Some att" "att_playerID att = pid" for sid att pid
    using detach_member_inv [OF inv that(1)] that(2) by simp
  from False show ?thesis
    using assms(3) inv Join_member_inv [OF inv] detach detach_then_release(2) [OF assms(1)] move_member_inv [OF inv]
    by (auto simp: handleCommand_def handle_Leave_def handle_Disconnect_def handle_PlayerInput_def well_behaved_def
        handle_UpdatePlayerTransform_def split: RoomCommandKind.splits option.splits Payload.splits)
qed

lemma newRoom_room_inv: "room_inv (newRoom spec)"
proof -
  let ?r = "newRoom spec"
  have "index_inv ?r"
    by (simp add: index_inv_def newRoom_def Let_def New_inv) (simp add: NewGridSpatialHash_def DefaultSpatialConfig_def)
  moreover have "locks_inv ?r"
    by (auto simp: locks_inv_def newRoom_def Let_def NewLockManager_def DefaultLockLease_def
        intro: lock_reachable.start [unfolded NewLockManager_def])
  moreover have "cluster_inv ?r"
    by (auto simp: cluster_inv_def newRoom_def Let_def emptyOutput_def well_clustered_def members_def)
  ultimately show ?thesis
    by (simp add: room_inv_def) (simp add: newRoom_def Let_def NewSnapshotCache_def)
qed

lemma newRoom_member_inv: "member_inv (newRoom spec)"
  by (simp add: member_inv_def newRoom_def Let_def)

end
