(* ===== verification/RoomLoop.thy ===== *)
theory RoomLoop
  imports RoomCommands
begin

text \<open>
  Package \<^verbatim>\<open>internal/game/room\<close>, second part: the tick (\<^verbatim>\<open>tick.go\<close>), the delta batches of a
  broadcast (\<^verbatim>\<open>buildDeltaBatches\<close> of \<^verbatim>\<open>room.go\<close>), the lifecycle (\<^verbatim>\<open>lifecycle.go\<close>), and the room as a
  concurrent system: the loop goroutine, the goroutines that enqueue commands or create
  objects, and the callers of Start and Stop interleave at the granularity of the room's
  critical sections. Sequential functions model one tick with nobody interfering; the step
  relation models the interleaving, and the tick is a sequence of its steps.

  \<open>env 0\<close>, \<open>env 1\<close> and \<open>env 2\<close> give the clock and the map order of the three phases of a tick
  around the commands, \<open>env (3 + i)\<close> those of the i-th command.
\<close>

section \<open>Phases of a tick\<close>

definition releaseExpiredLocks :: "go_env \<Rightarrow> Room \<Rightarrow> Room" where
  "releaseExpiredLocks env r =
     (case ReleaseExpired (env_ord env) (env_now env) (objectMgr r) (lockMgr r) of
        (_, om, lm) \<Rightarrow> r\<lparr>objectMgr := om, lockMgr := lm\<rparr>)"

function drainCommands :: "(nat \<Rightarrow> go_env) \<Rightarrow> u32 \<Rightarrow> Room \<Rightarrow> Room" where
  "drainCommands env tick r =
     (case commands r of
        [] \<Rightarrow> r
      | cmd # rest \<Rightarrow>
          drainCommands (\<lambda>i. env (Suc i)) tick (handleCommand (env 0) cmd tick (r\<lparr>commands := rest\<rparr>)))"
  by pat_completeness auto
termination
  by (relation "measure (\<lambda>(env, tick, r). length (commands r))") auto

declare drainCommands.simps [simp del]

definition shouldRecomputeCluster :: "u32 \<Rightarrow> Room \<Rightarrow> bool" where
  "shouldRecomputeCluster tick r =
     (let cfg = rc_ClusterConfig (config r)
      in if \<not> cl_Enabled cfg then False
         else let ticksSinceLast = tick - lastClusterTick r
              in if word_of_int (cl_ReclusterIntervalTicks cfg) \<le> ticksSinceLast then True
                 else if flt (cl_MovementThreshold cfg) (maxMovementSinceLastCluster r) then True
                 else clusterMembershipDirty r)"

definition cluster_input :: "map_order \<Rightarrow> Room \<Rightarrow> ClusterInput" where
  "cluster_input ord r =
     \<lparr>ci_Players = List.map_filter
        (\<lambda>pid. map_option (\<lambda>ps. case Snapshot ps of (transform, _) \<Rightarrow>
             \<lparr>cp_PlayerID = pid, cp_Position = Pos (v_X (pt_Position transform)) (v_Z (pt_Position transform))\<rparr>)
           (fmlookup (players r) pid))
        (ord (fmdom (players r)))\<rparr>"

definition recomputeCluster :: "go_env \<Rightarrow> u32 \<Rightarrow> Room \<Rightarrow> Room" where
  "recomputeCluster env tick r =
     (case Compute (cluster_input (env_ord env) r) (rc_ClusterConfig (config r)) (clusterAlloc r) of
        (Inl err, alloc) \<Rightarrow> r\<lparr>clusterAlloc := alloc\<rparr>
      | (Inr output, alloc) \<Rightarrow>
          r\<lparr>clusterAlloc := alloc, clusterOutput := output, lastClusterTick := tick,
            maxMovementSinceLastCluster := FNum 0, clusterMembershipDirty := False\<rparr>)"

definition isBroadcastTick :: "u32 \<Rightarrow> Room \<Rightarrow> bool" where
  "isBroadcastTick tick r =
     (if BroadcastRateHz (config r) \<le> 0 \<or> TickRateHz (config r) \<le> 0 then False
      else if BroadcastRateHz (config r) \<ge> TickRateHz (config r) then True
      else let ratio = word_of_int (go_div (TickRateHz (config r)) (BroadcastRateHz (config r)))
           in if ratio = 0 then True else tick mod ratio = 0)"

section \<open>Broadcast\<close>

type_synonym batches = "(string, DeltaBatch) fmap"

definition visible_for :: "map_order \<Rightarrow> Room \<Rightarrow> string \<Rightarrow> PlayerState \<Rightarrow> string list" where
  "visible_for ord r pid ps =
     (if cl_Enabled (rc_ClusterConfig (config r)) then cluster_interest r pid else radius_interest ord r pid ps)"

text \<open>One session of the loop of \<^verbatim>\<open>buildDeltaBatches\<close>.\<close>

definition build_batch :: "map_order \<Rightarrow> u32 \<Rightarrow> Room \<Rightarrow> string \<Rightarrow> batches \<times> SnapshotCache \<Rightarrow> batches \<times> SnapshotCache" where
  "build_batch ord tick r sid st =
     (case st of (batches, cache) \<Rightarrow>
       (case fmlookup (activeSessions r) sid of
          None \<Rightarrow> st
        | Some att \<Rightarrow>
            let pid = att_playerID att
            in case fmlookup (players r) pid of
                 None \<Rightarrow> st
               | Some ps \<Rightarrow>
                   let visiblePlayers = visible_for ord r pid ps;
                       (snapshot, cache) = GetOrCreate sid cache;
                       (playerDelta, snapshot) = BuildPlayerDelta ord tick visiblePlayers snapshot (players r)
                   in (fmupd sid \<lparr>db_Tick = tick, db_PlayerDelta = Some playerDelta, db_ObjectDelta = None\<rparr> batches,
                       cache\<lparr>sc_snapshots := fmupd sid snapshot (sc_snapshots cache)\<rparr>)))"

definition buildDeltaBatches :: "map_order \<Rightarrow> u32 \<Rightarrow> Room \<Rightarrow> batches \<times> Room" where
  "buildDeltaBatches ord tick r =
     (if map_len (activeSessions r) = 0 then (fmempty, r)
      else case fold (build_batch ord tick r) (ord (fmdom (activeSessions r))) (fmempty, snapshotCache r) of
             (batches, cache) \<Rightarrow> (batches, r\<lparr>snapshotCache := cache\<rparr>))"

definition clearDirtyPlayers :: "Room \<Rightarrow> Room" where
  "clearDirtyPlayers r = r\<lparr>dirtyPlayers := {||}\<rparr>"

text \<open>The batches handed to the broadcaster, if it is called at all.\<close>

definition broadcast :: "go_env \<Rightarrow> u32 \<Rightarrow> Room \<Rightarrow> batches option \<times> Room" where
  "broadcast env tick r =
     (case buildDeltaBatches (env_ord env) tick r of
        (batches, r) \<Rightarrow>
          (if broadcaster r \<and> map_len batches > 0 then Some batches else None, clearDirtyPlayers r))"

section \<open>One tick\<close>

definition tick_begin :: "go_env \<Rightarrow> Room \<Rightarrow> Room" where
  "tick_begin env r = releaseExpiredLocks env (r\<lparr>currentTick := currentTick r + 1\<rparr>)"

definition tick_end :: "(nat \<Rightarrow> go_env) \<Rightarrow> u32 \<Rightarrow> Room \<Rightarrow> batches option \<times> Room" where
  "tick_end env tick r =
     (let r = (if shouldRecomputeCluster tick r then recomputeCluster (env 1) tick r else r)
      in if isBroadcastTick tick r then broadcast (env 2) tick r else (None, r))"

definition tick_room :: "(nat \<Rightarrow> go_env) \<Rightarrow> Room \<Rightarrow> batches option \<times> Room" where
  "tick_room env r =
     (let r = tick_begin (env 0) r; tick = currentTick r
      in tick_end env tick (drainCommands (\<lambda>i. env (3 + i)) tick r))"

section \<open>Lifecycle\<close>

definition Start :: "Room \<Rightarrow> room_err option \<times> Room" where
  "Start r =
     (if status r \<noteq> RoomStatusCreated then (Some (CannotStart (instanceID r) (status r)), r)
      else (None, r\<lparr>status := RoomStatusRunning\<rparr>))"

text \<open>
  Stop in three parts: the first critical section with the result whether the caller goes on
  to cancel and wait, and the last one after \<^verbatim>\<open>done\<close> was closed.
\<close>

definition Stop_request :: "Room \<Rightarrow> bool \<times> Room" where
  "Stop_request r =
     (case status r of
        RoomStatusClosed \<Rightarrow> (False, r)
      | RoomStatusCreated \<Rightarrow> (False, r\<lparr>status := RoomStatusClosed\<rparr>)
      | _ \<Rightarrow> (True, r\<lparr>status := RoomStatusDraining\<rparr>))"

definition Stop_finish :: "Room \<Rightarrow> Room" where
  "Stop_finish r = r\<lparr>status := RoomStatusClosed\<rparr>"

section \<open>The concurrent room\<close>

text \<open>
  Where the loop goroutine is: not launched, waiting in the select of \<^verbatim>\<open>runTick\<close>, draining the
  queue in a tick, or gone (\<^verbatim>\<open>done\<close> closed). \<open>waiting\<close> counts the callers of Stop blocked on \<^verbatim>\<open>done\<close>.
\<close>

datatype loop_phase = LoopNone | LoopIdle | LoopDraining u32 | LoopExited

record room_proc =
  room :: Room
  loop :: loop_phase
  cancelled :: bool
  waiting :: nat

inductive room_step :: "(RoomCommand \<Rightarrow> Room \<Rightarrow> bool) \<Rightarrow> room_proc \<Rightarrow> room_proc \<Rightarrow> bool" for ok where
  enqueue: "Enqueue cmd (room p) = (res, r) \<Longrightarrow> room_step ok p (p\<lparr>room := r\<rparr>)"
| create: "CreateObject oid kind t (room p) = (res, r) \<Longrightarrow> room_step ok p (p\<lparr>room := r\<rparr>)"
| set_broadcaster: "status (room p) = RoomStatusCreated \<Longrightarrow> room_step ok p (p\<lparr>room := SetBroadcaster (room p)\<rparr>)"
| start: "Start (room p) = (None, r) \<Longrightarrow> room_step ok p (p\<lparr>room := r, loop := LoopIdle\<rparr>)"
| tick_begin: "loop p = LoopIdle \<Longrightarrow> range_order (env_ord env) \<Longrightarrow> r = tick_begin env (room p) \<Longrightarrow>
    room_step ok p (p\<lparr>room := r, loop := LoopDraining (currentTick r)\<rparr>)"
| handle: "loop p = LoopDraining tick \<Longrightarrow> commands (room p) = cmd # rest \<Longrightarrow> range_order (env_ord env) \<Longrightarrow>
    ok cmd (room p) \<Longrightarrow> r = handleCommand env cmd tick ((room p)\<lparr>commands := rest\<rparr>) \<Longrightarrow>
    room_step ok p (p\<lparr>room := r\<rparr>)"
| tick_end: "loop p = LoopDraining tick \<Longrightarrow> commands (room p) = [] \<Longrightarrow> (\<And>i. range_order (env_ord (env i))) \<Longrightarrow>
    r = snd (tick_end env tick (room p)) \<Longrightarrow> room_step ok p (p\<lparr>room := r, loop := LoopIdle\<rparr>)"
| stop_noop: "Stop_request (room p) = (False, r) \<Longrightarrow> room_step ok p (p\<lparr>room := r\<rparr>)"
| stop_begin: "Stop_request (room p) = (True, r) \<Longrightarrow>
    room_step ok p (p\<lparr>room := r, cancelled := True, waiting := waiting p + 1\<rparr>)"
| parent_cancel: "room_step ok p (p\<lparr>cancelled := True\<rparr>)"
| loop_exit: "loop p = LoopIdle \<Longrightarrow> cancelled p \<Longrightarrow> room_step ok p (p\<lparr>loop := LoopExited\<rparr>)"
| stop_end: "waiting p > 0 \<Longrightarrow> loop p = LoopExited \<Longrightarrow>
    room_step ok p (p\<lparr>room := Stop_finish (room p), waiting := waiting p - 1\<rparr>)"

definition new_proc :: "RoomSpec \<Rightarrow> room_proc" where
  "new_proc spec = \<lparr>room = newRoom spec, loop = LoopNone, cancelled = False, waiting = 0\<rparr>"

definition room_reachable :: "(RoomCommand \<Rightarrow> Room \<Rightarrow> bool) \<Rightarrow> RoomSpec \<Rightarrow> room_proc \<Rightarrow> bool" where
  "room_reachable ok spec p \<longleftrightarrow> (room_step ok)\<^sup>*\<^sup>* (new_proc spec) p"

section \<open>Lemmas: the invariants across a tick\<close>

lemmas inv_defs = room_inv_def index_inv_def locks_inv_def cluster_inv_def member_inv_def

lemma inv_frame [simp]:
  "room_inv (r\<lparr>commands := cs\<rparr>) = room_inv r" "member_inv (r\<lparr>commands := cs\<rparr>) = member_inv r"
  "room_inv (r\<lparr>status := s\<rparr>) = room_inv r" "member_inv (r\<lparr>status := s\<rparr>) = member_inv r"
  "room_inv (r\<lparr>currentTick := t\<rparr>) = room_inv r" "member_inv (r\<lparr>currentTick := t\<rparr>) = member_inv r"
  "room_inv (r\<lparr>broadcaster := b\<rparr>) = room_inv r" "member_inv (r\<lparr>broadcaster := b\<rparr>) = member_inv r"
  "member_inv (r\<lparr>objectMgr := om\<rparr>) = member_inv r"
  "room_inv (r\<lparr>clusterAlloc := a\<rparr>) = room_inv r" "member_inv (r\<lparr>clusterAlloc := a\<rparr>) = member_inv r"
  by (simp_all add: inv_defs)

lemma tick_begin_cases:
  assumes "range_order (env_ord env)"
  obtains om lm where "tick_begin env r = with_objects om lm (r\<lparr>currentTick := currentTick r + 1\<rparr>)"
    "lock_steps (objectMgr r, lockMgr r) (om, lm)"
    "\<exists>ids. ReleaseExpired (env_ord env) (env_now env) (objectMgr r) (lockMgr r) = (ids, om, lm)"
proof -
  obtain ids om lm where e: "ReleaseExpired (env_ord env) (env_now env) (objectMgr r) (lockMgr r) = (ids, om, lm)"
    by (metis surj_pair)
  from one_lock_step [OF lock_step.expire [OF assms e]] e show thesis
    by (intro that [of om lm]) (simp_all add: tick_begin_def releaseExpiredLocks_def with_objects_def)
qed

lemma tick_begin_inv:
  assumes "range_order (env_ord env)"
  shows "room_inv r \<Longrightarrow> room_inv (tick_begin env r)" and "member_inv r \<Longrightarrow> member_inv (tick_begin env r)"
proof -
  let ?r = "r\<lparr>currentTick := currentTick r + 1\<rparr>"
  obtain om lm where t: "tick_begin env r = with_objects om lm ?r" and "lock_steps (objectMgr ?r, lockMgr ?r) (om, lm)"
    by (rule tick_begin_cases [OF assms, of r]) simp
  from with_objects_inv [OF this(2)]
  show "room_inv r \<Longrightarrow> room_inv (tick_begin env r)" "member_inv r \<Longrightarrow> member_inv (tick_begin env r)"
    unfolding t by simp_all
qed

lemma input_players:
  assumes "range_order ord"
  shows "map cp_PlayerID (ci_Players (cluster_input ord r)) = ord (fmdom (players r))"
proof -
  have "map cp_PlayerID (List.map_filter (\<lambda>pid. map_option (\<lambda>ps. case Snapshot ps of (t, _) \<Rightarrow>
       \<lparr>cp_PlayerID = pid, cp_Position = Pos (v_X (pt_Position t)) (v_Z (pt_Position t))\<rparr>) (fmlookup m pid)) xs) = xs"
    if "set xs \<subseteq> fset (fmdom m)" for m :: "(string, PlayerState) fmap" and xs
    using that by (induction xs) (auto simp: List.map_filter_simps fmlookup_dom_iff split: prod.split)
  then show ?thesis using range_orderD [OF assms] by (simp add: cluster_input_def)
qed

lemma recompute_cases:
  assumes "range_order (env_ord env)"
  obtains (failed) e where "validateConfig (rc_ClusterConfig (config r)) = Some e" "recomputeCluster env tick r = r"
  | (computed) out alloc where "validateConfig (rc_ClusterConfig (config r)) = None"
      "recomputeCluster env tick r = r\<lparr>clusterAlloc := alloc, clusterOutput := out, lastClusterTick := tick,
         maxMovementSinceLastCluster := FNum 0, clusterMembershipDirty := False\<rparr>"
      "\<exists>ids \<subseteq> fset (fmdom (players r)). well_clustered ids out"
proof -
  let ?in = "cluster_input (env_ord env) r" and ?cfg = "rc_ClusterConfig (config r)"
  have d: "distinct (map cp_PlayerID (ci_Players ?in))"
    and dom: "cp_PlayerID ` set (ci_Players ?in) = fset (fmdom (players r))"
    using range_orderD [OF assms] input_players [OF assms, of r] by (simp_all flip: set_map)
  obtain res alloc where c: "Compute ?in ?cfg (clusterAlloc r) = (res, alloc)" by fastforce
  show thesis
  proof (cases res)
    case (Inl e)
    with c km.failed [of ?in ?cfg "clusterAlloc r" e alloc] show thesis
      by (intro failed [of e]) (auto simp: recomputeCluster_def elim: Compute_cases)
  next
    case (Inr out)
    have "cp_PlayerID ` set (considered ?in ?cfg) \<subseteq> fset (fmdom (players r))"
      unfolding dom [symmetric] considered_def by (intro image_mono) (auto dest: in_set_takeD)
    with c Inr km.partition [OF d, of ?cfg "clusterAlloc r" out alloc] show thesis
      by (intro computed [of out alloc]) (auto simp: recomputeCluster_def elim: Compute_cases)
  qed
qed

lemma recompute_inv:
  assumes "range_order (env_ord env)"
  shows "room_inv r \<Longrightarrow> room_inv (recomputeCluster env tick r)"
    and "member_inv r \<Longrightarrow> member_inv (recomputeCluster env tick r)"
proof -
  show "member_inv r \<Longrightarrow> member_inv (recomputeCluster env tick r)"
    by (cases rule: recompute_cases [OF assms, of r tick]) (simp_all add: member_inv_def)
  assume inv: "room_inv r"
  from assms show "room_inv (recomputeCluster env tick r)"
  proof (cases rule: recompute_cases [of env r tick])
    case (computed out alloc)
    have "cluster_inv (recomputeCluster env tick r)" using computed by (auto simp: cluster_inv_def)
    with inv computed(2) show ?thesis by (simp add: room_inv_def index_inv_def locks_inv_def)
  qed (use inv in simp)
qed

lemma build_batch_dom:
  "sid |\<in>| fmdom (sc_snapshots (snd st)) \<Longrightarrow>
   fmdom (sc_snapshots (snd (build_batch ord tick r sid st))) = fmdom (sc_snapshots (snd st))"
  by (auto simp: build_batch_def GetOrCreate_def Let_def split: prod.splits option.splits)

lemma build_batches_dom:
  "set sids \<subseteq> fset (fmdom (sc_snapshots (snd st))) \<Longrightarrow>
   fmdom (sc_snapshots (snd (fold (build_batch ord tick r) sids st))) = fmdom (sc_snapshots (snd st))"
  by (induction sids arbitrary: st) (simp_all add: build_batch_dom)

lemma broadcast_cases:
  obtains cache where "snd (broadcast env tick r) = r\<lparr>snapshotCache := cache, dirtyPlayers := {||}\<rparr>"
    "range_order (env_ord env) \<Longrightarrow> fmdom (sc_snapshots (snapshotCache r)) = fmdom (activeSessions r) \<Longrightarrow>
       fmdom (sc_snapshots cache) = fmdom (activeSessions r)"
proof (cases "map_len (activeSessions r) = 0")
  case True
  then show thesis
    by (intro that [of "snapshotCache r"]) (simp_all add: broadcast_def buildDeltaBatches_def clearDirtyPlayers_def)
next
  case False
  let ?ord = "env_ord env"
  obtain b cache where f: "fold (build_batch ?ord tick r) (?ord (fmdom (activeSessions r))) (fmempty, snapshotCache r) = (b, cache)"
    by fastforce
  show thesis
  proof (rule that [of cache])
    show "snd (broadcast env tick r) = r\<lparr>snapshotCache := cache, dirtyPlayers := {||}\<rparr>"
      using False f by (simp add: broadcast_def buildDeltaBatches_def clearDirtyPlayers_def)
    assume "range_order ?ord" "fmdom (sc_snapshots (snapshotCache r)) = fmdom (activeSessions r)"
    then show "fmdom (sc_snapshots cache) = fmdom (activeSessions r)"
      using build_batches_dom [of "?ord (fmdom (activeSessions r))" "(fmempty, snapshotCache r)" ?ord tick r] f
      by (simp add: range_orderD)
  qed
qed

lemma broadcast_inv:
  assumes "range_order (env_ord env)"
  shows "room_inv r \<Longrightarrow> room_inv (snd (broadcast env tick r))"
    and "member_inv r \<Longrightarrow> member_inv (snd (broadcast env tick r))"
proof -
  obtain cache where b: "snd (broadcast env tick r) = r\<lparr>snapshotCache := cache, dirtyPlayers := {||}\<rparr>"
    and dom: "fmdom (sc_snapshots (snapshotCache r)) = fmdom (activeSessions r) \<Longrightarrow>
      fmdom (sc_snapshots cache) = fmdom (activeSessions r)"
    using broadcast_cases assms by metis
  show "room_inv r \<Longrightarrow> room_inv (snd (broadcast env tick r))"
    using dom unfolding b by (simp add: room_inv_def index_inv_def locks_inv_def cluster_inv_def)
  show "member_inv r \<Longrightarrow> member_inv (snd (broadcast env tick r))"
    unfolding b by (simp add: member_inv_def)
qed

lemma tick_end_inv:
  assumes "\<And>i. range_order (env_ord (env i))"
  shows "room_inv r \<Longrightarrow> room_inv (snd (tick_end env tick r))" and "member_inv r \<Longrightarrow> member_inv (snd (tick_end env tick r))"
  using recompute_inv [OF assms] broadcast_inv [OF assms] by (auto simp: tick_end_def Let_def)

section \<open>Lemmas: the concurrent room\<close>

lemma same_room [simp]: "p\<lparr>room := room p\<rparr> = p"
  by (cases p) simp

lemma room_step_inv: "room_step ok p q \<Longrightarrow> room_inv (room p) \<Longrightarrow> room_inv (room q)"
proof (induction rule: room_step.induct)
  case (enqueue cmd p res r)
  then show ?case by (auto simp: Enqueue_def split: if_splits)
next
  case (create oid kind t p res r)
  obtain x om where c: "Object_Create oid kind t (objectMgr (room p)) = (x, om)" by fastforce
  have "r = with_objects om (lockMgr (room p)) (room p)"
    using create c by (auto simp: CreateObject_def with_objects_def split: sum.splits)
  with create with_objects_inv(1) [OF one_lock_step [OF lock_step.create [OF c]]] show ?case by simp
next
  case (stop_noop p r)
  then show ?case by (auto simp: Stop_request_def split: RoomStatus.splits)
next
  case (stop_begin p r)
  then show ?case by (auto simp: Stop_request_def split: RoomStatus.splits)
qed (auto simp: Start_def SetBroadcaster_def Stop_finish_def tick_begin_inv handleCommand_room_inv tick_end_inv split: if_splits)

lemma room_step_member_inv: "room_step well_behaved p q \<Longrightarrow> member_inv (room p) \<Longrightarrow> member_inv (room q)"
proof (induction rule: room_step.induct)
  case (enqueue cmd p res r)
  then show ?case by (auto simp: Enqueue_def split: if_splits)
next
  case (create oid kind t p res r)
  then show ?case by (auto simp: CreateObject_def split: prod.splits sum.splits)
next
  case (handle p tick cmd rest env r)
  then have "well_behaved cmd ((room p)\<lparr>commands := rest\<rparr>)"
    by (auto simp: well_behaved_def split: RoomCommandKind.splits option.splits)
  with handle show ?case by (simp add: handleCommand_member_inv)
next
  case (stop_noop p r)
  then show ?case by (auto simp: Stop_request_def split: RoomStatus.splits)
next
  case (stop_begin p r)
  then show ?case by (auto simp: Stop_request_def split: RoomStatus.splits)
qed (auto simp: Start_def SetBroadcaster_def Stop_finish_def tick_begin_inv tick_end_inv split: if_splits)

interpretation rs: step_invariant "room_step ok" "\<lambda>p. room_inv (room p)" for ok
  by unfold_locales (rule room_step_inv)

interpretation ms: step_invariant "room_step well_behaved" "\<lambda>p. member_inv (room p)"
  by unfold_locales (rule room_step_member_inv)

lemma reachable_room_inv: "room_reachable ok spec p \<Longrightarrow> room_inv (room p)"
  using rs.along [of ok "new_proc spec" p] by (simp add: room_reachable_def new_proc_def newRoom_room_inv)

lemma reachable_member_inv: "room_reachable well_behaved spec p \<Longrightarrow> member_inv (room p)"
  using ms.along [of "new_proc spec" p] by (simp add: room_reachable_def new_proc_def newRoom_member_inv)

section \<open>Lemmas: lifecycle and queue\<close>

lemma tick_begin_frame [simp]:
  "status (tick_begin env r) = status r" "config (tick_begin env r) = config r"
  "commands (tick_begin env r) = commands r" "currentTick (tick_begin env r) = currentTick r + 1"
  "instanceID (tick_begin env r) = instanceID r"
  by (simp_all add: tick_begin_def releaseExpiredLocks_def split: prod.split)

lemma recompute_frame [simp]:
  "status (recomputeCluster env tick r) = status r" "config (recomputeCluster env tick r) = config r"
  "commands (recomputeCluster env tick r) = commands r" "players (recomputeCluster env tick r) = players r"
  "activeSessions (recomputeCluster env tick r) = activeSessions r"
  "snapshotCache (recomputeCluster env tick r) = snapshotCache r"
  "instanceID (recomputeCluster env tick r) = instanceID r"
  by (simp_all add: recomputeCluster_def split: prod.split sum.split)

lemma broadcast_frame [simp]:
  "status (snd (broadcast env tick r)) = status r" "config (snd (broadcast env tick r)) = config r"
  "commands (snd (broadcast env tick r)) = commands r"
  "clusterMembershipDirty (snd (broadcast env tick r)) = clusterMembershipDirty r"
  "clusterOutput (snd (broadcast env tick r)) = clusterOutput r"
  "lastClusterTick (snd (broadcast env tick r)) = lastClusterTick r"
  "players (snd (broadcast env tick r)) = players r"
  "instanceID (snd (broadcast env tick r)) = instanceID r"
  by (simp_all add: broadcast_def buildDeltaBatches_def clearDirtyPlayers_def split: prod.split)

lemma tick_end_frame [simp]:
  "status (snd (tick_end env tick r)) = status r" "config (snd (tick_end env tick r)) = config r"
  "commands (snd (tick_end env tick r)) = commands r" "players (snd (tick_end env tick r)) = players r"
  "instanceID (snd (tick_end env tick r)) = instanceID r"
  by (simp_all add: tick_end_def Let_def)

definition lifecycle_inv :: "room_proc \<Rightarrow> bool" where
  "lifecycle_inv p \<longleftrightarrow>
     (case status (room p) of
        RoomStatusCreated \<Rightarrow> loop p = LoopNone \<and> waiting p = 0 \<and> commands (room p) = []
      | RoomStatusRunning \<Rightarrow> loop p \<noteq> LoopNone \<and> waiting p = 0
      | RoomStatusDraining \<Rightarrow> loop p \<noteq> LoopNone \<and> waiting p > 0
      | RoomStatusClosed \<Rightarrow> loop p = LoopNone \<or> loop p = LoopExited
      | RoomStatusOther _ \<Rightarrow> False)
     \<and> (waiting p > 0 \<longrightarrow> cancelled p) \<and> (loop p = LoopExited \<longrightarrow> cancelled p)
     \<and> int (length (commands (room p))) \<le> CommandQueueSize (config (room p))"

lemma room_step_lifecycle: "room_step ok p q \<Longrightarrow> lifecycle_inv p \<Longrightarrow> lifecycle_inv q"
proof (induction rule: room_step.induct)
  case (enqueue cmd p res r)
  then show ?case by (auto simp: Enqueue_def lifecycle_inv_def split: if_splits RoomStatus.splits)
next
  case (create oid kind t p res r)
  then show ?case by (auto simp: CreateObject_def lifecycle_inv_def split: prod.splits sum.splits RoomStatus.splits)
next
  case (stop_noop p r)
  then show ?case by (auto simp: Stop_request_def lifecycle_inv_def split: RoomStatus.splits)
next
  case (stop_begin p r)
  then show ?case by (auto simp: Stop_request_def lifecycle_inv_def split: RoomStatus.splits)
qed (auto simp: lifecycle_inv_def Start_def SetBroadcaster_def Stop_finish_def split: if_splits RoomStatus.splits)

lemma room_step_instanceID: "room_step ok p q \<Longrightarrow> instanceID (room q) = instanceID (room p)"
  by (induction rule: room_step.induct)
    (auto simp: Enqueue_def CreateObject_def SetBroadcaster_def Start_def Stop_request_def Stop_finish_def
      split: if_splits prod.splits sum.splits RoomStatus.splits)

lemma room_step_closed:
  assumes "room_step ok p q" "lifecycle_inv p" "status (room p) = RoomStatusClosed"
  shows "status (room q) = RoomStatusClosed"
  using assms
  by (cases rule: room_step.cases)
    (auto simp: lifecycle_inv_def Enqueue_def CreateObject_def Start_def Stop_request_def Stop_finish_def
      split: prod.splits sum.splits if_splits)

interpretation ls: step_invariant "room_step ok" lifecycle_inv for ok
  by unfold_locales (rule room_step_lifecycle)

lemma new_proc_lifecycle: "lifecycle_inv (new_proc spec)"
  by (simp add: lifecycle_inv_def new_proc_def newRoom_def Let_def room_config_def DefaultRoomConfig_def)

lemma reachable_lifecycle: "room_reachable ok spec p \<Longrightarrow> lifecycle_inv p"
  using ls.along [of ok "new_proc spec" p] by (simp add: room_reachable_def new_proc_lifecycle)

end
