(* ===== verification/RoomProperties.thy ===== *)
theory RoomProperties
  imports RoomLoop
begin

text \<open>
  The properties of a room: what holds in every state the interleaved system can reach, what
  the commands do, when the loop recomputes clusters and broadcasts, how a room stops, and
  that a client that applies its batches sees what the room means it to see.
\<close>

section \<open>Lemmas: visibility\<close>

lemma set_cluster_interest: "set (cluster_interest r pid) = cluster_mates (clusterOutput r) pid"
  by (auto simp: cluster_interest_def cluster_mates_def members_def split: option.split)

lemma cluster_visible_present:
  assumes "cluster_inv r" and "\<not> clusterMembershipDirty r"
  shows "set (cluster_interest r pid) \<subseteq> fset (fmdom (players r))"
proof -
  from assms obtain ids where w: "well_clustered ids (clusterOutput r)" and "ids \<subseteq> fset (fmdom (players r))"
    by (auto simp: cluster_inv_def)
  then show ?thesis using member_assigned [OF w] by (auto simp: subset_iff set_cluster_interest mates_iff [OF w])
qed

lemma radius_visible_present:
  assumes "index_inv r" and "range_order ord"
  shows "set (radius_interest ord r pid ps) \<subseteq> fset (fmdom (players r))"
proof
  fix x assume "x \<in> set (radius_interest ord r pid ps)"
  then obtain pos where "x \<in> set (QueryRadius ord pos (VisualRadiusM (interestMgr r)) (spatial r))"
    by (auto simp: radius_interest_def QueryVisiblePlayers_def split: prod.splits)
  then obtain q where "Spatial_Get x (spatial r) = Some q"
    using assms set_QueryRadius [of "spatial r" ord "VisualRadiusM (interestMgr r)" pos]
    by (fastforce simp: index_inv_def QueryRadius_def split: if_splits)
  then have "x |\<in>| fmdom (entities (spatial r))" by (auto simp: Spatial_Get_def fmdomI)
  with assms(1) show "x \<in> fset (fmdom (players r))" by (simp add: index_inv_def)
qed

lemma visible_present:
  assumes "room_inv r" and "range_order ord" and "\<not> clusterMembershipDirty r \<or> \<not> cl_Enabled (rc_ClusterConfig (config r))"
  shows "set (visible_for ord r pid ps) \<subseteq> fset (fmdom (players r))"
  using assms cluster_visible_present [of r pid] radius_visible_present [of r ord pid ps]
  by (auto simp: visible_for_def room_inv_def)

section \<open>Lemmas: batches\<close>

definition batch_for :: "map_order \<Rightarrow> u32 \<Rightarrow> Room \<Rightarrow> string \<Rightarrow> ClientSnapshot \<Rightarrow> (PlayerDelta \<times> ClientSnapshot) option" where
  "batch_for ord tick r sid snap =
     (case fmlookup (activeSessions r) sid of None \<Rightarrow> None
      | Some att \<Rightarrow> (case fmlookup (players r) (att_playerID att) of None \<Rightarrow> None
         | Some ps \<Rightarrow> Some (BuildPlayerDelta ord tick (visible_for ord r (att_playerID att) ps) snap (players r))))"

definition snapshot_of :: "SnapshotCache \<Rightarrow> string \<Rightarrow> ClientSnapshot" where
  "snapshot_of cache sid = fst (GetOrCreate sid cache)"

lemma build_batch_lookup:
  "fmlookup (fst (build_batch ord tick r sid st)) s =
     (if s = sid then (case batch_for ord tick r sid (snapshot_of (snd st) sid) of
          None \<Rightarrow> fmlookup (fst st) s
        | Some (pd, _) \<Rightarrow> Some \<lparr>db_Tick = tick, db_PlayerDelta = Some pd, db_ObjectDelta = None\<rparr>)
      else fmlookup (fst st) s)"
  "snapshot_of (snd (build_batch ord tick r sid st)) s =
     (if s = sid then (case batch_for ord tick r sid (snapshot_of (snd st) sid) of
          None \<Rightarrow> snapshot_of (snd st) s | Some (_, snap) \<Rightarrow> snap)
      else snapshot_of (snd st) s)"
proof -
  obtain b c where st: "st = (b, c)" by (cases st)
  obtain snap c' where g: "GetOrCreate sid c = (snap, c')" by fastforce
  have c': "s \<noteq> sid \<Longrightarrow> fmlookup (sc_snapshots c') s = fmlookup (sc_snapshots c) s"
    using g by (auto simp: GetOrCreate_def Let_def split: option.splits)
  show "fmlookup (fst (build_batch ord tick r sid st)) s =
     (if s = sid then (case batch_for ord tick r sid (snapshot_of (snd st) sid) of
          None \<Rightarrow> fmlookup (fst st) s
        | Some (pd, _) \<Rightarrow> Some \<lparr>db_Tick = tick, db_PlayerDelta = Some pd, db_ObjectDelta = None\<rparr>)
      else fmlookup (fst st) s)"
    by (auto simp: st g build_batch_def batch_for_def snapshot_of_def Let_def split: option.split prod.split)
  show "snapshot_of (snd (build_batch ord tick r sid st)) s =
     (if s = sid then (case batch_for ord tick r sid (snapshot_of (snd st) sid) of
          None \<Rightarrow> snapshot_of (snd st) s | Some (_, snap) \<Rightarrow> snap)
      else snapshot_of (snd st) s)"
    using c' by (auto simp: st g build_batch_def batch_for_def snapshot_of_def Let_def split: option.split prod.split)
      (auto simp: GetOrCreate_def Let_def split: option.split)
qed

lemma build_batches_lookup:
  "distinct sids \<Longrightarrow> fmlookup (fst (fold (build_batch ord tick r) sids st)) s =
     (if s \<in> set sids then (case batch_for ord tick r s (snapshot_of (snd st) s) of
          None \<Rightarrow> fmlookup (fst st) s
        | Some (pd, _) \<Rightarrow> Some \<lparr>db_Tick = tick, db_PlayerDelta = Some pd, db_ObjectDelta = None\<rparr>)
      else fmlookup (fst st) s)"
  "distinct sids \<Longrightarrow> snapshot_of (snd (fold (build_batch ord tick r) sids st)) s =
     (if s \<in> set sids then (case batch_for ord tick r s (snapshot_of (snd st) s) of
          None \<Rightarrow> snapshot_of (snd st) s | Some (_, snap) \<Rightarrow> snap)
      else snapshot_of (snd st) s)"
  by (induction sids arbitrary: st) (auto simp: build_batch_lookup split: option.split)

lemma batch_for_inactive: "s |\<notin>| fmdom (activeSessions r) \<Longrightarrow> batch_for ord tick r s snap = None"
  by (simp add: batch_for_def fmdom_notD)

lemma buildDeltaBatches_lookup:
  assumes "range_order ord"
  shows "fmlookup (fst (buildDeltaBatches ord tick r)) s =
      map_option (\<lambda>(pd, _). \<lparr>db_Tick = tick, db_PlayerDelta = Some pd, db_ObjectDelta = None\<rparr>)
        (batch_for ord tick r s (snapshot_of (snapshotCache r) s))"
    and "snapshot_of (snapshotCache (snd (buildDeltaBatches ord tick r))) s =
      (case batch_for ord tick r s (snapshot_of (snapshotCache r) s) of
         None \<Rightarrow> snapshot_of (snapshotCache r) s | Some (_, snap) \<Rightarrow> snap)"
proof -
  let ?sids = "ord (fmdom (activeSessions r))" and ?b = "batch_for ord tick r s (snapshot_of (snapshotCache r) s)"
  let ?f = "fold (build_batch ord tick r) ?sids (fmempty, snapshotCache r)"
  note d = range_orderD(1) [OF assms, of "fmdom (activeSessions r)"]
  have none: "s \<notin> set ?sids \<Longrightarrow> ?b = None"
    using range_orderD(2) [OF assms] by (auto intro: batch_for_inactive)
  have f: "fmlookup (fst ?f) s = map_option (\<lambda>(pd, _). \<lparr>db_Tick = tick, db_PlayerDelta = Some pd, db_ObjectDelta = None\<rparr>) ?b"
    "snapshot_of (snd ?f) s = (case ?b of None \<Rightarrow> snapshot_of (snapshotCache r) s | Some (_, snap) \<Rightarrow> snap)"
    using none by (auto simp: build_batches_lookup [OF d] split: option.split)
  have empty: "?b = None" if "activeSessions r = fmempty" using that by (simp add: batch_for_def)
  have full: "buildDeltaBatches ord tick r = (fst ?f, r\<lparr>snapshotCache := snd ?f\<rparr>)" if "activeSessions r \<noteq> fmempty"
    using that by (simp add: buildDeltaBatches_def case_prod_beta)
  show "fmlookup (fst (buildDeltaBatches ord tick r)) s =
      map_option (\<lambda>(pd, _). \<lparr>db_Tick = tick, db_PlayerDelta = Some pd, db_ObjectDelta = None\<rparr>) ?b"
    "snapshot_of (snapshotCache (snd (buildDeltaBatches ord tick r))) s =
      (case ?b of None \<Rightarrow> snapshot_of (snapshotCache r) s | Some (_, snap) \<Rightarrow> snap)"
    using f empty by (cases "activeSessions r = fmempty"; simp add: full; simp add: buildDeltaBatches_def)+
qed

section \<open>Lemmas: the loop\<close>

lemma drain_nil [simp]: "commands r = [] \<Longrightarrow> drainCommands env tick r = r"
  by (simp add: drainCommands.simps)

lemma drain_cons [simp]:
  "commands r = c # cs \<Longrightarrow> drainCommands env tick r =
     drainCommands (\<lambda>i. env (Suc i)) tick (handleCommand (env 0) c tick (r\<lparr>commands := cs\<rparr>))"
  by (subst drainCommands.simps) simp

lemma drain_frame:
  "commands (drainCommands env tick r) = []" "config (drainCommands env tick r) = config r"
  "status (drainCommands env tick r) = status r" "lastClusterTick (drainCommands env tick r) = lastClusterTick r"
proof -
  have "commands (drainCommands env tick r) = [] \<and> config (drainCommands env tick r) = config r
    \<and> status (drainCommands env tick r) = status r \<and> lastClusterTick (drainCommands env tick r) = lastClusterTick r"
  proof (induction env tick r rule: drainCommands.induct)
    case (1 env tick r)
    then show ?case by (cases "commands r") simp_all
  qed
  then show "commands (drainCommands env tick r) = []" "config (drainCommands env tick r) = config r"
    "status (drainCommands env tick r) = status r" "lastClusterTick (drainCommands env tick r) = lastClusterTick r" by simp_all
qed

lemma drain_steps:
  assumes "\<And>i. range_order (env_ord (env i))" and "loop p = LoopDraining tick"
  shows "(room_step (\<lambda>_ _. True))\<^sup>*\<^sup>* p (p\<lparr>room := drainCommands env tick (room p)\<rparr>)"
  using assms
proof (induction env tick "room p" arbitrary: p rule: drainCommands.induct)
  case (1 env tick)
  show ?case
  proof (cases "commands (room p)")
    case (Cons c cs)
    let ?q = "p\<lparr>room := handleCommand (env 0) c tick ((room p)\<lparr>commands := cs\<rparr>)\<rparr>"
    have "room_step (\<lambda>_ _. True) p ?q" by (rule room_step.handle [OF 1(3) Cons 1(2)]) simp_all
    moreover have "(room_step (\<lambda>_ _. True))\<^sup>*\<^sup>* ?q (?q\<lparr>room := drainCommands (\<lambda>i. env (Suc i)) tick (room ?q)\<rparr>)"
      by (rule 1(1) [OF Cons]) (use 1(2,3) in simp_all)
    ultimately show ?thesis using Cons by (simp add: converse_rtranclp_into_rtranclp)
  qed simp
qed

lemma tick_steps:
  assumes "\<And>i. range_order (env_ord (env i))" and "loop p = LoopIdle"
  shows "(room_step (\<lambda>_ _. True))\<^sup>*\<^sup>* p (p\<lparr>room := snd (tick_room env (room p))\<rparr>)"
proof -
  let ?r = "tick_begin (env 0) (room p)"
  let ?p1 = "p\<lparr>room := ?r, loop := LoopDraining (currentTick ?r)\<rparr>"
  let ?d = "drainCommands (\<lambda>i. env (3 + i)) (currentTick ?r) ?r"
  have "room_step (\<lambda>_ _. True) p ?p1" by (rule room_step.tick_begin [OF assms(2,1) refl])
  moreover have "(room_step (\<lambda>_ _. True))\<^sup>*\<^sup>* ?p1 (?p1\<lparr>room := ?d\<rparr>)"
    using drain_steps [of "\<lambda>i. env (3 + i)" ?p1 "currentTick ?r"] assms(1) by simp
  moreover have "room_step (\<lambda>_ _. True) (?p1\<lparr>room := ?d\<rparr>)
      (?p1\<lparr>room := snd (tick_end env (currentTick ?r) ?d), loop := LoopIdle\<rparr>)"
    using room_step.tick_end [of "?p1\<lparr>room := ?d\<rparr>" "currentTick ?r" env] assms(1) by (simp add: drain_frame)
  ultimately have "(room_step (\<lambda>_ _. True))\<^sup>*\<^sup>* p (?p1\<lparr>room := snd (tick_end env (currentTick ?r) ?d), loop := LoopIdle\<rparr>)"
    by (meson converse_rtranclp_into_rtranclp rtranclp.rtrancl_into_rtrancl)
  moreover have "?p1\<lparr>room := snd (tick_end env (currentTick ?r) ?d), loop := LoopIdle\<rparr> = p\<lparr>room := snd (tick_room env (room p))\<rparr>"
    using assms(2) by (cases p) (simp add: tick_room_def Let_def)
  ultimately show ?thesis by simp
qed

lemma member_invD:
  assumes "member_inv r"
  shows "playerCount r = word_of_nat (map_len (activeSessions r))"
    and "fmlookup (userSessionIndex r) u = Some s \<longleftrightarrow>
      u \<noteq> [] \<and> (\<exists>att. fmlookup (activeSessions r) s = Some att \<and> att_userID att = u)"
    and "pid |\<in>| fmdom (players r) \<longleftrightarrow> (\<exists>s att. fmlookup (activeSessions r) s = Some att \<and> att_playerID att = pid)"
    and "fmlookup (activeSessions r) s = Some att \<Longrightarrow> fmlookup (activeSessions r) s' = Some att' \<Longrightarrow>
      att_playerID att = att_playerID att' \<Longrightarrow> s = s'"
  using assms unfolding member_inv_def by simp_all

section \<open>A small room for the witnesses\<close>

definition demo_spec :: RoomSpec where
  "demo_spec = \<lparr>rs_LogicalRoomID = ''expo'', rs_InstanceID = ''expo-1'', rs_Config = DefaultRoomConfig\<rparr>"

definition demo_env :: go_env where
  "demo_env = \<lparr>env_now = 5, env_ord = sorted_order\<rparr>"

definition demo_cmd :: "RoomCommandKind \<Rightarrow> string \<Rightarrow> string \<Rightarrow> string \<Rightarrow> RoomCommand" where
  "demo_cmd kind sid pid uid =
     \<lparr>cmd_Kind = kind, cmd_SessionID = sid, cmd_PlayerID = pid, cmd_UserID = uid, cmd_Payload = OtherPayload, cmd_Timestamp = 1\<rparr>"

definition demo_running :: room_proc where
  "demo_running = \<lparr>room = (newRoom demo_spec)\<lparr>status := RoomStatusRunning\<rparr>, loop = LoopIdle, cancelled = False, waiting = 0\<rparr>"

definition demo_queued :: "RoomCommand list \<Rightarrow> room_proc" where
  "demo_queued cs = demo_running\<lparr>room := (room demo_running)\<lparr>commands := cs\<rparr>\<rparr>"

definition demo_ticked :: "RoomCommand list \<Rightarrow> Room" where
  "demo_ticked cs = snd (tick_room (\<lambda>_. demo_env) (room (demo_queued cs)))"

lemma demo_env_range [simp]: "range_order (env_ord demo_env)"
  by (simp add: demo_env_def)

lemma reachable_step: "room_reachable ok spec p \<Longrightarrow> room_step ok p q \<Longrightarrow> room_reachable ok spec q"
  by (simp add: room_reachable_def rtranclp.rtrancl_into_rtrancl)

lemma demo_running_reachable: "room_reachable ok demo_spec demo_running"
proof -
  have "Start (newRoom demo_spec) = (None, room demo_running)"
    by (simp add: Start_def demo_running_def newRoom_def Let_def)
  from room_step.start [of "new_proc demo_spec" "room demo_running" ok] this
  have "room_step ok (new_proc demo_spec) demo_running" by (simp add: new_proc_def demo_running_def)
  then show ?thesis by (auto simp: room_reachable_def)
qed

lemma demo_enqueue:
  "length cs < 256 \<Longrightarrow> room_step ok (demo_queued cs) (demo_queued (cs @ [c]))"
  using room_step.enqueue [of c "demo_queued cs" None "room (demo_queued (cs @ [c]))" ok]
  by (simp add: Enqueue_def demo_queued_def demo_running_def newRoom_def Let_def room_config_def demo_spec_def DefaultRoomConfig_def)

lemma demo_queued_reachable: "length cs < 256 \<Longrightarrow> room_reachable ok demo_spec (demo_queued cs)"
proof (induction cs rule: rev_induct)
  case Nil
  have "demo_queued [] = demo_running" by (simp add: demo_queued_def demo_running_def newRoom_def Let_def)
  then show ?case by (simp add: demo_running_reachable)
next
  case (snoc c cs)
  then have "(room_step ok)\<^sup>*\<^sup>* (new_proc demo_spec) (demo_queued cs)" by (simp add: room_reachable_def)
  with demo_enqueue [of cs ok c] snoc.prems show ?case
    by (simp add: room_reachable_def rtranclp.rtrancl_into_rtrancl)
qed

lemma demo_ticked_reachable:
  "length cs < 256 \<Longrightarrow> room_reachable (\<lambda>_ _. True) demo_spec ((demo_queued cs)\<lparr>room := demo_ticked cs\<rparr>)"
  using demo_queued_reachable [of cs "\<lambda>_ _. True"] tick_steps [of "\<lambda>_. demo_env" "demo_queued cs"]
  by (simp add: room_reachable_def demo_ticked_def demo_queued_def demo_running_def)

section \<open>Properties: reachable states\<close>





text \<open>
  C29: With clusters enabled, seeing is mutual. In every reachable state a player is in another
  player's visible set exactly when the other is in its own, a player never sees itself, and
  nobody is listed twice.
\<close>

theorem cluster_visibility_mutual:
  assumes "room_reachable ok spec p" and "cl_Enabled (rc_ClusterConfig (config (room p)))"
  shows "(b \<in> set (VisiblePlayersFor ord a (room p)) \<longleftrightarrow> a \<in> set (VisiblePlayersFor ord' b (room p)))
    \<and> a \<notin> set (VisiblePlayersFor ord a (room p)) \<and> distinct (VisiblePlayersFor ord a (room p))"
proof -
  from reachable_room_inv [OF assms(1)] obtain ids where w: "well_clustered ids (clusterOutput (room p))"
    by (auto simp: room_inv_def cluster_inv_def)
  then have "distinct (cluster_interest (room p) a)"
    by (auto simp: cluster_interest_def well_clustered_def members_def split: option.split)
  with assms(2) show ?thesis by (auto simp: VisiblePlayersFor_def set_cluster_interest mates_iff [OF w])
qed

definition demo_two :: Room where
  "demo_two = demo_ticked [demo_cmd CmdJoin ''s1'' ''p1'' ''ann'', demo_cmd CmdJoin ''s2'' ''p2'' ''bob'']"

lemma demo_two_reachable: "\<exists>p. room_reachable (\<lambda>_ _. True) demo_spec p \<and> room p = demo_two"
  using demo_ticked_reachable [of "[demo_cmd CmdJoin ''s1'' ''p1'' ''ann'', demo_cmd CmdJoin ''s2'' ''p2'' ''bob'']"]
  by (force simp: demo_two_def)

theorem cluster_visibility_mutual_witness:
  "''p2'' \<in> set (VisiblePlayersFor sorted_order ''p1'' demo_two) \<and> ''p1'' \<in> set (VisiblePlayersFor sorted_order ''p2'' demo_two)"
proof -
  obtain p where p: "room_reachable (\<lambda>_ _. True) demo_spec p" "room p = demo_two" using demo_two_reachable by blast
  have "cl_Enabled (rc_ClusterConfig (config demo_two))" by code_simp
  moreover have "''p2'' \<in> set (VisiblePlayersFor sorted_order ''p1'' demo_two)" by code_simp
  ultimately show ?thesis
    using cluster_visibility_mutual [OF p(1), of "''p2''" sorted_order "''p1''" sorted_order] p(2) by simp
qed

section \<open>Properties: commands\<close>



text \<open>
  A user joins once. A join for a user the room already has changes nothing at all; any other
  join attaches the session, indexes the user, puts a fresh active player at the origin into
  the player map and the spatial index, and marks the clusters for recomputation.
\<close>

theorem Join_effect:
  assumes "room_inv r" and "cmd_Kind cmd = CmdJoin"
  shows "let r' = handleCommand env cmd tick r; uid = cmd_UserID cmd; pid = cmd_PlayerID cmd
    in if uid \<noteq> [] \<and> HasUser uid r then r' = r
       else fmlookup (activeSessions r') (cmd_SessionID cmd) = Some \<lparr>att_playerID = pid, att_userID = uid\<rparr>
         \<and> (uid \<noteq> [] \<longrightarrow> fmlookup (userSessionIndex r') uid = Some (cmd_SessionID cmd))
         \<and> fmlookup (players r') pid = Some (SetStatus PlayerStatusActive (NewPlayerState pid uid (cmd_Timestamp cmd)))
         \<and> Spatial_Get pid (spatial r') = Some (Pos (FNum 0) (FNum 0))
         \<and> playerCount r' = playerCount r + 1 \<and> clusterMembershipDirty r'"
proof -
  have h: "handleCommand env cmd tick r = handle_Join cmd r" using assms(2) by (simp add: handleCommand_def)
  from assms(1) have g: "grid_inv (spatial r)" "maxWorldCoord (spatial r) = FNum 100000"
    by (simp_all add: room_inv_def index_inv_def)
  show ?thesis
  proof (cases rule: Join_cases [of cmd r])
    case rejected
    then show ?thesis by (simp add: h)
  next
    case (joined r')
    then have "Spatial_Get (cmd_PlayerID cmd) (spatial r') = Some (Pos (FNum 0) (FNum 0))"
      by (simp add: Spatial_Get_def Update_entities [OF g(1) origin_valid [OF g(2)]])
    with joined show ?thesis by (auto simp: h Let_def)
  qed
qed

theorem Join_effect_witness:
  "handleCommand demo_env (demo_cmd CmdJoin ''s3'' ''p3'' ''bob'') 2 demo_two = demo_two"
proof -
  obtain p where p: "room_reachable (\<lambda>_ _. True) demo_spec p" "room p = demo_two" using demo_two_reachable by blast
  have "HasUser ''bob'' demo_two" by code_simp
  with Join_effect [OF reachable_room_inv [OF p(1)], of "demo_cmd CmdJoin ''s3'' ''p3'' ''bob''" demo_env 2] p(2)
  show ?thesis by (simp add: demo_cmd_def Let_def)
qed

text \<open>
  Player input. An input is applied exactly when its position and rotation are finite, the
  rotation is not the zero quaternion, its timestamp is positive and the player is in the
  room; then the player has the new transform stamped with the tick, the next version (modulo
  2^32) and the dirty mark, its place in the spatial index follows if the position is within
  the world, and no other player and no session changes. In every other case nothing changes.
\<close>

theorem PlayerInput_effect:
  assumes "room_inv r" and "cmd_Kind cmd = CmdPlayerInput" and "cmd_Payload cmd = InputPayload input"
  shows "let r' = handleCommand env cmd tick r; pid = cmd_PlayerID cmd; t = pi_Transform input;
       pos = Pos (v_X (pt_Position t)) (v_Z (pt_Position t))
    in if finite_vec (pt_Position t) \<and> finite_quat (pt_Rotation t)
          \<and> pt_Rotation t \<noteq> \<lparr>q_X = FNum 0, q_Y = FNum 0, q_Z = FNum 0, q_W = FNum 0\<rparr>
          \<and> 0 < pi_Timestamp input \<and> pid |\<in>| fmdom (players r)
       then (\<exists>p. fmlookup (players r) pid = Some p \<and> GetPlayerState pid r' = Some (t\<lparr>pt_Tick := tick\<rparr>, ps_Version p + 1))
         \<and> pid |\<in>| dirtyPlayers r' \<and> activeSessions r' = activeSessions r
         \<and> (\<forall>q. q \<noteq> pid \<longrightarrow> fmlookup (players r') q = fmlookup (players r) q)
         \<and> Spatial_Get pid (spatial r') =
             (if validatePosition (spatial r) pos = None then Some pos else Spatial_Get pid (spatial r))
       else r' = r"
proof -
  let ?pid = "cmd_PlayerID cmd" and ?t = "pi_Transform input"
  let ?pos = "Pos (v_X (pt_Position ?t)) (v_Z (pt_Position ?t))"
  have g: "grid_inv (spatial r)" using assms(1) by (simp add: room_inv_def index_inv_def)
  have h: "handleCommand env cmd tick r =
      (if ValidatePlayerInput input = None then move_player env ?pid ?t tick r else r)"
    using assms(2,3) by (auto simp: handleCommand_def handle_PlayerInput_def split: option.split)
  note valid = ValidatePlayerInput_None [of input]
  show ?thesis
  proof (cases rule: move_cases [of r ?pid env ?t tick])
    case absent
    then have "?pid |\<notin>| fmdom (players r)" by (simp add: fmdom_notI)
    with absent show ?thesis by (simp add: h Let_def)
  next
    case (moved p r')
    have "?pid |\<in>| fmdom (players r)" using moved(1) by (rule fmdomI)
    moreover have "Spatial_Get ?pid (spatial r') =
        (if validatePosition (spatial r) ?pos = None then Some ?pos else Spatial_Get ?pid (spatial r))"
      by (auto simp: moved(4) Spatial_Get_def Update_entities [OF g] Update_rejected)
    ultimately show ?thesis
      using moved(1,3,5,6) by (simp add: h valid moved(2) Let_def GetPlayerState_def Snapshot_def)
  qed
qed

theorem PlayerInput_effect_witness:
  "let t = (ps_Transform (NewPlayerState [] [] 0))\<lparr>pt_Position := \<lparr>v_X = FNum 3, v_Y = FNum 0, v_Z = FNum 4\<rparr>\<rparr>;
       cmd = (demo_cmd CmdPlayerInput ''s1'' ''p1'' ''ann'')
               \<lparr>cmd_Payload := InputPayload \<lparr>pi_Seq = 1, pi_Transform = t, pi_Timestamp = 9\<rparr>\<rparr>
   in ''p1'' |\<in>| dirtyPlayers (handleCommand demo_env cmd 2 demo_two)"
proof -
  obtain p where p: "room_reachable (\<lambda>_ _. True) demo_spec p" "room p = demo_two" using demo_two_reachable by blast
  have "''p1'' |\<in>| fmdom (players demo_two)" by code_simp
  with PlayerInput_effect [OF reachable_room_inv [OF p(1)], of "(demo_cmd CmdPlayerInput ''s1'' ''p1'' ''ann'')
      \<lparr>cmd_Payload := InputPayload \<lparr>pi_Seq = 1, pi_Transform = (ps_Transform (NewPlayerState [] [] 0))
         \<lparr>pt_Position := \<lparr>v_X = FNum 3, v_Y = FNum 0, v_Z = FNum 4\<rparr>\<rparr>, pi_Timestamp = 9\<rparr>\<rparr>" _ demo_env 2] p(2)
  show ?thesis
    by (simp add: demo_cmd_def Let_def finite_vec_def finite_quat_def NewPlayerState_def IdentityQuaternion_def)
qed

end
