(* ===== verification/RoomLifecycle.thy ===== *)
theory RoomLifecycle
  imports RoomProperties
begin

text \<open>
  The loop over time: a tick as a sequence of steps, starting and stopping, the schedule of
  cluster recomputation and of broadcasts, and the room behaviours that differ from what its
  comments say.
\<close>

section \<open>Lemmas: counting broadcast ticks\<close>

lemma card_multiples:
  assumes "0 < d"
  shows "card {n \<in> {1..N}. d dvd n} = N div (d::nat)"
proof -
  have "{n \<in> {1..N}. d dvd n} = (\<lambda>k. d * k) ` {1..N div d}"
    using assms by (auto simp: image_iff dvd_def less_eq_div_iff_mult_less_eq mult.commute Suc_le_eq)
  moreover have "inj_on (\<lambda>k. d * k) {1..N div d}" using assms by (auto simp: inj_on_def)
  ultimately show ?thesis by (simp add: card_image)
qed

lemma word_mod_zero:
  assumes "n < 2 ^ 32" and "d < 2 ^ 32"
  shows "(word_of_nat n :: u32) mod word_of_nat d = 0 \<longleftrightarrow> d dvd n"
proof -
  have "(word_of_nat n :: u32) mod word_of_nat d = 0 \<longleftrightarrow> unat ((word_of_nat n :: u32) mod word_of_nat d) = 0"
    by (simp add: unat_eq_zero)
  also have "\<dots> \<longleftrightarrow> n mod d = 0"
    using assms by (simp add: unat_mod_distrib unat_of_nat take_bit_nat_eq_self)
  finally show ?thesis by (simp add: dvd_eq_mod_eq_0)
qed

section \<open>Properties: ticks and lifecycle\<close>







text \<open>
  The command queue. In every reachable state the queue holds at most CommandQueueSize
  commands. A command is accepted exactly when the room is running and the queue has room, and
  is then last in line; a refused command leaves the room as it was.
\<close>

theorem command_queue_bounded:
  assumes "room_reachable ok spec p"
  shows "int (length (commands (room p))) \<le> CommandQueueSize (config (room p))
    \<and> (case Enqueue cmd (room p) of
         (None, r) \<Rightarrow> status (room p) = RoomStatusRunning
           \<and> int (length (commands (room p))) < CommandQueueSize (config (room p))
           \<and> r = (room p)\<lparr>commands := commands (room p) @ [cmd]\<rparr>
       | (Some e, r) \<Rightarrow> r = room p
           \<and> (status (room p) \<noteq> RoomStatusRunning \<or> int (length (commands (room p))) = CommandQueueSize (config (room p))))"
  using reachable_lifecycle [OF assms] by (simp add: lifecycle_inv_def Enqueue_def)

theorem command_queue_bounded_witness: "int (length (commands (demo_ticked []))) \<le> CommandQueueSize (config (demo_ticked []))"
  using command_queue_bounded [OF demo_ticked_reachable [of "[]"]] by simp

section \<open>Properties: the schedule\<close>

text \<open>
  C24: Clusters are fresh at the end of every tick. With clusters enabled on a valid configuration
  and an interval between 1 and 2^32 - 1, after the recompute phase no membership change is
  pending, the clusters partition players that are in the room, and the last recompute is less
  than the interval ago, also when the tick counter has wrapped.
\<close>

theorem recluster_fresh:
  assumes "room_inv r" and "\<And>i. range_order (env_ord (env i))"
    and "cl_Enabled (rc_ClusterConfig (config r))" and "validateConfig (rc_ClusterConfig (config r)) = None"
    and "0 < cl_ReclusterIntervalTicks (rc_ClusterConfig (config r))"
    and "cl_ReclusterIntervalTicks (rc_ClusterConfig (config r)) < 2 ^ 32"
  shows "let r' = snd (tick_end env tick r)
    in \<not> clusterMembershipDirty r'
       \<and> (\<exists>ids \<subseteq> fset (fmdom (players r')). well_clustered ids (clusterOutput r'))
       \<and> uint (tick - lastClusterTick r') < cl_ReclusterIntervalTicks (rc_ClusterConfig (config r))"
proof -
  let ?n = "cl_ReclusterIntervalTicks (rc_ClusterConfig (config r))"
  let ?r = "if shouldRecomputeCluster tick r then recomputeCluster (env 1) tick r else r"
  have n: "uint (word_of_int ?n :: u32) = ?n" using assms(5,6) by (simp add: uint_word_of_int)
  have "\<not> clusterMembershipDirty ?r \<and> (\<exists>ids \<subseteq> fset (fmdom (players ?r)). well_clustered ids (clusterOutput ?r))
      \<and> uint (tick - lastClusterTick ?r) < ?n"
  proof (cases "shouldRecomputeCluster tick r")
    case True
    from assms(2) [of 1] show ?thesis
    proof (cases rule: recompute_cases [of "env 1" r tick])
      case (computed out alloc)
      then show ?thesis using True assms(5) by simp
    qed (use assms(4) in simp)
  next
    case False
    then have late: "\<not> word_of_int ?n \<le> tick - lastClusterTick r" and clean: "\<not> clusterMembershipDirty r"
      using assms(3) by (auto simp: shouldRecomputeCluster_def Let_def split: if_splits)
    from late have "uint (tick - lastClusterTick r) < ?n" by (simp add: word_le_def n)
    with False clean assms(1) show ?thesis by (auto simp: room_inv_def cluster_inv_def)
  qed
  then show ?thesis by (cases "isBroadcastTick tick ?r") (simp_all add: tick_end_def Let_def)
qed

theorem recluster_fresh_witness:
  "\<not> clusterMembershipDirty (snd (tick_end (\<lambda>_. demo_env) 7 demo_two))"
proof -
  obtain p where p: "room_reachable (\<lambda>_ _. True) demo_spec p" "room p = demo_two" using demo_two_reachable by blast
  have "rc_ClusterConfig (config demo_two) = DefaultClusterConfig" by code_simp
  with recluster_fresh [of demo_two "\<lambda>_. demo_env" 7] reachable_room_inv [OF p(1)] p(2)
  show ?thesis by (simp add: DefaultClusterConfig_def validateConfig_def Let_def)
qed

text \<open>
  The broadcast cadence. When the broadcast rate is positive and below the tick rate, exactly
  every (TickRateHz div BroadcastRateHz)-th tick broadcasts: of the first N ticks, N div that
  number, for every N the 32-bit counter can reach. At a broadcast rate of the tick rate or
  above every tick broadcasts.
\<close>

theorem broadcast_cadence:
  assumes "0 < BroadcastRateHz (config r)" and "TickRateHz (config r) < 2 ^ 32" and "N < 2 ^ 32"
  shows "if BroadcastRateHz (config r) < TickRateHz (config r)
    then card {n \<in> {1..N}. isBroadcastTick (word_of_nat n) r} = N div nat (TickRateHz (config r) div BroadcastRateHz (config r))
    else 0 < TickRateHz (config r) \<longrightarrow> isBroadcastTick t r"
proof (cases "BroadcastRateHz (config r) < TickRateHz (config r)")
  case True
  let ?t = "TickRateHz (config r)" and ?b = "BroadcastRateHz (config r)"
  define d where "d = nat (?t div ?b)"
  have pos: "1 \<le> ?t div ?b" using True assms(1) by (simp add: pos_imp_zdiv_pos_iff int_one_le_iff_zero_less)
  have "?t div ?b \<le> ?t div 1" using True assms(1) by (intro zdiv_mono2) auto
  with assms(2) have d: "0 < d" "d < 2 ^ 32" using pos by (auto simp: d_def)
  have ratio: "(word_of_int (go_div ?t ?b) :: u32) = word_of_nat d"
    using True assms(1) pos by (simp add: go_div_nonneg d_def)
  have "(word_of_nat d :: u32) \<noteq> 0" using d by (simp add: word_of_nat_eq_0_iff nat_dvd_not_less)
  then have "isBroadcastTick (word_of_nat n) r \<longleftrightarrow> d dvd n" if "n \<le> N" for n
    using that True assms(1,3) d by (simp add: isBroadcastTick_def ratio Let_def word_mod_zero)
  then have "{n \<in> {1..N}. isBroadcastTick (word_of_nat n) r} = {n \<in> {1..N}. d dvd n}" by auto
  then have "card {n \<in> {1..N}. isBroadcastTick (word_of_nat n) r} = N div d" using card_multiples [OF d(1)] by simp
  with True show ?thesis by (simp add: d_def)
qed (use assms in \<open>simp add: isBroadcastTick_def\<close>)

theorem broadcast_cadence_witness:
  "card {n \<in> {1..100}. isBroadcastTick (word_of_nat n) (newRoom demo_spec)} = 50"
proof -
  have "TickRateHz (config (newRoom demo_spec)) = 20" "BroadcastRateHz (config (newRoom demo_spec)) = 10"
    by (simp_all add: newRoom_def demo_spec_def room_config_def DefaultRoomConfig_def Let_def)
  then show ?thesis using broadcast_cadence [of "newRoom demo_spec" 100] by simp
qed

text \<open>The batch of one session, applied to a view that agrees with its snapshot.\<close>

lemma batch_shows:
  assumes "range_order ord" and "set (visible_for ord r (att_playerID att) ps) \<subseteq> fset (fmdom (players r))"
    and "fmlookup (activeSessions r) sid = Some att" and "fmlookup (players r) (att_playerID att) = Some ps"
    and "coherent hist (snapshot_of (snapshotCache r) sid) v" and "versions_name hist (players r)"
  shows "\<exists>pd. fmlookup (fst (buildDeltaBatches ord tick r)) sid = Some \<lparr>db_Tick = tick, db_PlayerDelta = Some pd, db_ObjectDelta = None\<rparr>
    \<and> apply_delta pd v = (\<lambda>q. if q \<in> set (VisiblePlayersFor ord (att_playerID att) r) then GetPlayerState q r else None)
    \<and> coherent hist (snapshot_of (snapshotCache (snd (buildDeltaBatches ord tick r))) sid) (apply_delta pd v)"
proof -
  let ?pid = "att_playerID att" and ?snap = "snapshot_of (snapshotCache r) sid"
  let ?vis = "visible_for ord r ?pid ps"
  obtain pd snap where b: "BuildPlayerDelta ord tick ?vis ?snap (players r) = (pd, snap)" by fastforce
  have bf: "batch_for ord tick r sid ?snap = Some (pd, snap)" by (simp add: batch_for_def assms(3,4) b)
  have vis: "?vis = VisiblePlayersFor ord ?pid r" by (simp add: visible_for_def VisiblePlayersFor_def assms(4))
  have "apply_delta pd v = (\<lambda>q. if q \<in> set ?vis then GetPlayerState q r else None)"
    using apply_build [OF assms(1) b assms(5,6)] assms(2)
    by (auto simp: fun_eq_iff shown_def GetPlayerState_def fmlookup_dom_iff split: option.split)
  moreover have "coherent hist snap (apply_delta pd v)" by (rule coherent_build [OF assms(1) b assms(5,6)])
  ultimately show ?thesis
    using buildDeltaBatches_lookup [OF assms(1), of tick r sid] by (simp add: bf vis)
qed

lemma batch_mirrors:
  assumes "room_inv r" and "range_order ord"
    and "\<not> clusterMembershipDirty r \<or> \<not> cl_Enabled (rc_ClusterConfig (config r))"
    and "fmlookup (activeSessions r) sid = Some att" and "fmlookup (players r) (att_playerID att) = Some ps"
    and "coherent hist (snapshot_of (snapshotCache r) sid) v" and "versions_name hist (players r)"
  shows "\<exists>pd. fmlookup (fst (buildDeltaBatches ord tick r)) sid = Some \<lparr>db_Tick = tick, db_PlayerDelta = Some pd, db_ObjectDelta = None\<rparr>
    \<and> apply_delta pd v = (\<lambda>q. if q \<in> set (VisiblePlayersFor ord (att_playerID att) r) then GetPlayerState q r else None)
    \<and> coherent hist (snapshot_of (snapshotCache (snd (buildDeltaBatches ord tick r))) sid) (apply_delta pd v)"
  by (rule batch_shows [OF assms(2) visible_present [OF assms(1-3)] assms(4-7)])

text \<open>
  A broadcast brings each client up to date. Once clusters are fresh (or when the radius is
  used), every attached session whose player is in the room gets a batch for the tick; a
  client that held what the session's snapshot records and applies the batch holds exactly the
  players visible to it, at their current transform and version, and the snapshot records just
  that again. Sessions are independent: each batch depends on its own snapshot only.
\<close>

theorem broadcast_mirrors_room:
  assumes "room_inv r" and "range_order ord"
    and "\<not> clusterMembershipDirty r \<or> \<not> cl_Enabled (rc_ClusterConfig (config r))"
    and "fmlookup (activeSessions r) sid = Some att" and "fmlookup (players r) (att_playerID att) = Some ps"
    and "coherent hist (snapshot_of (snapshotCache r) sid) v" and "versions_name hist (players r)"
  shows "\<exists>pd. fmlookup (fst (buildDeltaBatches ord tick r)) sid = Some \<lparr>db_Tick = tick, db_PlayerDelta = Some pd, db_ObjectDelta = None\<rparr>
    \<and> apply_delta pd v = (\<lambda>q. if q \<in> set (VisiblePlayersFor ord (att_playerID att) r) then GetPlayerState q r else None)
    \<and> coherent hist (snapshot_of (snapshotCache (snd (buildDeltaBatches ord tick r))) sid) (apply_delta pd v)"
  by (rule batch_mirrors [OF assms])

theorem broadcast_mirrors_room_witness:
  "\<exists>pd. fmlookup (fst (buildDeltaBatches sorted_order 2 demo_two)) ''s1'' =
      Some \<lparr>db_Tick = 2, db_PlayerDelta = Some pd, db_ObjectDelta = None\<rparr>
     \<and> apply_delta pd (\<lambda>_. None) ''p2'' = GetPlayerState ''p2'' demo_two \<and> apply_delta pd (\<lambda>_. None) ''p1'' = None"
proof -
  obtain p where p: "room_reachable (\<lambda>_ _. True) demo_spec p" "room p = demo_two" using demo_two_reachable by blast
  let ?t = "ps_Transform (NewPlayerState [] [] 0)"
  have "fmpred (\<lambda>_ q. ps_Transform q = ?t) (players demo_two)" by code_simp
  then have names: "versions_name (\<lambda>_ _. ?t) (players demo_two)" by (simp add: versions_name_def fmpred_iff)
  have "fmdom (cs_VisiblePlayers (snapshot_of (snapshotCache demo_two) ''s1'')) = {||}" by code_simp
  then have coh: "coherent (\<lambda>_ _. ?t) (snapshot_of (snapshotCache demo_two) ''s1'') (\<lambda>_. None)"
    by (simp add: coherent_def fmdom_notD)
  have att: "fmlookup (activeSessions demo_two) ''s1'' = Some \<lparr>att_playerID = ''p1'', att_userID = ''ann''\<rparr>" by code_simp
  have "fmlookup (players demo_two) ''p1'' \<noteq> None" by code_simp
  then obtain ps where ps: "fmlookup (players demo_two) ''p1'' = Some ps" by blast
  have vis: "VisiblePlayersFor sorted_order ''p1'' demo_two = [''p2'']" by code_simp
  have "\<not> clusterMembershipDirty demo_two" by code_simp
  with broadcast_mirrors_room [OF reachable_room_inv [OF p(1)] sorted_order_range, of "''s1''" _ ps "\<lambda>_ _. ?t" "\<lambda>_. None" 2]
    p(2) names coh att ps vis
  show ?thesis by fastforce
qed

section \<open>Properties: where the code and its comments part\<close>

text \<open>
  A leave trusts the player named in the command. Unlike a disconnect it removes the player
  of the command, not the one attached to the session: with a wrong name the leaving session's
  own player stays in the room and in the spatial index without a session, and another
  session's player disappears while that session stays attached.
\<close>

theorem leave_with_wrong_player:
  "let r = handleCommand demo_env (demo_cmd CmdLeave ''s1'' ''p2'' ''ann'') 2 demo_two
   in \<not> HasSession ''s1'' r \<and> GetPlayerState ''p1'' r \<noteq> None \<and> Spatial_Get ''p1'' (spatial r) \<noteq> None
      \<and> HasSession ''s2'' r \<and> GetPlayerState ''p2'' r = None"
  by code_simp

text \<open>
  The player limit is never enforced. A room configured for at most one player accepts a
  second one: no operation of the room reads MaxPlayers.
\<close>

theorem max_players_not_enforced:
  "let r = newRoom (demo_spec\<lparr>rs_Config := DefaultRoomConfig\<lparr>MaxPlayers := 1\<rparr>\<rparr>);
       r = handleCommand demo_env (demo_cmd CmdJoin ''s2'' ''p2'' ''bob'') 1
             (handleCommand demo_env (demo_cmd CmdJoin ''s1'' ''p1'' ''ann'') 1 r)
   in MaxPlayers (config r) < PlayerCount r"
  by code_simp

text \<open>
  A move out of the world splits the player's position. A transform 200 km away is stored and
  broadcast as the player's position, while the spatial index refuses it and keeps the old
  place, so radius queries around that place still find the player there.
\<close>

theorem move_out_of_world_splits_position:
  "let far = (ps_Transform (NewPlayerState [] [] 0))\<lparr>pt_Position := \<lparr>v_X = FNum 200000, v_Y = FNum 0, v_Z = FNum 0\<rparr>\<rparr>;
       r = handleCommand demo_env ((demo_cmd CmdUpdatePlayerTransform ''s1'' ''p1'' ''ann'')\<lparr>cmd_Payload := TransformPayload far\<rparr>) 2 demo_two
   in map_option (\<lambda>(t, _). v_X (pt_Position t)) (GetPlayerState ''p1'' r) = Some (FNum 200000)
      \<and> Spatial_Get ''p1'' (spatial r) = Some (Pos (FNum 0) (FNum 0))
      \<and> ''p1'' \<in> set (NearbyPlayersAt sorted_order \<lparr>v_X = FNum 0, v_Y = FNum 0, v_Z = FNum 0\<rparr> (FNum 30) r)"
  by code_simp

text \<open>
  A session that joins again for another user locks the first user out. The first user's entry in
  the user index is never removed: after the session is gone no session is attached, yet the
  counter says one player and every later join of that user is rejected.
\<close>

theorem second_join_locks_user_out:
  "let r = newRoom demo_spec;
       r = handleCommand demo_env (demo_cmd CmdJoin ''s1'' ''p1'' ''ann'') 1 r;
       r = handleCommand demo_env (demo_cmd CmdJoin ''s1'' ''p2'' ''bob'') 1 r;
       r = handleCommand demo_env (demo_cmd CmdDisconnect ''s1'' [] []) 1 r
   in map_len (activeSessions r) = 0 \<and> PlayerCount r = 1 \<and> HasUser ''ann'' r
      \<and> \<not> HasSession ''s9'' (handleCommand demo_env (demo_cmd CmdJoin ''s9'' ''p9'' ''ann'') 2 r)"
  by code_simp

text \<open>
  C38: A player that comes back can stay where it was for others. A join starts the versions of a player
  at 0 again, but the snapshots of viewers that have not yet been told of its leaving still hold the version
  they were sent. If that was version 1, then after the join and one move the player is at its new place with
  version 1, and the next delta of such a viewer says nothing about it.
\<close>

theorem rejoin_hides_move:
  assumes "range_order ord" and "cmd_Kind join = CmdJoin" and "cmd_UserID join = [] \<or> \<not> HasUser (cmd_UserID join) r"
    and "cmd_Kind move = CmdUpdatePlayerTransform" and "cmd_Payload move = TransformPayload t" and "cmd_PlayerID move = cmd_PlayerID join"
    and "r' = handleCommand env' move tick (handleCommand env join tick r)"
    and "fmlookup (cs_VisiblePlayers snap) (cmd_PlayerID join) = Some 1" and "cmd_PlayerID join \<in> set vis"
    and "BuildPlayerDelta ord k vis snap (players r') = (d, snap')"
  shows "GetPlayerState (cmd_PlayerID join) r' = Some (t\<lparr>pt_Tick := tick\<rparr>, 1)
    \<and> cmd_PlayerID join \<notin> pe_PlayerID ` set (pd_Enters d) \<union> pu_PlayerID ` set (pd_Updates d) \<union> pl_PlayerID ` set (pd_Leaves d)"
proof -
  let ?pid = "cmd_PlayerID join"
  define r1 where "r1 = handleCommand env join tick r"
  have "fmlookup (players r1) ?pid = Some (SetStatus PlayerStatusActive (NewPlayerState ?pid (cmd_UserID join) (cmd_Timestamp join)))"
    using assms(2,3) by (auto simp: r1_def handleCommand_def handle_Join_def HasUser_def Let_def)
  moreover have "r' = move_player env' ?pid t tick r1" unfolding assms(7) r1_def [symmetric]
    using assms(4-6) by (simp add: handleCommand_def handle_UpdatePlayerTransform_def)
  ultimately obtain p where p: "fmlookup (players r') ?pid = Some p" "ps_Version p = 1" "ps_Transform p = t\<lparr>pt_Tick := tick\<rparr>"
    by (auto simp: move_player_def SetStatus_def Snapshot_def Let_def)
  note b = BuildPlayerDelta_result(5-7) [OF assms(1,10)]
  have "?pid \<notin> pe_PlayerID ` set (pd_Enters d)" unfolding b(1) using assms(8) by (auto simp: enter_of_def)
  moreover have "?pid \<notin> pu_PlayerID ` set (pd_Updates d)" unfolding b(2) using assms(8) p by (auto simp: update_of_def)
  moreover have "?pid \<notin> pl_PlayerID ` set (pd_Leaves d)" unfolding b(3) using assms(9) by simp
  ultimately show ?thesis using p by (simp add: GetPlayerState_def Snapshot_def)
qed

definition demo_goto :: "rat \<Rightarrow> RoomCommand" where
  "demo_goto x = (demo_cmd CmdUpdatePlayerTransform ''s2'' ''p2'' ''bob'')\<lparr>cmd_Payload :=
     TransformPayload ((ps_Transform (NewPlayerState [] [] 0))\<lparr>pt_Position := \<lparr>v_X = FNum x, v_Y = FNum 0, v_Z = FNum 0\<rparr>\<rparr>)\<rparr>"

theorem rejoin_hides_move_witness:
  "let r = handleCommand demo_env (demo_cmd CmdLeave ''s2'' ''p2'' ''bob'') 3 demo_two;
       r' = handleCommand demo_env (demo_goto 9) 3 (handleCommand demo_env (demo_cmd CmdJoin ''s2'' ''p2'' ''bob'') 3 r);
       snap = \<lparr>cs_VisiblePlayers = fmupd ''p2'' 1 fmempty\<rparr>
   in map_option (\<lambda>tv. v_X (pt_Position (fst tv))) (GetPlayerState ''p2'' r') = Some (FNum 9)
      \<and> ''p2'' \<notin> pu_PlayerID ` set (pd_Updates (fst (BuildPlayerDelta sorted_order 4 [''p2''] snap (players r'))))"
proof -
  let ?r = "handleCommand demo_env (demo_cmd CmdLeave ''s2'' ''p2'' ''bob'') 3 demo_two"
  have "\<not> HasUser ''bob'' ?r" by code_simp
  with rejoin_hides_move [OF sorted_order_range, where join = "demo_cmd CmdJoin ''s2'' ''p2'' ''bob''" and move = "demo_goto 9" and r = ?r
      and env = demo_env and env' = demo_env and tick = 3 and k = 4 and vis = "[''p2'']" and snap = "\<lparr>cs_VisiblePlayers = fmupd ''p2'' 1 fmempty\<rparr>",
      OF _ _ _ _ _ refl _ _ prod.collapse [symmetric]]
  show ?thesis by (simp add: demo_cmd_def demo_goto_def Let_def)
qed

text \<open>
  A room whose parent context is cancelled without Stop looks alive. Its loop is gone, but the
  status is still running and Enqueue keeps accepting commands that nobody will handle.
\<close>

theorem cancelled_parent_accepts_commands:
  "\<exists>p. room_reachable (\<lambda>_ _. True) demo_spec p \<and> loop p = LoopExited \<and> status (room p) = RoomStatusRunning
     \<and> fst (Enqueue cmd (room p)) = None"
proof -
  let ?p = "demo_running\<lparr>cancelled := True\<rparr>"
  have "room_step (\<lambda>_ _. True) demo_running ?p" by (rule room_step.parent_cancel)
  moreover have "room_step (\<lambda>_ _. True) ?p (?p\<lparr>loop := LoopExited\<rparr>)"
    by (rule room_step.loop_exit) (simp_all add: demo_running_def)
  ultimately have "room_reachable (\<lambda>_ _. True) demo_spec (?p\<lparr>loop := LoopExited\<rparr>)"
    by (metis reachable_step demo_running_reachable)
  then show ?thesis
    by (intro exI conjI) (assumption, simp_all add: demo_running_def Enqueue_def newRoom_def Let_def room_config_def
        demo_spec_def DefaultRoomConfig_def)
qed

end
