(* ===== verification/Registry.thy ===== *)
theory Registry
  imports Room
begin

text \<open>
  The in-memory room registry (\<^verbatim>\<open>internal/game/room/registry.go\<close>). The two indexes of the registry share
  pointers to the instance records, so the records live in a heap. The Go interface
  \<^verbatim>\<open>RoomRegistry\<close> is the locale \<open>room_registry\<close>, interpreted on the in-memory implementation.
\<close>

section \<open>Data\<close>

record RoomInstance =
  ri_InstanceID :: string
  ri_LogicalRoomID :: string
  ri_Status :: RoomStatus
  ri_CreatedAt :: time
  ri_ClosedAt :: "time option"

type_synonym inst_ref = nat

record InMemoryRoomRegistry =
  reg_heap :: "(inst_ref, RoomInstance) fmap"
  reg_next :: inst_ref
  instances :: "(string, inst_ref) fmap"
  byLogical :: "(string, inst_ref list) fmap"

datatype registry_err = InstanceExists string | InstanceNotFound string

section \<open>Operations\<close>

definition NewInMemoryRoomRegistry :: InMemoryRoomRegistry where
  "NewInMemoryRoomRegistry = \<lparr>reg_heap = fmempty, reg_next = 0, instances = fmempty, byLogical = fmempty\<rparr>"

definition Registry_CreateRoom :: "time \<Rightarrow> RoomSpec \<Rightarrow> InMemoryRoomRegistry
    \<Rightarrow> (registry_err + inst_ref) \<times> InMemoryRoomRegistry" where
  "Registry_CreateRoom now spec r =
     (if rs_InstanceID spec |\<in>| fmdom (instances r) then (Inl (InstanceExists (rs_InstanceID spec)), r)
      else let inst = \<lparr>ri_InstanceID = rs_InstanceID spec, ri_LogicalRoomID = rs_LogicalRoomID spec,
                       ri_Status = RoomStatusCreated, ri_CreatedAt = now, ri_ClosedAt = None\<rparr>;
               q = reg_next r;
               l = rs_LogicalRoomID spec
           in (Inr q, r\<lparr>reg_heap := fmupd q inst (reg_heap r), reg_next := q + 1,
                        instances := fmupd (rs_InstanceID spec) q (instances r),
                        byLogical := fmupd l (map_get [] (byLogical r) l @ [q]) (byLogical r)\<rparr>))"

definition Registry_GetRoom :: "string \<Rightarrow> InMemoryRoomRegistry \<Rightarrow> registry_err + inst_ref" where
  "Registry_GetRoom i r =
     (case fmlookup (instances r) i of None \<Rightarrow> Inl (InstanceNotFound i) | Some q \<Rightarrow> Inr q)"

text \<open>A nil slice and an empty one are both the empty list.\<close>

definition ListInstances :: "string \<Rightarrow> InMemoryRoomRegistry \<Rightarrow> inst_ref list" where
  "ListInstances l r = map_get [] (byLogical r) l"

definition MarkClosed :: "time \<Rightarrow> string \<Rightarrow> InMemoryRoomRegistry \<Rightarrow> registry_err option \<times> InMemoryRoomRegistry" where
  "MarkClosed now i r =
     (case fmlookup (instances r) i of
        None \<Rightarrow> (Some (InstanceNotFound i), r)
      | Some q \<Rightarrow>
          (case fmlookup (reg_heap r) q of
             None \<Rightarrow> (None, r)
           | Some inst \<Rightarrow> (None, r\<lparr>reg_heap := fmupd q (inst\<lparr>ri_Status := RoomStatusClosed, ri_ClosedAt := Some now\<rparr>)
                                               (reg_heap r)\<rparr>)))"

text \<open>What a caller can read: the record behind an instance identifier.\<close>

definition instance_of :: "InMemoryRoomRegistry \<Rightarrow> string \<Rightarrow> RoomInstance option" where
  "instance_of r i = Option.bind (fmlookup (instances r) i) (fmlookup (reg_heap r))"

definition same_instance :: "RoomInstance \<Rightarrow> RoomInstance \<Rightarrow> bool" where
  "same_instance x y \<longleftrightarrow> ri_InstanceID y = ri_InstanceID x \<and> ri_LogicalRoomID y = ri_LogicalRoomID x
     \<and> ri_CreatedAt y = ri_CreatedAt x \<and> (ri_Status x = RoomStatusClosed \<longrightarrow> ri_Status y = RoomStatusClosed)"

section \<open>Interface\<close>

text \<open>
  What the room manager relies on, whichever registry is behind the Go interface: a registry is a map
  from identifiers to records, together with the lists of a logical room in order of creation.
\<close>

locale room_registry =
  fixes inv :: "'r \<Rightarrow> bool"
    and look :: "'r \<Rightarrow> string \<Rightarrow> RoomInstance option"
    and listing :: "'r \<Rightarrow> string \<Rightarrow> string list"
    and create :: "time \<Rightarrow> RoomSpec \<Rightarrow> 'r \<Rightarrow> bool \<times> 'r"
    and mark :: "time \<Rightarrow> string \<Rightarrow> 'r \<Rightarrow> bool \<times> 'r"
  assumes create_inv: "inv r \<Longrightarrow> inv (snd (create now spec r))"
    and mark_inv: "inv r \<Longrightarrow> inv (snd (mark now i r))"
    and create_dup: "inv r \<Longrightarrow> look r (rs_InstanceID spec) \<noteq> None \<Longrightarrow> create now spec r = (False, r)"
    and create_new: "inv r \<Longrightarrow> look r (rs_InstanceID spec) = None \<Longrightarrow>
       fst (create now spec r)
       \<and> look (snd (create now spec r)) = (look r)(rs_InstanceID spec \<mapsto>
            \<lparr>ri_InstanceID = rs_InstanceID spec, ri_LogicalRoomID = rs_LogicalRoomID spec,
             ri_Status = RoomStatusCreated, ri_CreatedAt = now, ri_ClosedAt = None\<rparr>)
       \<and> listing (snd (create now spec r)) =
           (listing r)(rs_LogicalRoomID spec := listing r (rs_LogicalRoomID spec) @ [rs_InstanceID spec])"
    and mark_look: "inv r \<Longrightarrow> fst (mark now i r) = (look r i \<noteq> None)
       \<and> look (snd (mark now i r)) = (look r)(i := map_option
            (\<lambda>x. x\<lparr>ri_Status := RoomStatusClosed, ri_ClosedAt := Some now\<rparr>) (look r i))
       \<and> listing (snd (mark now i r)) = listing r"
begin

text \<open>An instance is never forgotten or renamed, and a closed one stays closed.\<close>

lemma create_keeps:
  assumes "inv r" "look r i = Some x"
  shows "\<exists>y. look (snd (create now spec r)) i = Some y \<and> same_instance x y"
  using assms create_dup [of r spec now] create_new [of r spec now]
  by (cases "look r (rs_InstanceID spec)") (auto simp: same_instance_def)

lemma mark_keeps:
  assumes "inv r" "look r i = Some x"
  shows "\<exists>y. look (snd (mark now j r)) i = Some y \<and> same_instance x y"
  using assms mark_look [of r now j] by (auto simp: same_instance_def)

lemma create_then_mark:
  assumes "inv r" "look r (rs_InstanceID spec) = None"
  shows "map_option ri_Status (look (snd (mark now' (rs_InstanceID spec) (snd (create now spec r)))) (rs_InstanceID spec))
    = Some RoomStatusClosed"
  using create_new [OF assms, of now] mark_look [OF create_inv [OF assms(1)]] by simp

end

section \<open>The in-memory registry implements the interface\<close>

definition registry_inv :: "InMemoryRoomRegistry \<Rightarrow> bool" where
  "registry_inv r \<longleftrightarrow>
     (\<forall>i q. fmlookup (instances r) i = Some q \<longrightarrow> (\<exists>x. fmlookup (reg_heap r) q = Some x \<and> ri_InstanceID x = i))
     \<and> (\<forall>q x. fmlookup (reg_heap r) q = Some x \<longrightarrow> q < reg_next r)
     \<and> (\<forall>l. set (map_get [] (byLogical r) l) \<subseteq> fset (fmdom (reg_heap r)))"

definition listed :: "InMemoryRoomRegistry \<Rightarrow> string \<Rightarrow> string list" where
  "listed r l = map (\<lambda>q. ri_InstanceID (the (fmlookup (reg_heap r) q))) (ListInstances l r)"

definition registry_create :: "time \<Rightarrow> RoomSpec \<Rightarrow> InMemoryRoomRegistry \<Rightarrow> bool \<times> InMemoryRoomRegistry" where
  "registry_create now spec r = (let (res, r') = Registry_CreateRoom now spec r in (\<not> isl res, r'))"

definition registry_mark :: "time \<Rightarrow> string \<Rightarrow> InMemoryRoomRegistry \<Rightarrow> bool \<times> InMemoryRoomRegistry" where
  "registry_mark now i r = (let (res, r') = MarkClosed now i r in (res = None, r'))"

lemma registry_inv_new: "registry_inv NewInMemoryRoomRegistry"
  by (simp add: registry_inv_def NewInMemoryRoomRegistry_def)

lemma instance_of_None: "registry_inv r \<Longrightarrow> instance_of r i = None \<longleftrightarrow> fmlookup (instances r) i = None"
  by (cases "fmlookup (instances r) i") (force simp: instance_of_def registry_inv_def)+

lemma instances_distinct_refs:
  assumes "registry_inv r" "fmlookup (instances r) i = Some q" "fmlookup (instances r) j = Some q"
  shows "i = j"
  using assms unfolding registry_inv_def by (metis option.inject)

lemma registry_fresh: "registry_inv r \<Longrightarrow> fmlookup (reg_heap r) (reg_next r) = None"
  unfolding registry_inv_def by (metis less_irrefl not_None_eq)

lemma Registry_CreateRoom_inv: "registry_inv r \<Longrightarrow> registry_inv (snd (Registry_CreateRoom now spec r))"
  using registry_fresh [of r]
  by (auto simp: registry_inv_def Registry_CreateRoom_def Let_def less_Suc_eq split: if_splits)

lemma MarkClosed_inv: "registry_inv r \<Longrightarrow> registry_inv (snd (MarkClosed now i r))"
  using instances_distinct_refs [of r]
  by (auto simp: registry_inv_def MarkClosed_def split: option.splits) (metis option.inject)

lemma instance_of_MarkClosed:
  assumes inv: "registry_inv r"
  shows "instance_of (snd (MarkClosed now i r)) = (instance_of r)(i := map_option
    (\<lambda>x. x\<lparr>ri_Status := RoomStatusClosed, ri_ClosedAt := Some now\<rparr>) (instance_of r i))"
proof (cases "fmlookup (instances r) i")
  case None
  then show ?thesis by (auto simp: MarkClosed_def instance_of_def fun_eq_iff)
next
  case (Some q)
  then obtain x where x: "fmlookup (reg_heap r) q = Some x" using inv unfolding registry_inv_def by blast
  have other: "fmlookup (instances r) j \<noteq> Some q" if "j \<noteq> i" for j
    using instances_distinct_refs [OF inv Some] that by blast
  show ?thesis
  proof
    fix j
    show "instance_of (snd (MarkClosed now i r)) j = ((instance_of r)(i := map_option
        (\<lambda>x. x\<lparr>ri_Status := RoomStatusClosed, ri_ClosedAt := Some now\<rparr>) (instance_of r i))) j"
      using Some x other [of j]
      by (cases "fmlookup (instances r) j") (auto simp: MarkClosed_def instance_of_def)
  qed
qed

lemma listed_MarkClosed: "listed (snd (MarkClosed now i r)) = listed r"
  by (auto simp: listed_def MarkClosed_def ListInstances_def fun_eq_iff split: option.splits)

lemma Registry_CreateRoom_new:
  assumes inv: "registry_inv r" and new: "fmlookup (instances r) (rs_InstanceID spec) = None"
  shows "Registry_CreateRoom now spec r = (Inr (reg_next r), snd (Registry_CreateRoom now spec r))"
    and "instance_of (snd (Registry_CreateRoom now spec r)) = (instance_of r)(rs_InstanceID spec \<mapsto>
            \<lparr>ri_InstanceID = rs_InstanceID spec, ri_LogicalRoomID = rs_LogicalRoomID spec,
             ri_Status = RoomStatusCreated, ri_CreatedAt = now, ri_ClosedAt = None\<rparr>)"
    and "listed (snd (Registry_CreateRoom now spec r)) =
           (listed r)(rs_LogicalRoomID spec := listed r (rs_LogicalRoomID spec) @ [rs_InstanceID spec])"
proof -
  have old: "q \<noteq> reg_next r" if "q \<in> set (map_get [] (byLogical r) l)" for q l
    using inv that registry_fresh [OF inv] unfolding registry_inv_def
    by (metis fmdom_notI subsetD)
  have old': "fmlookup (instances r) j \<noteq> Some (reg_next r)" for j
    using inv registry_fresh [OF inv] unfolding registry_inv_def by fastforce
  have free: "rs_InstanceID spec |\<notin>| fmdom (instances r)" using new by (simp add: fmdom_notI)
  show "Registry_CreateRoom now spec r = (Inr (reg_next r), snd (Registry_CreateRoom now spec r))"
    using free by (simp add: Registry_CreateRoom_def Let_def)
  show "instance_of (snd (Registry_CreateRoom now spec r)) = (instance_of r)(rs_InstanceID spec \<mapsto>
            \<lparr>ri_InstanceID = rs_InstanceID spec, ri_LogicalRoomID = rs_LogicalRoomID spec,
             ri_Status = RoomStatusCreated, ri_CreatedAt = now, ri_ClosedAt = None\<rparr>)"
    using free old' by (auto simp: Registry_CreateRoom_def Let_def instance_of_def fun_eq_iff intro!: bind_option_cong)
  show "listed (snd (Registry_CreateRoom now spec r)) =
           (listed r)(rs_LogicalRoomID spec := listed r (rs_LogicalRoomID spec) @ [rs_InstanceID spec])"
    using free old by (auto simp: Registry_CreateRoom_def Let_def listed_def ListInstances_def fun_eq_iff)
qed

interpretation rg: room_registry registry_inv instance_of listed registry_create registry_mark
proof unfold_locales
  fix r :: InMemoryRoomRegistry and now spec i
  assume inv: "registry_inv r"
  show "registry_inv (snd (registry_create now spec r))" "registry_inv (snd (registry_mark now i r))"
    using Registry_CreateRoom_inv [OF inv] MarkClosed_inv [OF inv]
    by (simp_all add: registry_create_def registry_mark_def split_beta)
  show "instance_of r (rs_InstanceID spec) \<noteq> None \<Longrightarrow> registry_create now spec r = (False, r)"
    by (auto simp: instance_of_None [OF inv] registry_create_def Registry_CreateRoom_def intro: fmdomI)
  show "instance_of r (rs_InstanceID spec) = None \<Longrightarrow> fst (registry_create now spec r)
       \<and> instance_of (snd (registry_create now spec r)) = (instance_of r)(rs_InstanceID spec \<mapsto>
            \<lparr>ri_InstanceID = rs_InstanceID spec, ri_LogicalRoomID = rs_LogicalRoomID spec,
             ri_Status = RoomStatusCreated, ri_CreatedAt = now, ri_ClosedAt = None\<rparr>)
       \<and> listed (snd (registry_create now spec r)) =
           (listed r)(rs_LogicalRoomID spec := listed r (rs_LogicalRoomID spec) @ [rs_InstanceID spec])"
    using Registry_CreateRoom_new [OF inv, of spec now]
    by (simp add: instance_of_None [OF inv] registry_create_def split_beta) (metis fst_conv sum.disc(2))
  show "fst (registry_mark now i r) = (instance_of r i \<noteq> None)
       \<and> instance_of (snd (registry_mark now i r)) = (instance_of r)(i := map_option
            (\<lambda>x. x\<lparr>ri_Status := RoomStatusClosed, ri_ClosedAt := Some now\<rparr>) (instance_of r i))
       \<and> listed (snd (registry_mark now i r)) = listed r"
    using instance_of_MarkClosed [OF inv] listed_MarkClosed
    by (auto simp: registry_mark_def split_beta instance_of_None [OF inv]) (auto simp: MarkClosed_def split: option.splits)
qed

end
