(* ===== verification/GoFmt.thy ===== *)
theory GoFmt
  imports Prelude
begin

text \<open>
  The decimal verbs of Go's \<^verbatim>\<open>fmt.Sprintf\<close> that the program uses to build identifiers: \<^verbatim>\<open>%d\<close> and the
  zero padded \<^verbatim>\<open>%04d\<close> of an unsigned integer, and that what they print can be read back.
\<close>

section \<open>Printing\<close>

definition digit :: "nat \<Rightarrow> char" where
  "digit n = char_of (48 + n)"

fun print_d :: "nat \<Rightarrow> string" where
  "print_d n = (if n < 10 then [digit n] else print_d (n div 10) @ [digit (n mod 10)])"

declare print_d.simps [simp del]

definition print_0d :: "nat \<Rightarrow> nat \<Rightarrow> string" where
  "print_0d width n = (let s = print_d n in replicate (width - length s) (CHR ''0'') @ s)"

section \<open>Reading back\<close>

definition digit_val :: "char \<Rightarrow> nat" where
  "digit_val c = of_char c - 48"

definition read_d :: "string \<Rightarrow> nat" where
  "read_d s = foldl (\<lambda>a c. 10 * a + digit_val c) 0 s"

lemma digit_val_digit [simp]: "n < 10 \<Longrightarrow> digit_val (digit n) = n"
  by (simp add: digit_val_def digit_def)

lemma read_print_d [simp]: "read_d (print_d n) = n"
proof (induction n rule: print_d.induct)
  case (1 n)
  show ?case
  proof (cases "n < 10")
    case True
    then show ?thesis by (subst print_d.simps) (simp add: read_d_def)
  next
    case False
    with 1 have "foldl (\<lambda>a c. 10 * a + digit_val c) 0 (print_d (n div 10)) = n div 10" by (simp add: read_d_def)
    with False show ?thesis by (subst print_d.simps) (simp add: read_d_def)
  qed
qed

lemma read_print_0d [simp]: "read_d (print_0d w n) = n"
proof -
  have "read_d (replicate k (CHR ''0'') @ s) = read_d s" for k s
    by (induction k) (simp_all add: read_d_def digit_val_def)
  then show ?thesis by (simp add: print_0d_def Let_def)
qed

text \<open>Only digits are printed, so a dash never is.\<close>

definition is_digit :: "char \<Rightarrow> bool" where
  "is_digit c \<longleftrightarrow> 48 \<le> (of_char c :: nat) \<and> (of_char c :: nat) < 58"

lemma is_digit_digit: "n < 10 \<Longrightarrow> is_digit (digit n)"
  by (simp add: is_digit_def digit_def)

lemma print_d_digits: "c \<in> set (print_d n) \<Longrightarrow> is_digit c"
proof (induction n rule: print_d.induct)
  case (1 n)
  then show ?case using is_digit_digit [of n] is_digit_digit [of "n mod 10"]
    by (subst (asm) print_d.simps) (auto split: if_splits)
qed

lemma print_0d_digits: "c \<in> set (print_0d w n) \<Longrightarrow> is_digit c"
  by (auto simp: print_0d_def Let_def is_digit_def dest: print_d_digits [unfolded is_digit_def])

lemma no_dash: "CHR ''-'' \<notin> set (print_0d w n)"
  using print_0d_digits [of "CHR ''-''" w n] by (auto simp: is_digit_def)

text \<open>A name, a dash and a printed number determine both.\<close>

lemma dashed_inj:
  assumes "a @ ''-'' @ print_0d w m = b @ ''-'' @ print_0d w n"
  shows "a = b \<and> m = n"
proof -
  have "a = b \<and> print_0d w m = print_0d w n"
    using assms no_dash [of w m] no_dash [of w n] by (auto simp: append_eq_append_conv2 append_eq_Cons_conv Cons_eq_append_conv)
      (metis in_set_conv_decomp)+
  then show ?thesis by (metis read_print_0d)
qed

end
