(* ===== verification/Manager.thy ===== *)
theory Manager
  imports RoomLoop Registry GoFmt
begin

text \<open>
  The room manager (\<^verbatim>\<open>internal/game/room/manager.go\<close>). \<^verbatim>\<open>CreateRoomWithBroadcaster\<close>, \<^verbatim>\<open>CloseRoom\<close> and
  \<^verbatim>\<open>Shutdown\<close> take the mutexes of the manager and of the registry in turn, so each is split at those
  points and the calls of several goroutines interleave, with each other and with the rooms'
  own goroutines. Rooms are shared by pointer and live in a heap.
\<close>

section \<open>Data\<close>

type_synonym room_ref = nat

record RoomManager =
  registry :: InMemoryRoomRegistry
  mgr_config :: RoomConfig
  rooms :: "(string, room_ref) fmap"
  instanceCounter :: u64
  room_heap :: "(room_ref, room_proc) fmap"
  room_next :: room_ref

datatype manager_err = RegisterFailed string registry_err | StartFailed string room_err | RoomNotFound string

section \<open>Operations\<close>

definition NewRoomManager :: "InMemoryRoomRegistry \<Rightarrow> RoomConfig \<Rightarrow> RoomManager" where
  "NewRoomManager reg cfg = \<lparr>registry = reg, mgr_config = cfg, rooms = fmempty, instanceCounter = 0,
     room_heap = fmempty, room_next = 0\<rparr>"

definition instance_id :: "string \<Rightarrow> nat \<Rightarrow> string" where
  "instance_id logicalID n = logicalID @ ''-'' @ print_0d 4 n"

definition generateInstanceID :: "string \<Rightarrow> RoomManager \<Rightarrow> string \<times> RoomManager" where
  "generateInstanceID logicalID m =
     (let n = instanceCounter m + 1 in (instance_id logicalID (unat n), m\<lparr>instanceCounter := n\<rparr>))"

text \<open>From the registration to the running room, before it is published in the map.\<close>

definition register_and_start :: "time \<Rightarrow> string \<Rightarrow> string \<Rightarrow> bool \<Rightarrow> RoomManager
    \<Rightarrow> (manager_err + room_ref) \<times> RoomManager" where
  "register_and_start now instID logicalID has_broadcaster m =
     (let spec = \<lparr>rs_LogicalRoomID = logicalID, rs_InstanceID = instID, rs_Config = mgr_config m\<rparr>
      in case Registry_CreateRoom now spec (registry m) of
           (Inl e, reg) \<Rightarrow> (Inl (RegisterFailed instID e), m\<lparr>registry := reg\<rparr>)
         | (Inr _, reg) \<Rightarrow>
             (let m = m\<lparr>registry := reg\<rparr>;
                  r = newRoom spec;
                  r = (if has_broadcaster then SetBroadcaster r else r)
              in case Start r of
                   (Some e, _) \<Rightarrow> (Inl (StartFailed instID e), m\<lparr>registry := snd (MarkClosed now instID (registry m))\<rparr>)
                 | (None, r) \<Rightarrow>
                     (Inr (room_next m),
                      m\<lparr>room_heap := fmupd (room_next m) \<lparr>room = r, loop = LoopIdle, cancelled = False, waiting = 0\<rparr> (room_heap m),
                        room_next := room_next m + 1\<rparr>)))"

definition publish_room :: "string \<Rightarrow> room_ref \<Rightarrow> RoomManager \<Rightarrow> RoomManager" where
  "publish_room instID r m = m\<lparr>rooms := fmupd instID r (rooms m)\<rparr>"

definition CreateRoomWithBroadcaster :: "time \<Rightarrow> string \<Rightarrow> bool \<Rightarrow> RoomManager
    \<Rightarrow> (manager_err + room_ref) \<times> RoomManager" where
  "CreateRoomWithBroadcaster now logicalID has_broadcaster m =
     (case generateInstanceID logicalID m of
        (instID, m) \<Rightarrow>
          (case register_and_start now instID logicalID has_broadcaster m of
             (Inl e, m) \<Rightarrow> (Inl e, m)
           | (Inr r, m) \<Rightarrow> (Inr r, publish_room instID r m)))"

definition CreateRoom :: "time \<Rightarrow> string \<Rightarrow> RoomManager \<Rightarrow> (manager_err + room_ref) \<times> RoomManager" where
  "CreateRoom now logicalID m = CreateRoomWithBroadcaster now logicalID False m"

definition Manager_GetRoom :: "string \<Rightarrow> RoomManager \<Rightarrow> manager_err + room_ref" where
  "Manager_GetRoom instID m =
     (case fmlookup (rooms m) instID of None \<Rightarrow> Inl (RoomNotFound instID) | Some r \<Rightarrow> Inr r)"

text \<open>The critical section of \<^verbatim>\<open>CloseRoom\<close>; on success the caller goes on to stop the room.\<close>

definition CloseRoom_unlink :: "string \<Rightarrow> RoomManager \<Rightarrow> (manager_err + room_ref) \<times> RoomManager" where
  "CloseRoom_unlink instID m =
     (case fmlookup (rooms m) instID of
        None \<Rightarrow> (Inl (RoomNotFound instID), m)
      | Some r \<Rightarrow> (Inr r, m\<lparr>rooms := fmdrop instID (rooms m)\<rparr>))"

text \<open>After \<^verbatim>\<open>Stop\<close> has returned; a failure is only logged.\<close>

definition close_in_registry :: "time \<Rightarrow> string \<Rightarrow> RoomManager \<Rightarrow> RoomManager" where
  "close_in_registry now instID m = m\<lparr>registry := snd (MarkClosed now instID (registry m))\<rparr>"

definition Shutdown_unlink :: "RoomManager \<Rightarrow> (string, room_ref) fmap \<times> RoomManager" where
  "Shutdown_unlink m = (rooms m, m\<lparr>rooms := fmempty\<rparr>)"

definition ActiveRoomCount :: "RoomManager \<Rightarrow> nat" where
  "ActiveRoomCount m = map_len (rooms m)"

section \<open>Interleaving\<close>

text \<open>
  A goroutine inside the manager is creating a room with an identifier it has drawn, holds a started
  room it has not published yet, or is stopping the rooms it has taken out of the map one after
  another (one for \<^verbatim>\<open>CloseRoom\<close>, all of them for \<^verbatim>\<open>Shutdown\<close>, in any map order).
\<close>

datatype mgr_call =
  Creating string string bool
| Starting string room_ref
| Stopping "(string, room_ref) fmap"

record manager_run =
  mgr :: RoomManager
  calls :: "(nat, mgr_call) fmap"

inductive manager_step :: "manager_run \<Rightarrow> manager_run \<Rightarrow> bool" where
  room_moves: "fmlookup (room_heap (mgr s)) r = Some p \<Longrightarrow> room_step (\<lambda>_ _. True) p q \<Longrightarrow>
    manager_step s (s\<lparr>mgr := (mgr s)\<lparr>room_heap := fmupd r q (room_heap (mgr s))\<rparr>\<rparr>)"
| create_draw: "fmlookup (calls s) t = None \<Longrightarrow> generateInstanceID l (mgr s) = (i, m) \<Longrightarrow>
    manager_step s (s\<lparr>mgr := m, calls := fmupd t (Creating i l b) (calls s)\<rparr>)"
| create_fail: "fmlookup (calls s) t = Some (Creating i l b) \<Longrightarrow> register_and_start now i l b (mgr s) = (Inl e, m) \<Longrightarrow>
    manager_step s (s\<lparr>mgr := m, calls := fmdrop t (calls s)\<rparr>)"
| create_start: "fmlookup (calls s) t = Some (Creating i l b) \<Longrightarrow> register_and_start now i l b (mgr s) = (Inr r, m) \<Longrightarrow>
    manager_step s (s\<lparr>mgr := m, calls := fmupd t (Starting i r) (calls s)\<rparr>)"
| create_publish: "fmlookup (calls s) t = Some (Starting i r) \<Longrightarrow>
    manager_step s (s\<lparr>mgr := publish_room i r (mgr s), calls := fmdrop t (calls s)\<rparr>)"
| close_unlink: "fmlookup (calls s) t = None \<Longrightarrow> CloseRoom_unlink i (mgr s) = (Inr r, m) \<Longrightarrow>
    manager_step s (s\<lparr>mgr := m, calls := fmupd t (Stopping (fmupd i r fmempty)) (calls s)\<rparr>)"
| shutdown_unlink: "fmlookup (calls s) t = None \<Longrightarrow> Shutdown_unlink (mgr s) = (rs, m) \<Longrightarrow>
    manager_step s (s\<lparr>mgr := m, calls := fmupd t (Stopping rs) (calls s)\<rparr>)"
| stopped: "fmlookup (calls s) t = Some (Stopping rs) \<Longrightarrow> fmlookup rs i = Some r \<Longrightarrow>
    fmlookup (room_heap (mgr s)) r = Some p \<Longrightarrow> status (room p) = RoomStatusClosed \<Longrightarrow>
    manager_step s (s\<lparr>mgr := close_in_registry now i (mgr s), calls := fmupd t (Stopping (fmdrop i rs)) (calls s)\<rparr>)"
| stop_done: "fmlookup (calls s) t = Some (Stopping fmempty) \<Longrightarrow>
    manager_step s (s\<lparr>calls := fmdrop t (calls s)\<rparr>)"

definition new_run :: "RoomConfig \<Rightarrow> manager_run" where
  "new_run cfg = \<lparr>mgr = NewRoomManager NewInMemoryRoomRegistry cfg, calls = fmempty\<rparr>"

text \<open>Runs in which the 64-bit counter of drawn identifiers has not run over.\<close>

definition bounded_step :: "manager_run \<Rightarrow> manager_run \<Rightarrow> bool" where
  "bounded_step s s' \<longleftrightarrow> manager_step s s' \<and> instanceCounter (mgr s) \<noteq> - 1"

definition manager_reachable :: "RoomConfig \<Rightarrow> manager_run \<Rightarrow> bool" where
  "manager_reachable cfg s \<longleftrightarrow> bounded_step\<^sup>*\<^sup>* (new_run cfg) s"

section \<open>Invariant\<close>

text \<open>Who holds a room: the map of the manager (\<open>None\<close>) or a call in progress.\<close>

fun call_rooms :: "mgr_call \<Rightarrow> (string, room_ref) fmap" where
  "call_rooms (Creating _ _ _) = fmempty"
| "call_rooms (Starting i r) = fmupd i r fmempty"
| "call_rooms (Stopping rs) = rs"

definition held :: "manager_run \<Rightarrow> nat option \<Rightarrow> (string, room_ref) fmap" where
  "held s pl = (case pl of
       None \<Rightarrow> rooms (mgr s)
     | Some t \<Rightarrow> (case fmlookup (calls s) t of None \<Rightarrow> fmempty | Some c \<Rightarrow> call_rooms c))"

definition reg_status :: "RoomManager \<Rightarrow> string \<Rightarrow> RoomStatus option" where
  "reg_status m i = map_option ri_Status (instance_of (registry m) i)"

definition drawn :: "RoomManager \<Rightarrow> string \<Rightarrow> bool" where
  "drawn m i \<longleftrightarrow> (\<exists>l n. i = instance_id l n \<and> 0 < n \<and> n \<le> unat (instanceCounter m))"

definition ids_inv :: "manager_run \<Rightarrow> bool" where
  "ids_inv s \<longleftrightarrow>
     registry_inv (registry (mgr s))
     \<and> (\<forall>i x. instance_of (registry (mgr s)) i = Some x \<longrightarrow> drawn (mgr s) i)
     \<and> (\<forall>t i l b. fmlookup (calls s) t = Some (Creating i l b) \<longrightarrow>
          drawn (mgr s) i \<and> instance_of (registry (mgr s)) i = None)
     \<and> (\<forall>t u i l b l' b'. fmlookup (calls s) t = Some (Creating i l b) \<longrightarrow>
          fmlookup (calls s) u = Some (Creating i l' b') \<longrightarrow> t = u)"

definition own_inv :: "manager_run \<Rightarrow> bool" where
  "own_inv s \<longleftrightarrow>
     (\<forall>pl pl' i r r'. fmlookup (held s pl) i = Some r \<longrightarrow> fmlookup (held s pl') i = Some r' \<longrightarrow> pl = pl')
     \<and> (\<forall>pl i r. fmlookup (held s pl) i = Some r \<longrightarrow>
          (\<exists>p. fmlookup (room_heap (mgr s)) r = Some p \<and> instanceID (room p) = i)
          \<and> reg_status (mgr s) i = Some RoomStatusCreated)"

definition heap_inv :: "manager_run \<Rightarrow> bool" where
  "heap_inv s \<longleftrightarrow>
     (\<forall>r p. fmlookup (room_heap (mgr s)) r = Some p \<longrightarrow> r < room_next (mgr s) \<and> lifecycle_inv p)
     \<and> (\<forall>r p. fmlookup (room_heap (mgr s)) r = Some p \<longrightarrow>
          reg_status (mgr s) (instanceID (room p)) = Some RoomStatusCreated
            \<and> (\<exists>pl. fmlookup (held s pl) (instanceID (room p)) = Some r)
          \<or> reg_status (mgr s) (instanceID (room p)) = Some RoomStatusClosed \<and> status (room p) = RoomStatusClosed)
     \<and> (\<forall>r r' p p'. fmlookup (room_heap (mgr s)) r = Some p \<longrightarrow> fmlookup (room_heap (mgr s)) r' = Some p' \<longrightarrow>
          instanceID (room p) = instanceID (room p') \<longrightarrow> r = r')
     \<and> (\<forall>i. reg_status (mgr s) i \<noteq> None \<longrightarrow>
          (\<exists>r p. fmlookup (room_heap (mgr s)) r = Some p \<and> instanceID (room p) = i))"

definition manager_inv :: "manager_run \<Rightarrow> bool" where
  "manager_inv s \<longleftrightarrow> ids_inv s \<and> own_inv s \<and> heap_inv s"

section \<open>Lemmas\<close>

lemma instance_id_inj: "instance_id l n = instance_id l' n' \<longleftrightarrow> l = l' \<and> n = n'"
  unfolding instance_id_def using dashed_inj [of l 4 n l' n'] by blast

lemma new_run_inv: "manager_inv (new_run cfg)"
  by (simp add: manager_inv_def ids_inv_def own_inv_def heap_inv_def new_run_def NewRoomManager_def
      registry_inv_new NewInMemoryRoomRegistry_def instance_of_def held_def reg_status_def registry_inv_def split: option.split)

lemma next_id_fresh:
  assumes "instanceCounter m \<noteq> - 1" "generateInstanceID l m = (i, m')"
  shows "\<not> drawn m i" "drawn m' j \<longleftrightarrow> drawn m j \<or> (\<exists>l'. j = instance_id l' (unat (instanceCounter m) + 1))"
    and "drawn m' i" "m' = m\<lparr>instanceCounter := instanceCounter m + 1\<rparr>"
    and "i = instance_id l (unat (instanceCounter m) + 1)"
proof -
  have n: "unat (instanceCounter m + 1) = unat (instanceCounter m) + 1"
  proof -
    have "1 + instanceCounter m \<noteq> 0"
    proof
      assume "1 + instanceCounter m = 0"
      then have "instanceCounter m = - 1" by (simp add: add_eq_0_iff)
      with assms(1) show False by simp
    qed
    from unatSuc [OF this] show ?thesis by (simp add: add.commute)
  qed
  show "m' = m\<lparr>instanceCounter := instanceCounter m + 1\<rparr>"
    using assms(2) by (auto simp: generateInstanceID_def Let_def)
  then have c: "unat (instanceCounter m') = unat (instanceCounter m) + 1" using n by simp
  show i: "i = instance_id l (unat (instanceCounter m) + 1)"
    using assms(2) n by (simp add: generateInstanceID_def Let_def)
  show "\<not> drawn m i" unfolding drawn_def i instance_id_inj by simp
  show "drawn m' i" unfolding drawn_def i c instance_id_inj by simp
  show "drawn m' j \<longleftrightarrow> drawn m j \<or> (\<exists>l'. j = instance_id l' (unat (instanceCounter m) + 1))"
    unfolding drawn_def c by (auto simp: le_Suc_eq)
qed

text \<open>With a fresh identifier the registration succeeds and so does the start.\<close>

lemma register_and_start_new:
  assumes inv: "registry_inv (registry m)" and new: "instance_of (registry m) i = None"
  obtains p m' where "register_and_start now i l b m = (Inr (room_next m), m')"
    and "room_heap m' = fmupd (room_next m) p (room_heap m)" "room_next m' = room_next m + 1"
    and "instanceID (room p) = i" "status (room p) = RoomStatusRunning" "lifecycle_inv p"
    and "rooms m' = rooms m" "instanceCounter m' = instanceCounter m" "mgr_config m' = mgr_config m"
    and "registry_inv (registry m')" "instance_of (registry m') = (instance_of (registry m))(i \<mapsto>
            \<lparr>ri_InstanceID = i, ri_LogicalRoomID = l, ri_Status = RoomStatusCreated, ri_CreatedAt = now, ri_ClosedAt = None\<rparr>)"
    and "listed (registry m') = (listed (registry m))(l := listed (registry m) l @ [i])"
proof -
  let ?spec = "\<lparr>rs_LogicalRoomID = l, rs_InstanceID = i, rs_Config = mgr_config m\<rparr>"
  have "fmlookup (instances (registry m)) (rs_InstanceID ?spec) = None"
    using new instance_of_None [OF inv] by simp
  note c = Registry_CreateRoom_new [OF inv this, of now]
  define r where "r = (if b then SetBroadcaster (newRoom ?spec) else newRoom ?spec)"
  have r: "status r = RoomStatusCreated" "instanceID r = i" "commands r = []" "0 \<le> CommandQueueSize (config r)"
    by (simp_all add: r_def SetBroadcaster_def newRoom_def Let_def room_config_def DefaultRoomConfig_def)
  let ?p = "\<lparr>room = r\<lparr>status := RoomStatusRunning\<rparr>, loop = LoopIdle, cancelled = False, waiting = 0\<rparr>"
  have "register_and_start now i l b m = (Inr (room_next m),
      m\<lparr>registry := snd (Registry_CreateRoom now ?spec (registry m)),
        room_heap := fmupd (room_next m) ?p (room_heap m), room_next := room_next m + 1\<rparr>)"
    unfolding register_and_start_def Let_def r_def [symmetric] by (subst c(1)) (simp add: Start_def r)
  then show thesis
    by (rule that [of _ ?p]) (use r c(2,3) Registry_CreateRoom_inv [OF inv] in \<open>simp_all add: lifecycle_inv_def\<close>)
qed

lemma ids_invD:
  assumes "ids_inv s"
  shows reg_inv: "registry_inv (registry (mgr s))"
    and reg_drawn: "instance_of (registry (mgr s)) i = Some x \<Longrightarrow> drawn (mgr s) i"
    and creating_fresh: "fmlookup (calls s) t = Some (Creating i l b) \<Longrightarrow> instance_of (registry (mgr s)) i = None"
    and creating_drawn: "fmlookup (calls s) t = Some (Creating i l b) \<Longrightarrow> drawn (mgr s) i"
    and creating_unique: "fmlookup (calls s) t = Some (Creating i l b) \<Longrightarrow>
      fmlookup (calls s) u = Some (Creating i l' b') \<Longrightarrow> t = u"
  using assms unfolding ids_inv_def by blast+

lemma ids_invI:
  assumes "registry_inv (registry (mgr s))"
    and "\<And>i x. instance_of (registry (mgr s)) i = Some x \<Longrightarrow> drawn (mgr s) i"
    and "\<And>t i l b. fmlookup (calls s) t = Some (Creating i l b) \<Longrightarrow> drawn (mgr s) i"
    and "\<And>t i l b. fmlookup (calls s) t = Some (Creating i l b) \<Longrightarrow> instance_of (registry (mgr s)) i = None"
    and "\<And>t u i l b l' b'. fmlookup (calls s) t = Some (Creating i l b) \<Longrightarrow>
      fmlookup (calls s) u = Some (Creating i l' b') \<Longrightarrow> t = u"
  shows "ids_inv s"
  using assms unfolding ids_inv_def by blast

lemma close_in_registry_frame [simp]:
  "rooms (close_in_registry now i m) = rooms m" "room_heap (close_in_registry now i m) = room_heap m"
  "room_next (close_in_registry now i m) = room_next m"
  "instanceCounter (close_in_registry now i m) = instanceCounter m"
  by (simp_all add: close_in_registry_def)

lemma close_in_registry_registry:
  assumes "registry_inv (registry m)"
  shows "registry_inv (registry (close_in_registry now i m))"
    and "instance_of (registry (close_in_registry now i m)) j = None \<longleftrightarrow> instance_of (registry m) j = None"
    and "reg_status (close_in_registry now i m) j =
      (if j = i \<and> reg_status m i \<noteq> None then Some RoomStatusClosed else reg_status m j)"
  using MarkClosed_inv [OF assms] instance_of_MarkClosed [OF assms, of now i]
  by (auto simp: close_in_registry_def reg_status_def)

lemma drawn_frame: "instanceCounter m = instanceCounter m' \<Longrightarrow> drawn m i = drawn m' i"
  by (simp add: drawn_def)

lemma bounded_step_ids:
  assumes step: "bounded_step s s'" and inv: "ids_inv s"
  shows "ids_inv s'"
proof -
  note d = ids_invD [OF inv]
  from step have ms: "manager_step s s'" and bound: "instanceCounter (mgr s) \<noteq> - 1" by (auto simp: bounded_step_def)
  from ms show ?thesis
  proof cases
    case (room_moves r p q)
    then show ?thesis using d by (intro ids_invI) (auto simp: drawn_def)
  next
    case (create_draw t l i m b)
    note f = next_id_fresh [OF bound create_draw(3)]
    have "instance_of (registry (mgr s)) i = None" using d(2) f(1) by (cases "instance_of (registry (mgr s)) i") auto
    moreover have "fmlookup (calls s) u \<noteq> Some (Creating i l' b')" for u l' b' using d(4) f(1) by blast
    ultimately show ?thesis using d f(2,3) unfolding create_draw(1)
      by (intro ids_invI) (auto simp: f(4) drawn_def split: if_splits)
  next
    case (create_fail t i l b now e m)
    obtain p m' where "register_and_start now i l b (mgr s) = (Inr (room_next (mgr s)), m')"
      by (rule register_and_start_new [OF d(1) d(3) [OF create_fail(2)], of now l b])
    with create_fail show ?thesis by simp
  next
    case (create_start t i l b now r m)
    obtain p m' where rs: "register_and_start now i l b (mgr s) = (Inr (room_next (mgr s)), m')"
        "instanceCounter m' = instanceCounter (mgr s)" "registry_inv (registry m')"
        "instance_of (registry m') = (instance_of (registry (mgr s)))(i \<mapsto>
            \<lparr>ri_InstanceID = i, ri_LogicalRoomID = l, ri_Status = RoomStatusCreated, ri_CreatedAt = now, ri_ClosedAt = None\<rparr>)"
      by (rule register_and_start_new [OF d(1) d(3) [OF create_start(2)], of now l b])
    with create_start(3) have "m' = m" by simp
    have "drawn m j \<longleftrightarrow> drawn (mgr s) j" for j using rs(2) \<open>m' = m\<close> by (simp add: drawn_def)
    with create_start(2) rs d show ?thesis unfolding create_start(1) \<open>m' = m\<close>
      by (intro ids_invI) (auto split: if_splits)
  next
    case (create_publish t i r)
    then show ?thesis using d by (intro ids_invI) (auto simp: drawn_def publish_room_def split: if_splits)
  next
    case (close_unlink t i r m)
    then show ?thesis using d
      by (intro ids_invI) (auto simp: drawn_def CloseRoom_unlink_def split: if_splits option.splits)
  next
    case (shutdown_unlink t rs m)
    then show ?thesis using d by (intro ids_invI) (auto simp: drawn_def Shutdown_unlink_def split: if_splits)
  next
    case (stopped t rs i r p now)
    have "instance_of (registry (mgr s')) j = Some x \<Longrightarrow> drawn (mgr s') j" for j x
      using d(2) close_in_registry_registry(2) [OF d(1), of now i j] unfolding stopped(1)
      by (cases "instance_of (registry (mgr s)) j") (auto simp: drawn_def)
    then show ?thesis using d close_in_registry_registry(1,2) [OF d(1), of now i] unfolding stopped(1)
      by (intro ids_invI) (auto simp: drawn_def split: if_splits)
  next
    case (stop_done t)
    then show ?thesis using d by (intro ids_invI) (auto split: if_splits)
  qed
qed

lemma own_invD:
  assumes "own_inv s"
  shows held_once: "fmlookup (held s pl) i = Some r \<Longrightarrow> fmlookup (held s pl') i = Some r' \<Longrightarrow> pl = pl'"
    and held_room: "fmlookup (held s pl) i = Some r \<Longrightarrow> \<exists>p. fmlookup (room_heap (mgr s)) r = Some p \<and> instanceID (room p) = i"
    and held_created: "fmlookup (held s pl) i = Some r \<Longrightarrow> reg_status (mgr s) i = Some RoomStatusCreated"
  using assms unfolding own_inv_def by blast+

lemma own_invI:
  assumes "\<And>pl pl' i r r'. fmlookup (held s pl) i = Some r \<Longrightarrow> fmlookup (held s pl') i = Some r' \<Longrightarrow> pl = pl'"
    and "\<And>pl i r. fmlookup (held s pl) i = Some r \<Longrightarrow> \<exists>p. fmlookup (room_heap (mgr s)) r = Some p \<and> instanceID (room p) = i"
    and "\<And>pl i r. fmlookup (held s pl) i = Some r \<Longrightarrow> reg_status (mgr s) i = Some RoomStatusCreated"
  shows "own_inv s"
  using assms unfolding own_inv_def by blast

lemma heap_invD:
  assumes "heap_inv s"
  shows heap_old: "fmlookup (room_heap (mgr s)) r = Some p \<Longrightarrow> r < room_next (mgr s)"
    and heap_life: "fmlookup (room_heap (mgr s)) r = Some p \<Longrightarrow> lifecycle_inv p"
    and heap_status: "fmlookup (room_heap (mgr s)) r = Some p \<Longrightarrow>
          reg_status (mgr s) (instanceID (room p)) = Some RoomStatusCreated
            \<and> (\<exists>pl. fmlookup (held s pl) (instanceID (room p)) = Some r)
          \<or> reg_status (mgr s) (instanceID (room p)) = Some RoomStatusClosed \<and> status (room p) = RoomStatusClosed"
    and heap_unique: "fmlookup (room_heap (mgr s)) r = Some p \<Longrightarrow> fmlookup (room_heap (mgr s)) r' = Some p' \<Longrightarrow>
          instanceID (room p) = instanceID (room p') \<Longrightarrow> r = r'"
    and heap_covers: "reg_status (mgr s) i \<noteq> None \<Longrightarrow>
          \<exists>r p. fmlookup (room_heap (mgr s)) r = Some p \<and> instanceID (room p) = i"
  using assms unfolding heap_inv_def by blast+

lemma heap_invI:
  assumes "\<And>r p. fmlookup (room_heap (mgr s)) r = Some p \<Longrightarrow> r < room_next (mgr s)"
    and "\<And>r p. fmlookup (room_heap (mgr s)) r = Some p \<Longrightarrow> lifecycle_inv p"
    and "\<And>r p. fmlookup (room_heap (mgr s)) r = Some p \<Longrightarrow>
          reg_status (mgr s) (instanceID (room p)) = Some RoomStatusCreated
            \<and> (\<exists>pl. fmlookup (held s pl) (instanceID (room p)) = Some r)
          \<or> reg_status (mgr s) (instanceID (room p)) = Some RoomStatusClosed \<and> status (room p) = RoomStatusClosed"
    and "\<And>r r' p p'. fmlookup (room_heap (mgr s)) r = Some p \<Longrightarrow> fmlookup (room_heap (mgr s)) r' = Some p' \<Longrightarrow>
          instanceID (room p) = instanceID (room p') \<Longrightarrow> r = r'"
    and "\<And>i. reg_status (mgr s) i \<noteq> None \<Longrightarrow>
          \<exists>r p. fmlookup (room_heap (mgr s)) r = Some p \<and> instanceID (room p) = i"
  shows "heap_inv s"
  using assms unfolding heap_inv_def by blast

text \<open>A step that only moves rooms between holders keeps both parts.\<close>

lemma holders_change:
  assumes inv: "own_inv s" "heap_inv s"
    and same: "room_heap (mgr s') = room_heap (mgr s)" "room_next (mgr s') = room_next (mgr s)"
      "reg_status (mgr s') = reg_status (mgr s)"
    and moved: "\<And>pl i r. fmlookup (held s' pl) i = Some r \<Longrightarrow> \<exists>pl0. fmlookup (held s pl0) i = Some r"
      "\<And>pl i r. fmlookup (held s pl) i = Some r \<Longrightarrow> \<exists>pl0. fmlookup (held s' pl0) i = Some r"
    and once: "\<And>pl pl' i r r'. fmlookup (held s' pl) i = Some r \<Longrightarrow> fmlookup (held s' pl') i = Some r' \<Longrightarrow> pl = pl'"
  shows "own_inv s' \<and> heap_inv s'"
proof
  note o = own_invD [OF inv(1)] and h = heap_invD [OF inv(2)]
  show "own_inv s'"
    by (rule own_invI, erule (1) once) (use moved(1) o(2,3) in \<open>simp_all add: same, blast+\<close>)
  show "heap_inv s'"
    by (rule heap_invI) (use h moved(2) in \<open>simp_all add: same, blast+\<close>)
qed

lemma held_calls:
  "held (s\<lparr>calls := fmupd t c (calls s)\<rparr>) = (held s)(Some t := call_rooms c)"
  "held (s\<lparr>calls := fmdrop t (calls s)\<rparr>) = (held s)(Some t := fmempty)"
  "held (s\<lparr>mgr := m\<rparr>) = (held s)(None := rooms m)"
  "held (s\<lparr>mgr := m, calls := cs\<rparr>) = held (s\<lparr>calls := cs\<rparr>\<lparr>mgr := m\<rparr>)"
  "held s None = rooms (mgr s)"
  "fmlookup (calls s) t = None \<Longrightarrow> held s (Some t) = fmempty"
  "fmlookup (calls s) t = Some c \<Longrightarrow> held s (Some t) = call_rooms c"
  by (auto simp: held_def fun_eq_iff split: option.splits)

lemma holders_transfer:
  assumes inv: "own_inv s" "heap_inv s"
    and same: "room_heap (mgr s') = room_heap (mgr s)" "room_next (mgr s') = room_next (mgr s)"
      "registry (mgr s') = registry (mgr s)"
    and held': "held s' = (held s)(None := A, Some t := B)"
    and total: "\<And>i r. fmlookup A i = Some r \<or> fmlookup B i = Some r \<longleftrightarrow>
      fmlookup (held s None) i = Some r \<or> fmlookup (held s (Some t)) i = Some r"
    and apart: "\<And>i r r'. fmlookup A i = Some r \<Longrightarrow> fmlookup B i \<noteq> Some r'"
  shows "own_inv s' \<and> heap_inv s'"
proof (rule holders_change [OF inv same(1,2)])
  note o = own_invD [OF inv(1)]
  show "reg_status (mgr s') = reg_status (mgr s)" using same(3) by (simp add: reg_status_def fun_eq_iff)
  fix pl i r
  show "\<exists>pl0. fmlookup (held s pl0) i = Some r" if "fmlookup (held s' pl) i = Some r" for pl i r
    using that total [of i r] by (cases "pl = None \<or> pl = Some t") (auto simp: held')
  show "\<exists>pl0. fmlookup (held s' pl0) i = Some r" if x: "fmlookup (held s pl) i = Some r"
  proof (cases "pl = None \<or> pl = Some t")
    case True
    then have "fmlookup A i = Some r \<or> fmlookup B i = Some r" using x total [of i r] by auto
    then show ?thesis
      by (metis fun_upd_other fun_upd_same held' option.distinct(1))
  next
    case False
    then show ?thesis using x by (intro exI [of _ pl]) (auto simp: held')
  qed
  fix pl' r'
  assume a: "fmlookup (held s' pl) i = Some r" and b: "fmlookup (held s' pl') i = Some r'"
  have src: "\<exists>pl0. fmlookup (held s pl0) i = Some k \<and> (if pl1 \<in> {None, Some t} then pl0 \<in> {None, Some t} else pl0 = pl1)"
    if "fmlookup (held s' pl1) i = Some k" for pl1 k
    using that total [of i k] by (cases "pl1 = None \<or> pl1 = Some t") (auto simp: held')
  show "pl = pl'"
  proof (cases "pl \<in> {None, Some t} \<and> pl' \<in> {None, Some t}")
    case True
    then show ?thesis using a b apart by (auto simp: held')
  next
    case False
    obtain p1 p2 where p: "fmlookup (held s p1) i = Some r" "fmlookup (held s p2) i = Some r'"
        "if pl \<in> {None, Some t} then p1 \<in> {None, Some t} else p1 = pl"
        "if pl' \<in> {None, Some t} then p2 \<in> {None, Some t} else p2 = pl'"
      using src [OF a] src [OF b] by blast
    have "p1 = p2" by (rule o(1) [OF p(1,2)])
    with p(3,4) False show ?thesis by (metis (full_types))
  qed
qed

lemma room_moves_keep:
  assumes inv: "own_inv s" "heap_inv s" and r: "fmlookup (room_heap (mgr s)) r = Some p"
    and step: "room_step (\<lambda>_ _. True) p q"
    and s': "s' = s\<lparr>mgr := (mgr s)\<lparr>room_heap := fmupd r q (room_heap (mgr s))\<rparr>\<rparr>"
  shows "own_inv s' \<and> heap_inv s'"
proof
  note o = own_invD [OF inv(1)] and h = heap_invD [OF inv(2)]
  have id: "instanceID (room q) = instanceID (room p)" by (rule room_step_instanceID [OF step])
  have life: "lifecycle_inv q" by (rule room_step_lifecycle [OF step h(2) [OF r]])
  have closed: "status (room p) = RoomStatusClosed \<Longrightarrow> status (room q) = RoomStatusClosed"
    by (rule room_step_closed [OF step h(2) [OF r]])
  have held: "held s' = held s" and reg: "reg_status (mgr s') = reg_status (mgr s)"
    by (simp_all add: s' held_calls reg_status_def fun_eq_iff)
  have heap: "\<exists>y. fmlookup (room_heap (mgr s)) k = Some y \<and> instanceID (room y) = instanceID (room x)
      \<and> (status (room y) = RoomStatusClosed \<longrightarrow> status (room x) = RoomStatusClosed)"
    if "fmlookup (room_heap (mgr s')) k = Some x" for k x
    using that r id closed by (auto simp: s' split: if_splits)
  have heap': "\<exists>y. fmlookup (room_heap (mgr s')) k = Some y \<and> instanceID (room y) = instanceID (room x)"
    if "fmlookup (room_heap (mgr s)) k = Some x" for k x
    using that r id by (auto simp: s')
  show "own_inv s'"
    by (rule own_invI; unfold held reg) (use o heap' in \<open>blast, metis, blast\<close>)
  show "heap_inv s'"
  proof (rule heap_invI; (unfold held reg)?)
    fix k x assume x: "fmlookup (room_heap (mgr s')) k = Some x"
    show "k < room_next (mgr s')" "lifecycle_inv x" using x h(1,2) r life by (auto simp: s' split: if_splits)
    show "reg_status (mgr s) (instanceID (room x)) = Some RoomStatusCreated
        \<and> (\<exists>pl. fmlookup (held s pl) (instanceID (room x)) = Some k)
      \<or> reg_status (mgr s) (instanceID (room x)) = Some RoomStatusClosed \<and> status (room x) = RoomStatusClosed"
      using heap [OF x] h(3) by metis
  next
    fix k k' x x' assume "fmlookup (room_heap (mgr s')) k = Some x" "fmlookup (room_heap (mgr s')) k' = Some x'"
      "instanceID (room x) = instanceID (room x')"
    then show "k = k'" using heap h(4) by metis
  next
    fix i assume "reg_status (mgr s) i \<noteq> None"
    then show "\<exists>k x. fmlookup (room_heap (mgr s')) k = Some x \<and> instanceID (room x) = i"
      using h(5) heap' by metis
  qed
qed

lemma create_start_keeps:
  assumes inv: "own_inv s" "heap_inv s" and reg: "registry_inv (registry (mgr s))"
    and t: "fmlookup (calls s) t = Some (Creating i l b)" and new: "instance_of (registry (mgr s)) i = None"
    and op: "register_and_start now i l b (mgr s) = (Inr r, m)"
    and s': "s' = s\<lparr>mgr := m, calls := fmupd t (Starting i r) (calls s)\<rparr>"
  shows "own_inv s' \<and> heap_inv s'"
proof
  note o = own_invD [OF inv(1)] and h = heap_invD [OF inv(2)]
  obtain p m' where rs: "register_and_start now i l b (mgr s) = (Inr (room_next (mgr s)), m')"
      "room_heap m' = fmupd (room_next (mgr s)) p (room_heap (mgr s))" "room_next m' = room_next (mgr s) + 1"
      "instanceID (room p) = i" "status (room p) = RoomStatusRunning" "lifecycle_inv p"
      "rooms m' = rooms (mgr s)" "instance_of (registry m') = (instance_of (registry (mgr s)))(i \<mapsto>
            \<lparr>ri_InstanceID = i, ri_LogicalRoomID = l, ri_Status = RoomStatusCreated, ri_CreatedAt = now, ri_ClosedAt = None\<rparr>)"
    by (rule register_and_start_new [OF reg new, of now l b])
  have m: "m' = m" "r = room_next (mgr s)" using rs(1) op by simp_all
  note rs = rs(2-) [unfolded m(1), folded m(2)]
  have held: "held s' = (held s)(Some t := fmupd i r fmempty)" "held s (Some t) = fmempty"
    using t rs(6) by (auto simp: s' held_calls fun_eq_iff)
  have st: "reg_status (mgr s') = (reg_status (mgr s))(i \<mapsto> RoomStatusCreated)"
    by (simp add: s' reg_status_def rs(7) fun_eq_iff)
  have none: "reg_status (mgr s) i = None" using new by (simp add: reg_status_def)
  have free: "fmlookup (held s pl) i = None" for pl using o(3) none by (cases "fmlookup (held s pl) i") auto
  have fresh: "fmlookup (room_heap (mgr s)) r = None" using h(1) m(2) by (cases "fmlookup (room_heap (mgr s)) r") auto
  have other: "instanceID (room x) \<noteq> i" if "fmlookup (room_heap (mgr s)) k = Some x" for k x
    using h(3) [OF that] none by auto
  have heap: "room_heap (mgr s') = fmupd r p (room_heap (mgr s))" "room_next (mgr s') = r + 1"
    using rs m(2) by (simp_all add: s')
  show "own_inv s'"
  proof (rule own_invI; unfold held(1) st heap)
    fix pl i' r' assume "fmlookup (((held s)(Some t := fmupd i r fmempty)) pl) i' = Some r'"
    then have c: "pl = Some t \<and> i' = i \<and> r' = r \<or> fmlookup (held s pl) i' = Some r'" by (auto split: if_splits)
    then show "\<exists>x. fmlookup (fmupd r p (room_heap (mgr s))) r' = Some x \<and> instanceID (room x) = i'"
      using rs(3) fresh o(2) [of pl i' r'] by auto
    show "((reg_status (mgr s))(i \<mapsto> RoomStatusCreated)) i' = Some RoomStatusCreated" using c o(3) by auto
  next
    fix pl pl' i' r1 r2
    assume "fmlookup (((held s)(Some t := fmupd i r fmempty)) pl) i' = Some r1"
      and "fmlookup (((held s)(Some t := fmupd i r fmempty)) pl') i' = Some r2"
    then show "pl = pl'" using o(1) [of pl i' r1 pl' r2] free [of pl] free [of pl'] by (auto split: if_splits)
  qed
  show "heap_inv s'"
  proof (rule heap_invI; unfold held(1) st heap)
    fix k x assume x: "fmlookup (fmupd r p (room_heap (mgr s))) k = Some x"
    then have c: "k = r \<and> x = p \<or> fmlookup (room_heap (mgr s)) k = Some x" by (auto split: if_splits)
    show "k < r + 1" using c h(1) [of k x] m(2) by auto
    show "lifecycle_inv x" using c rs(5) h(2) by blast
    show "((reg_status (mgr s))(i \<mapsto> RoomStatusCreated)) (instanceID (room x)) = Some RoomStatusCreated
        \<and> (\<exists>pl. fmlookup (((held s)(Some t := fmupd i r fmempty)) pl) (instanceID (room x)) = Some k)
      \<or> ((reg_status (mgr s))(i \<mapsto> RoomStatusCreated)) (instanceID (room x)) = Some RoomStatusClosed
        \<and> status (room x) = RoomStatusClosed"
      using c
    proof
      assume "k = r \<and> x = p"
      then show ?thesis using rs(3) by (auto intro!: exI [of _ "Some t"])
    next
      assume x: "fmlookup (room_heap (mgr s)) k = Some x"
      have "((held s)(Some t := fmupd i r fmempty)) pl = held s pl"
        if "fmlookup (held s pl) (instanceID (room x)) = Some k" for pl using that held(2) by auto
      then show ?thesis using h(3) [OF x] other [OF x] by (metis fun_upd_other)
    qed
  next
    fix k k' x x' assume "fmlookup (fmupd r p (room_heap (mgr s))) k = Some x"
      "fmlookup (fmupd r p (room_heap (mgr s))) k' = Some x'" "instanceID (room x) = instanceID (room x')"
    then show "k = k'" using other [of k x] other [of k' x'] h(4) [of k x k' x'] rs(3) by (auto split: if_splits)
  next
    fix j assume "((reg_status (mgr s))(i \<mapsto> RoomStatusCreated)) j \<noteq> None"
    then show "\<exists>k x. fmlookup (fmupd r p (room_heap (mgr s))) k = Some x \<and> instanceID (room x) = j"
    proof (cases "j = i")
      case False
      with \<open>_ \<noteq> None\<close> obtain k x where "fmlookup (room_heap (mgr s)) k = Some x" "instanceID (room x) = j"
        using h(5) [of j] by auto
      then show ?thesis using fresh by (intro exI [of _ k] exI [of _ x]) auto
    qed (use rs(3) in auto)
  qed
qed

lemma stopped_keeps:
  assumes inv: "own_inv s" "heap_inv s" and reg: "registry_inv (registry (mgr s))"
    and t: "fmlookup (calls s) t = Some (Stopping rs)" and i: "fmlookup rs i = Some r"
    and p: "fmlookup (room_heap (mgr s)) r = Some p" "status (room p) = RoomStatusClosed"
    and s': "s' = s\<lparr>mgr := close_in_registry now i (mgr s), calls := fmupd t (Stopping (fmdrop i rs)) (calls s)\<rparr>"
  shows "own_inv s' \<and> heap_inv s'"
proof
  note o = own_invD [OF inv(1)] and h = heap_invD [OF inv(2)]
  have mine: "fmlookup (held s (Some t)) i = Some r" using t i by (simp add: held_calls)
  have held: "held s' = (held s)(Some t := fmdrop i rs)" "held s (Some t) = rs"
    using t by (auto simp: s' held_calls fun_eq_iff)
  have st: "reg_status (mgr s') = (reg_status (mgr s))(i \<mapsto> RoomStatusClosed)"
    using o(3) [OF mine] close_in_registry_registry(3) [OF reg] by (simp add: s' fun_eq_iff)
  have heap: "room_heap (mgr s') = room_heap (mgr s)" "room_next (mgr s') = room_next (mgr s)" by (simp_all add: s')
  have less: "fmlookup (((held s)(Some t := fmdrop i rs)) pl) j = Some k \<longleftrightarrow>
      fmlookup (held s pl) j = Some k \<and> j \<noteq> i" for pl j k
    using held(2) o(1) [OF mine, of pl k] by auto
  have id: "instanceID (room p) = i" using o(2) [OF mine] p(1) by simp
  show "own_inv s'"
    by (rule own_invI; unfold held(1) st heap less) (use o in \<open>blast, blast, auto\<close>)
  show "heap_inv s'"
  proof (rule heap_invI; unfold held(1) st heap less)
    fix k x assume x: "fmlookup (room_heap (mgr s)) k = Some x"
    show "((reg_status (mgr s))(i \<mapsto> RoomStatusClosed)) (instanceID (room x)) = Some RoomStatusCreated
        \<and> (\<exists>pl. fmlookup (held s pl) (instanceID (room x)) = Some k \<and> instanceID (room x) \<noteq> i)
      \<or> ((reg_status (mgr s))(i \<mapsto> RoomStatusClosed)) (instanceID (room x)) = Some RoomStatusClosed
        \<and> status (room x) = RoomStatusClosed"
    proof (cases "instanceID (room x) = i")
      case True
      then have "k = r" using h(4) [OF x p(1)] id by simp
      with x p True show ?thesis by simp
    qed (use h(3) [OF x] in auto)
    show "k < room_next (mgr s)" "lifecycle_inv x" by (fact h(1,2) [OF x])+
  next
    fix j assume "((reg_status (mgr s))(i \<mapsto> RoomStatusClosed)) j \<noteq> None"
    then show "\<exists>k x. fmlookup (room_heap (mgr s)) k = Some x \<and> instanceID (room x) = j"
      using h(5) [of j] p(1) id by (cases "j = i") auto
  qed (use h(4) in blast)
qed

lemma bounded_step_inv:
  assumes step: "bounded_step s s'" and inv: "manager_inv s"
  shows "manager_inv s'"
proof -
  have ids: "ids_inv s" and own: "own_inv s" and heap: "heap_inv s" using inv by (simp_all add: manager_inv_def)
  note o = own_invD [OF own]
  from step have ms: "manager_step s s'" and bound: "instanceCounter (mgr s) \<noteq> - 1" by (auto simp: bounded_step_def)
  have "own_inv s' \<and> heap_inv s'"
    using ms
  proof cases
    case (room_moves r p q)
    from room_moves_keep [OF own heap room_moves(2,3,1)] show ?thesis .
  next
    case (create_draw t l i m b)
    have m: "m = (mgr s)\<lparr>instanceCounter := instanceCounter (mgr s) + 1\<rparr>"
      by (rule next_id_fresh(4) [OF bound create_draw(3)])
    have "held s' = held s" using create_draw(2) by (auto simp: create_draw(1) m held_calls fun_eq_iff)
    then show ?thesis by (intro holders_change [OF own heap])
        (use o(1) in \<open>auto simp: create_draw(1) m reg_status_def fun_eq_iff\<close>)
  next
    case (create_fail t i l b now e m)
    obtain p m' where "register_and_start now i l b (mgr s) = (Inr (room_next (mgr s)), m')"
      by (rule register_and_start_new [OF reg_inv [OF ids] creating_fresh [OF ids create_fail(2)], of now l b])
    with create_fail show ?thesis by simp
  next
    case (create_start t i l b now r m)
    from create_start_keeps [OF own heap reg_inv [OF ids] create_start(2) creating_fresh [OF ids create_start(2)]
        create_start(3,1)] show ?thesis .
  next
    case (create_publish t i r)
    have h: "held s' = (held s)(None := fmupd i r (rooms (mgr s)), Some t := fmempty)" "held s (Some t) = fmupd i r fmempty"
      using create_publish(2) by (auto simp: create_publish(1) held_calls publish_room_def fun_eq_iff)
    have free: "fmlookup (rooms (mgr s)) i = None"
      using o(1) [of None i _ "Some t" r] h(2) by (cases "fmlookup (rooms (mgr s)) i") (auto simp: held_calls)
    show ?thesis by (rule holders_transfer [OF own heap _ _ _ h(1)])
        (use free in \<open>auto simp: create_publish(1) publish_room_def h(2) held_calls split: if_splits\<close>)
  next
    case (close_unlink t i r m)
    then have m: "m = (mgr s)\<lparr>rooms := fmdrop i (rooms (mgr s))\<rparr>" "fmlookup (rooms (mgr s)) i = Some r"
      by (auto simp: CloseRoom_unlink_def split: option.splits)
    have h: "held s' = (held s)(None := fmdrop i (rooms (mgr s)), Some t := fmupd i r fmempty)" "held s (Some t) = fmempty"
      using close_unlink(2) by (auto simp: close_unlink(1) m held_calls fun_eq_iff)
    show ?thesis by (rule holders_transfer [OF own heap _ _ _ h(1)])
        (use m(2) in \<open>auto simp: close_unlink(1) m(1) h(2) held_calls split: if_splits\<close>)
  next
    case (shutdown_unlink t rs m)
    then have m: "m = (mgr s)\<lparr>rooms := fmempty\<rparr>" "rs = rooms (mgr s)" by (auto simp: Shutdown_unlink_def)
    have h: "held s' = (held s)(None := fmempty, Some t := rooms (mgr s))" "held s (Some t) = fmempty"
      using shutdown_unlink(2) by (auto simp: shutdown_unlink(1) m held_calls fun_eq_iff)
    show ?thesis by (rule holders_transfer [OF own heap _ _ _ h(1)])
        (auto simp: shutdown_unlink(1) m(1) h(2) held_calls)
  next
    case (stopped t rs i r p now)
    from stopped_keeps [OF own heap reg_inv [OF ids] stopped(2-5,1)] show ?thesis .
  next
    case (stop_done t)
    have "held s' = held s" using stop_done(2) by (auto simp: stop_done(1) held_calls fun_eq_iff)
    then show ?thesis by (intro holders_change [OF own heap]) (use o(1) in \<open>auto simp: stop_done(1)\<close>)
  qed
  with bounded_step_ids [OF step ids] show ?thesis by (simp add: manager_inv_def)
qed

interpretation mi: step_invariant bounded_step manager_inv
  by unfold_locales (rule bounded_step_inv)

lemma reachable_manager_inv: "manager_reachable cfg s \<Longrightarrow> manager_inv s"
  using mi.along new_run_inv by (simp add: manager_reachable_def)

text \<open>What a step does to the registry: nothing, one registration, or closing one instance.\<close>

lemma bounded_step_registry:
  assumes "bounded_step s s'" "ids_inv s"
  shows "registry (mgr s') = registry (mgr s)
    \<or> (\<exists>now spec. registry (mgr s') = snd (registry_create now spec (registry (mgr s))))
    \<or> (\<exists>now i. registry (mgr s') = snd (registry_mark now i (registry (mgr s))))"
proof -
  have "manager_step s s'" using assms(1) by (simp add: bounded_step_def)
  then show ?thesis
  proof cases
    case (create_fail t i l b now e m)
    obtain p m' where "register_and_start now i l b (mgr s) = (Inr (room_next (mgr s)), m')"
      by (rule register_and_start_new [OF reg_inv [OF assms(2)] creating_fresh [OF assms(2) create_fail(2)], of now l b])
    with create_fail show ?thesis by simp
  next
    case (create_start t i l b now r m)
    then show ?thesis
      by (auto simp: register_and_start_def registry_create_def split_beta Let_def split: prod.splits sum.splits option.splits)
        (metis snd_conv)+
  next
    case (stopped t rs i r p now)
    then show ?thesis by (auto simp: close_in_registry_def registry_mark_def split_beta)
  qed (auto simp: generateInstanceID_def publish_room_def CloseRoom_unlink_def Shutdown_unlink_def Let_def split: option.splits)
qed

section \<open>A run used by the witnesses\<close>

definition demo_run1 :: manager_run where
  "demo_run1 = (let (i, m) = generateInstanceID ''expo'' (mgr (new_run DefaultRoomConfig))
     in \<lparr>mgr = m, calls = fmupd 0 (Creating i ''expo'' True) fmempty\<rparr>)"

definition demo_run2 :: manager_run where
  "demo_run2 = (let m = snd (register_and_start 9 (instance_id ''expo'' 1) ''expo'' True (mgr demo_run1))
     in demo_run1\<lparr>mgr := m, calls := fmupd 0 (Starting (instance_id ''expo'' 1) 0) (calls demo_run1)\<rparr>)"

definition demo_run3 :: manager_run where
  "demo_run3 = demo_run2\<lparr>mgr := publish_room (instance_id ''expo'' 1) 0 (mgr demo_run2), calls := fmdrop 0 (calls demo_run2)\<rparr>"

lemma demo_run1_reachable: "manager_reachable DefaultRoomConfig demo_run1"
proof -
  have "manager_step (new_run DefaultRoomConfig) demo_run1"
    using create_draw [of "new_run DefaultRoomConfig" 0 "''expo''" _ _ True]
    by (simp add: demo_run1_def generateInstanceID_def new_run_def Let_def)
  then show ?thesis
    by (auto simp: manager_reachable_def bounded_step_def new_run_def NewRoomManager_def intro!: r_into_rtranclp)
qed

lemma demo_run1_parts:
  "calls demo_run1 = fmupd 0 (Creating (instance_id ''expo'' 1) ''expo'' True) fmempty"
  "instanceCounter (mgr demo_run1) = 1" "room_next (mgr demo_run1) = 0" "rooms (mgr demo_run1) = fmempty"
  by (simp_all add: demo_run1_def generateInstanceID_def new_run_def NewRoomManager_def Let_def)

lemma demo_start:
  "register_and_start 9 (instance_id ''expo'' 1) ''expo'' True (mgr demo_run1) = (Inr 0, mgr demo_run2)"
  "rooms (mgr demo_run2) = fmempty" "instanceCounter (mgr demo_run2) = 1"
proof -
  note ids = reachable_manager_inv [OF demo_run1_reachable, unfolded manager_inv_def, THEN conjunct1]
  have "fmlookup (calls demo_run1) 0 = Some (Creating (instance_id ''expo'' 1) ''expo'' True)" by (simp add: demo_run1_parts)
  from register_and_start_new [OF reg_inv [OF ids] creating_fresh [OF ids this], of 9 "''expo''" True]
  obtain m' where "register_and_start 9 (instance_id ''expo'' 1) ''expo'' True (mgr demo_run1) = (Inr 0, m')"
      "rooms m' = fmempty" "instanceCounter m' = 1" by (metis demo_run1_parts(2-4))
  then show "register_and_start 9 (instance_id ''expo'' 1) ''expo'' True (mgr demo_run1) = (Inr 0, mgr demo_run2)"
    "rooms (mgr demo_run2) = fmempty" "instanceCounter (mgr demo_run2) = 1"
    by (simp_all add: demo_run2_def)
qed

lemma demo_run3_reachable: "manager_reachable DefaultRoomConfig demo_run3"
proof -
  have "demo_run2 = demo_run1\<lparr>mgr := mgr demo_run2, calls := fmupd 0 (Starting (instance_id ''expo'' 1) 0) (calls demo_run1)\<rparr>"
    by (simp add: demo_run2_def)
  then have "bounded_step demo_run1 demo_run2"
    using create_start [OF _ demo_start(1), of 0] by (simp add: bounded_step_def demo_run1_parts)
  moreover have "bounded_step demo_run2 demo_run3"
    using create_publish [of demo_run2 0 "instance_id ''expo'' 1" 0]
    by (simp add: bounded_step_def demo_run3_def demo_start(3)) (simp add: demo_run2_def)
  ultimately show ?thesis using demo_run1_reachable
    unfolding manager_reachable_def by (meson rtranclp.rtrancl_into_rtrancl)
qed

lemma demo_run3_registered: "reg_status (mgr demo_run3) (instance_id ''expo'' 1) = Some RoomStatusCreated"
proof (rule held_created)
  show "own_inv demo_run3" using reachable_manager_inv [OF demo_run3_reachable] by (simp add: manager_inv_def)
  show "fmlookup (held demo_run3 None) (instance_id ''expo'' 1) = Some 0"
    by (simp add: held_calls demo_run3_def publish_room_def)
qed

section \<open>Properties\<close>

text \<open>
  C12: Live map and registry agree. In every reachable interleaving of creations, closings, shutdowns
  and room activity, a room in the live map is the room of that identifier and its registry
  entry is open; a room whose registry entry is closed has really stopped and is not in the map;
  and whenever no manager call is in progress, the live map holds exactly the instances the
  registry has open.
\<close>

theorem manager_registry_agree:
  assumes "manager_reachable cfg s"
  shows "(\<forall>i r. Manager_GetRoom i (mgr s) = Inr r \<longrightarrow> reg_status (mgr s) i = Some RoomStatusCreated
          \<and> (\<exists>p. fmlookup (room_heap (mgr s)) r = Some p \<and> instanceID (room p) = i))
    \<and> (\<forall>i. reg_status (mgr s) i = Some RoomStatusClosed \<longrightarrow> isl (Manager_GetRoom i (mgr s))
          \<and> (\<forall>r p. fmlookup (room_heap (mgr s)) r = Some p \<longrightarrow> instanceID (room p) = i \<longrightarrow> status (room p) = RoomStatusClosed))
    \<and> (calls s = fmempty \<longrightarrow> (\<forall>i. reg_status (mgr s) i = Some RoomStatusCreated \<longleftrightarrow> i |\<in>| fmdom (rooms (mgr s))))"
proof -
  note inv = reachable_manager_inv [OF assms, unfolded manager_inv_def]
  note o = own_invD [OF inv [THEN conjunct2, THEN conjunct1]] and h = heap_invD [OF inv [THEN conjunct2, THEN conjunct2]]
  have get: "Manager_GetRoom i (mgr s) = Inr r \<longleftrightarrow> fmlookup (held s None) i = Some r" for i r
    by (simp add: Manager_GetRoom_def held_calls(5) split: option.split)
  have "isl (Manager_GetRoom i (mgr s))" if "reg_status (mgr s) i = Some RoomStatusClosed" for i
    using that o(3) [of None i] get [of i] by (cases "Manager_GetRoom i (mgr s)") auto
  moreover have "reg_status (mgr s) i = Some RoomStatusCreated \<longleftrightarrow> i |\<in>| fmdom (rooms (mgr s))"
    if e: "calls s = fmempty" for i
  proof
    have only: "held s pl = (if pl = None then rooms (mgr s) else fmempty)" for pl
      using e by (cases pl) (simp_all add: held_def)
    assume st: "reg_status (mgr s) i = Some RoomStatusCreated"
    then obtain r p where "fmlookup (room_heap (mgr s)) r = Some p" "instanceID (room p) = i" using h(5) [of i] by auto
    with h(3) [of r p] st obtain pl where "fmlookup (held s pl) i = Some r" by auto
    then show "i |\<in>| fmdom (rooms (mgr s))" using only [of pl] by (auto intro: fmdomI split: if_splits)
  next
    assume "i |\<in>| fmdom (rooms (mgr s))"
    then show "reg_status (mgr s) i = Some RoomStatusCreated" using o(3) [of None i] by (auto simp: held_calls(5) elim: fmdomE)
  qed
  moreover have "status (room p) = RoomStatusClosed"
    if "reg_status (mgr s) i = Some RoomStatusClosed" "fmlookup (room_heap (mgr s)) r = Some p" "instanceID (room p) = i" for i r p
    using h(3) [of r p] that by auto
  ultimately show ?thesis using o(2,3) [of None] get by blast
qed

theorem manager_registry_agree_witness:
  "reg_status (mgr demo_run3) (instance_id ''expo'' 1) = Some RoomStatusCreated"
proof -
  have "Manager_GetRoom (instance_id ''expo'' 1) (mgr demo_run3) = Inr 0"
    by (simp add: Manager_GetRoom_def demo_run3_def publish_room_def)
  with manager_registry_agree [OF demo_run3_reachable] show ?thesis by blast
qed

text \<open>
  C25: Creating a room never fails on a duplicate identifier. In every reachable state, as long as
  fewer than 2^64 - 1 identifiers have been drawn, \<^verbatim>\<open>CreateRoomWithBroadcaster\<close> succeeds: it returns a
  running room under the identifier made of the logical name and the zero padded counter, which
  no instance had before, the room is found under that identifier, it is appended to the list of its
  logical room, and every other live room and registry entry is unchanged.
\<close>

theorem CreateRoom_succeeds:
  assumes "manager_reachable cfg s" and "instanceCounter (mgr s) \<noteq> - 1"
  shows "\<exists>r p m'. CreateRoomWithBroadcaster now l b (mgr s) = (Inr r, m')
    \<and> (let i = l @ ''-'' @ print_0d 4 (unat (instanceCounter (mgr s)) + 1) in
         reg_status (mgr s) i = None \<and> Manager_GetRoom i m' = Inr r
         \<and> fmlookup (room_heap m') r = Some p \<and> instanceID (room p) = i \<and> status (room p) = RoomStatusRunning
         \<and> listed (registry m') l = listed (registry (mgr s)) l @ [i]
         \<and> (\<forall>j. j \<noteq> i \<longrightarrow> reg_status m' j = reg_status (mgr s) j \<and> Manager_GetRoom j m' = Manager_GetRoom j (mgr s)))"
proof -
  note ids = reachable_manager_inv [OF assms(1), unfolded manager_inv_def, THEN conjunct1]
  obtain i m where g: "generateInstanceID l (mgr s) = (i, m)" by fastforce
  note f = next_id_fresh [OF assms(2) g]
  have i: "i = l @ ''-'' @ print_0d 4 (unat (instanceCounter (mgr s)) + 1)"
    using f(5) by (simp add: instance_id_def)
  have new: "instance_of (registry (mgr s)) i = None"
    using reg_drawn [OF ids] f(1) by (cases "instance_of (registry (mgr s)) i") auto
  have "registry_inv (registry m)" "instance_of (registry m) i = None" using reg_inv [OF ids] new by (simp_all add: f(4))
  then obtain p m' where rs: "register_and_start now i l b m = (Inr (room_next m), m')"
    "room_heap m' = fmupd (room_next m) p (room_heap m)" "instanceID (room p) = i"
    "status (room p) = RoomStatusRunning" "rooms m' = rooms m"
    "instance_of (registry m') = (instance_of (registry m))(i \<mapsto>
            \<lparr>ri_InstanceID = i, ri_LogicalRoomID = l, ri_Status = RoomStatusCreated, ri_CreatedAt = now, ri_ClosedAt = None\<rparr>)"
    "listed (registry m') = (listed (registry m))(l := listed (registry m) l @ [i])"
    by (rule register_and_start_new [of m i now l b]) blast
  show ?thesis unfolding i [symmetric] Let_def CreateRoomWithBroadcaster_def g prod.case rs(1) sum.case
    by (intro exI [of _ "room_next m"] exI [of _ p] exI [of _ "publish_room i (room_next m) m'"])
      (use rs new f(4) in \<open>auto simp: publish_room_def reg_status_def Manager_GetRoom_def\<close>)
qed

theorem CreateRoom_succeeds_witness:
  "\<exists>r m'. CreateRoomWithBroadcaster 10 ''expo'' False (mgr demo_run3) = (Inr r, m')"
proof -
  have "instanceCounter (mgr demo_run3) \<noteq> - 1" by (simp add: demo_run3_def publish_room_def demo_start(3))
  from CreateRoom_succeeds [OF demo_run3_reachable this] show ?thesis by blast
qed

text \<open>
  The registry forgets nothing. Whatever the manager does later, an instance that is registered
  keeps its identifier, logical room and creation time, and once closed stays closed.
\<close>

theorem registry_forgets_nothing:
  assumes "manager_reachable cfg s" and "bounded_step\<^sup>*\<^sup>* s s'" and "instance_of (registry (mgr s)) i = Some x"
  shows "\<exists>y. instance_of (registry (mgr s')) i = Some y \<and> ri_InstanceID y = ri_InstanceID x
    \<and> ri_LogicalRoomID y = ri_LogicalRoomID x \<and> ri_CreatedAt y = ri_CreatedAt x
    \<and> (ri_Status x = RoomStatusClosed \<longrightarrow> ri_Status y = RoomStatusClosed)"
proof -
  have "\<exists>y. instance_of (registry (mgr s')) i = Some y \<and> same_instance x y" using assms(2)
  proof (induction rule: rtranclp_induct)
    case base
    then show ?case using assms(3) by (auto simp: same_instance_def)
  next
    case (step u v)
    then obtain y where y: "instance_of (registry (mgr u)) i = Some y" "same_instance x y" by blast
    have ids: "ids_inv u" using reachable_manager_inv [of cfg u] assms(1) step.hyps(1)
      by (auto simp: manager_reachable_def manager_inv_def intro: rtranclp_trans)
    have "\<exists>z. instance_of (registry (mgr v)) i = Some z \<and> same_instance y z"
      using bounded_step_registry [OF step.hyps(2) ids]
    proof (elim disjE exE)
      assume "registry (mgr v) = registry (mgr u)"
      then show ?thesis using y(1) by (simp add: same_instance_def)
    next
      fix now spec assume "registry (mgr v) = snd (registry_create now spec (registry (mgr u)))"
      then show ?thesis using rg.create_keeps [OF reg_inv [OF ids] y(1), of now spec] by simp
    next
      fix now j assume "registry (mgr v) = snd (registry_mark now j (registry (mgr u)))"
      then show ?thesis using rg.mark_keeps [OF reg_inv [OF ids] y(1), of now j] by simp
    qed
    then obtain z where "instance_of (registry (mgr v)) i = Some z" "same_instance y z" by blast
    with y(2) show ?case by (intro exI [of _ z]) (simp add: same_instance_def)
  qed
  then show ?thesis by (simp add: same_instance_def)
qed

theorem registry_forgets_nothing_witness:
  "instance_of (registry (mgr demo_run3)) (instance_id ''expo'' 1) \<noteq> None"
proof -
  obtain x where "instance_of (registry (mgr demo_run3)) (instance_id ''expo'' 1) = Some x"
    using demo_run3_registered by (auto simp: reg_status_def)
  from registry_forgets_nothing [OF demo_run3_reachable rtranclp.rtrancl_refl this] show ?thesis by auto
qed

end
