(* ===== verification/Protocol.thy ===== *)
theory Protocol
  imports GoFloat GoFmt
begin

text \<open>
  Package \<^verbatim>\<open>internal/protocol\<close>: message types and limits (\<^verbatim>\<open>protocol.go\<close>), the wire messages and their
  validation (\<^verbatim>\<open>messages.go\<close>) and the two layers of encoding (\<^verbatim>\<open>codec.go\<close>). MessagePack is a
  third-party package: it is the parameter \<open>msgpack\<close>, and what the code relies on is the named
  hypothesis \<open>msgpack_roundtrip\<close>. The Go values passed as \<^verbatim>\<open>interface\<close> are the constructors of
  \<open>wire_msg\<close>; the target pointer of a decode is its \<open>msg_kind\<close>.
\<close>

section \<open>Message types and limits\<close>

type_synonym MessageType = u16

definition CurrentVersion :: u16 where "CurrentVersion = 1"
definition MinVersion :: u16 where "MinVersion = 1"
definition MaxVersion :: u16 where "MaxVersion = 1"
definition MaxPacketSize :: nat where "MaxPacketSize = 64 * 1024"
definition MaxPayloadSize :: nat where "MaxPayloadSize = 60 * 1024"

definition TypeHello :: MessageType where "TypeHello = 1"
definition TypeJoinRoom :: MessageType where "TypeJoinRoom = 2"
definition TypeReconnect :: MessageType where "TypeReconnect = 3"
definition TypePlayerInput :: MessageType where "TypePlayerInput = 4"
definition TypePing :: MessageType where "TypePing = 5"
definition TypePlayerTransformUpdate :: MessageType where "TypePlayerTransformUpdate = 6"
definition TypeWelcome :: MessageType where "TypeWelcome = 1001"
definition TypeJoinAccepted :: MessageType where "TypeJoinAccepted = 1002"
definition TypeReconnectAccepted :: MessageType where "TypeReconnectAccepted = 1003"
definition TypeReconnectRejected :: MessageType where "TypeReconnectRejected = 1004"
definition TypeFullSnapshot :: MessageType where "TypeFullSnapshot = 1005"
definition TypePlayerDelta :: MessageType where "TypePlayerDelta = 1006"
definition TypeObjectDelta :: MessageType where "TypeObjectDelta = 1007"
definition TypeVoiceGroupDelta :: MessageType where "TypeVoiceGroupDelta = 1008"
definition TypeLockAccepted :: MessageType where "TypeLockAccepted = 1009"
definition TypeLockRejected :: MessageType where "TypeLockRejected = 1010"
definition TypeClusterMembershipDelta :: MessageType where "TypeClusterMembershipDelta = 1011"
definition TypeError :: MessageType where "TypeError = 1100"
definition TypePong :: MessageType where "TypePong = 1101"

lemmas type_defs = TypeHello_def TypeJoinRoom_def TypeReconnect_def TypePlayerInput_def TypePing_def
  TypePlayerTransformUpdate_def TypeWelcome_def TypeJoinAccepted_def TypeReconnectAccepted_def
  TypeReconnectRejected_def TypeFullSnapshot_def TypePlayerDelta_def TypeObjectDelta_def
  TypeVoiceGroupDelta_def TypeLockAccepted_def TypeLockRejected_def TypeClusterMembershipDelta_def
  TypeError_def TypePong_def

definition IsClientToServer :: "MessageType \<Rightarrow> bool" where
  "IsClientToServer mt \<longleftrightarrow> mt \<ge> 1 \<and> mt \<le> 99"

definition IsServerToClient :: "MessageType \<Rightarrow> bool" where
  "IsServerToClient mt \<longleftrightarrow> mt \<ge> 1000 \<and> mt \<le> 1999"

definition MessageType_String :: "MessageType \<Rightarrow> string" where
  "MessageType_String mt =
     (if mt = TypeHello then ''Hello''
      else if mt = TypeJoinRoom then ''JoinRoom''
      else if mt = TypeReconnect then ''Reconnect''
      else if mt = TypePlayerInput then ''PlayerInput''
      else if mt = TypePing then ''Ping''
      else if mt = TypePlayerTransformUpdate then ''PlayerTransformUpdate''
      else if mt = TypeWelcome then ''Welcome''
      else if mt = TypeJoinAccepted then ''JoinAccepted''
      else if mt = TypeReconnectAccepted then ''ReconnectAccepted''
      else if mt = TypeReconnectRejected then ''ReconnectRejected''
      else if mt = TypeFullSnapshot then ''FullSnapshot''
      else if mt = TypePlayerDelta then ''PlayerDelta''
      else if mt = TypeObjectDelta then ''ObjectDelta''
      else if mt = TypeVoiceGroupDelta then ''VoiceGroupDelta''
      else if mt = TypeLockAccepted then ''LockAccepted''
      else if mt = TypeLockRejected then ''LockRejected''
      else if mt = TypeClusterMembershipDelta then ''ClusterMembershipDelta''
      else if mt = TypeError then ''Error''
      else if mt = TypePong then ''Pong''
      else ''Unknown('' @ print_d (unat mt) @ '')'')"

definition IsKnown :: "MessageType \<Rightarrow> bool" where
  "IsKnown mt \<longleftrightarrow> mt \<in> set [TypeHello, TypeJoinRoom, TypeReconnect, TypePlayerInput, TypePing,
     TypePlayerTransformUpdate, TypeWelcome, TypeJoinAccepted, TypeReconnectAccepted,
     TypeReconnectRejected, TypeFullSnapshot, TypePlayerDelta, TypeObjectDelta, TypeVoiceGroupDelta,
     TypeLockAccepted, TypeLockRejected, TypeClusterMembershipDelta, TypeError, TypePong]"

definition IsImplemented :: "MessageType \<Rightarrow> bool" where
  "IsImplemented mt \<longleftrightarrow> mt \<in> set [TypeHello, TypeJoinRoom, TypePlayerInput, TypePing,
     TypePlayerTransformUpdate, TypeWelcome, TypeJoinAccepted, TypeFullSnapshot, TypePlayerDelta,
     TypeError, TypePong]"

record Envelope =
  env_Version :: u16
  env_Type :: MessageType
  env_Seq :: u32
  env_Tick :: u32
  env_Body :: bytes

record ProtocolError =
  pe_Code :: u16
  pe_Message :: string

definition ProtocolError_Error :: "ProtocolError \<Rightarrow> string" where
  "ProtocolError_Error e = ''protocol error '' @ print_d (unat (pe_Code e)) @ '': '' @ pe_Message e"

definition ErrCodeInvalidVersion :: u16 where "ErrCodeInvalidVersion = 1"
definition ErrCodeInvalidType :: u16 where "ErrCodeInvalidType = 2"
definition ErrCodeAuthFailed :: u16 where "ErrCodeAuthFailed = 3"
definition ErrCodeRoomFull :: u16 where "ErrCodeRoomFull = 4"
definition ErrCodeRoomNotFound :: u16 where "ErrCodeRoomNotFound = 5"
definition ErrCodePayloadTooLarge :: u16 where "ErrCodePayloadTooLarge = 6"
definition ErrCodeInternal :: u16 where "ErrCodeInternal = 99"

datatype proto_err =
  UnsupportedVersion u16 | UnimplementedType MessageType | PacketTooLarge nat | PayloadTooLarge nat
| FieldNotFinite string string | PlayerIDRequired string | EmptyPlayerDelta
| AtIndex string nat proto_err | EncodeFailed string string | DecodeFailed string string

definition ValidateVersion :: "u16 \<Rightarrow> proto_err option" where
  "ValidateVersion v = (if v < MinVersion \<or> v > MaxVersion then Some (UnsupportedVersion v) else None)"

definition ValidateMessageType :: "MessageType \<Rightarrow> proto_err option" where
  "ValidateMessageType mt = (if \<not> IsImplemented mt then Some (UnimplementedType mt) else None)"

definition ValidatePacketSize :: "bytes \<Rightarrow> proto_err option" where
  "ValidatePacketSize data = (if length data > MaxPacketSize then Some (PacketTooLarge (length data)) else None)"

definition ValidatePayloadSize :: "bytes \<Rightarrow> proto_err option" where
  "ValidatePayloadSize body = (if length body > MaxPayloadSize then Some (PayloadTooLarge (length body)) else None)"

section \<open>Messages\<close>

record Hello = hello_Version :: u16

record JoinRoom =
  jr_RoomInstanceID :: string
  jr_SessionToken :: string
  jr_UserID :: string

record Ping = ping_Timestamp :: int

record PlayerInputMsg =
  pim_Seq :: u32
  pim_MoveX :: gofloat
  pim_MoveZ :: gofloat
  pim_Yaw :: gofloat
  pim_AnimState :: u16

record PlayerTransformUpdateMsg =
  ptm_Seq :: u32
  ptm_X :: gofloat
  ptm_Z :: gofloat
  ptm_Yaw :: gofloat
  ptm_AnimState :: u16

record Welcome =
  w_Version :: u16
  w_ServerID :: string
  w_Timestamp :: int

record JoinAccepted =
  ja_RoomInstanceID :: string
  ja_LogicalRoomID :: string
  ja_PlayerID :: string
  ja_Tick :: u32

record ServerError =
  se_Code :: u16
  se_Message :: string

record Pong =
  pong_Timestamp :: int
  pong_ServerTick :: u32

record PlayerSnapshotMsg =
  psm_PlayerID :: string
  psm_X :: gofloat
  psm_Z :: gofloat
  psm_Yaw :: gofloat
  psm_AnimState :: u16
  psm_Version :: u32

record PlayerEnterMsg =
  pem_PlayerID :: string
  pem_X :: gofloat
  pem_Z :: gofloat
  pem_Yaw :: gofloat
  pem_AnimState :: u16
  pem_Version :: u32

record PlayerUpdateMsg =
  pum_PlayerID :: string
  pum_X :: gofloat
  pum_Z :: gofloat
  pum_Yaw :: gofloat
  pum_AnimState :: u16
  pum_Version :: u32

record PlayerLeaveMsg =
  plm_PlayerID :: string

record FullSnapshotMsg =
  fs_Tick :: u32
  fs_Players :: "PlayerSnapshotMsg list"

record PlayerDeltaMsg =
  pdm_Tick :: u32
  pdm_Enters :: "PlayerEnterMsg list"
  pdm_Updates :: "PlayerUpdateMsg list"
  pdm_Leaves :: "PlayerLeaveMsg list"

datatype wire_msg =
  MsgHello Hello | MsgJoinRoom JoinRoom | MsgPing Ping | MsgPlayerInput PlayerInputMsg
| MsgPlayerTransformUpdate PlayerTransformUpdateMsg | MsgWelcome Welcome | MsgJoinAccepted JoinAccepted
| MsgServerError ServerError | MsgPong Pong | MsgFullSnapshot FullSnapshotMsg | MsgPlayerDelta PlayerDeltaMsg

datatype msg_kind =
  KHello | KJoinRoom | KPing | KPlayerInput | KPlayerTransformUpdate | KWelcome | KJoinAccepted
| KServerError | KPong | KFullSnapshot | KPlayerDelta

fun kind_of :: "wire_msg \<Rightarrow> msg_kind" where
  "kind_of (MsgHello _) = KHello"
| "kind_of (MsgJoinRoom _) = KJoinRoom"
| "kind_of (MsgPing _) = KPing"
| "kind_of (MsgPlayerInput _) = KPlayerInput"
| "kind_of (MsgPlayerTransformUpdate _) = KPlayerTransformUpdate"
| "kind_of (MsgWelcome _) = KWelcome"
| "kind_of (MsgJoinAccepted _) = KJoinAccepted"
| "kind_of (MsgServerError _) = KServerError"
| "kind_of (MsgPong _) = KPong"
| "kind_of (MsgFullSnapshot _) = KFullSnapshot"
| "kind_of (MsgPlayerDelta _) = KPlayerDelta"

section \<open>Validation of messages\<close>

text \<open>The first field in iteration order that is not finite is reported.\<close>

definition validateFiniteFields :: "map_order \<Rightarrow> string \<Rightarrow> (string, gofloat) fmap \<Rightarrow> proto_err option" where
  "validateFiniteFields ord owner flds =
     map_option (FieldNotFinite owner)
       (find (\<lambda>name. IsNaN (map_get (FNum 0) flds name) \<or> IsInf (map_get (FNum 0) flds name)) (ord (fmdom flds)))"

definition validateFiniteTransform :: "map_order \<Rightarrow> string \<Rightarrow> gofloat \<Rightarrow> gofloat \<Rightarrow> gofloat \<Rightarrow> proto_err option" where
  "validateFiniteTransform ord owner x z yaw =
     validateFiniteFields ord owner (fmap_of_list [(''X'', x), (''Z'', z), (''Yaw'', yaw)])"

definition PlayerInput_Validate :: "map_order \<Rightarrow> PlayerInputMsg \<Rightarrow> proto_err option" where
  "PlayerInput_Validate ord m =
     validateFiniteFields ord ''PlayerInput''
       (fmap_of_list [(''MoveX'', pim_MoveX m), (''MoveZ'', pim_MoveZ m), (''Yaw'', pim_Yaw m)])"

definition PlayerTransformUpdate_Validate :: "map_order \<Rightarrow> PlayerTransformUpdateMsg \<Rightarrow> proto_err option" where
  "PlayerTransformUpdate_Validate ord m =
     validateFiniteTransform ord ''PlayerTransformUpdate'' (ptm_X m) (ptm_Z m) (ptm_Yaw m)"

definition PlayerSnapshot_Validate :: "map_order \<Rightarrow> PlayerSnapshotMsg \<Rightarrow> proto_err option" where
  "PlayerSnapshot_Validate ord m =
     (if psm_PlayerID m = [] then Some (PlayerIDRequired ''PlayerSnapshot'')
      else validateFiniteTransform ord ''PlayerSnapshot'' (psm_X m) (psm_Z m) (psm_Yaw m))"

definition PlayerEnterDelta_Validate :: "map_order \<Rightarrow> PlayerEnterMsg \<Rightarrow> proto_err option" where
  "PlayerEnterDelta_Validate ord m =
     (if pem_PlayerID m = [] then Some (PlayerIDRequired ''PlayerEnterDelta'')
      else validateFiniteTransform ord ''PlayerEnterDelta'' (pem_X m) (pem_Z m) (pem_Yaw m))"

definition PlayerUpdateDelta_Validate :: "map_order \<Rightarrow> PlayerUpdateMsg \<Rightarrow> proto_err option" where
  "PlayerUpdateDelta_Validate ord m =
     (if pum_PlayerID m = [] then Some (PlayerIDRequired ''PlayerUpdateDelta'')
      else validateFiniteTransform ord ''PlayerUpdateDelta'' (pum_X m) (pum_Z m) (pum_Yaw m))"

definition PlayerLeaveDelta_Validate :: "PlayerLeaveMsg \<Rightarrow> proto_err option" where
  "PlayerLeaveDelta_Validate m = (if plm_PlayerID m = [] then Some (PlayerIDRequired ''PlayerLeaveDelta'') else None)"

text \<open>The loops over the entries: the first failing one is reported with its index.\<close>

fun validate_entries :: "string \<Rightarrow> ('a \<Rightarrow> proto_err option) \<Rightarrow> nat \<Rightarrow> 'a list \<Rightarrow> proto_err option" where
  "validate_entries owner check i [] = None"
| "validate_entries owner check i (x # xs) =
     (case check x of Some e \<Rightarrow> Some (AtIndex owner i e) | None \<Rightarrow> validate_entries owner check (i + 1) xs)"

definition FullSnapshot_Validate :: "map_order \<Rightarrow> FullSnapshotMsg \<Rightarrow> proto_err option" where
  "FullSnapshot_Validate ord m =
     validate_entries ''FullSnapshot.Players'' (PlayerSnapshot_Validate ord) 0 (fs_Players m)"

definition PlayerDeltaMsg_IsEmpty :: "PlayerDeltaMsg \<Rightarrow> bool" where
  "PlayerDeltaMsg_IsEmpty m \<longleftrightarrow>
     length (pdm_Enters m) = 0 \<and> length (pdm_Updates m) = 0 \<and> length (pdm_Leaves m) = 0"

definition PlayerDelta_Validate :: "map_order \<Rightarrow> PlayerDeltaMsg \<Rightarrow> proto_err option" where
  "PlayerDelta_Validate ord m =
     (if PlayerDeltaMsg_IsEmpty m then Some EmptyPlayerDelta
      else case validate_entries ''PlayerDelta.Enters'' (PlayerEnterDelta_Validate ord) 0 (pdm_Enters m) of
        Some e \<Rightarrow> Some e
      | None \<Rightarrow> (case validate_entries ''PlayerDelta.Updates'' (PlayerUpdateDelta_Validate ord) 0 (pdm_Updates m) of
          Some e \<Rightarrow> Some e
        | None \<Rightarrow> validate_entries ''PlayerDelta.Leaves'' PlayerLeaveDelta_Validate 0 (pdm_Leaves m)))"

text \<open>The type assertion to \<^verbatim>\<open>validatable\<close>: messages without a \<^verbatim>\<open>Validate\<close> method pass.\<close>

fun msg_Validate :: "map_order \<Rightarrow> wire_msg \<Rightarrow> proto_err option" where
  "msg_Validate ord (MsgPlayerInput m) = PlayerInput_Validate ord m"
| "msg_Validate ord (MsgPlayerTransformUpdate m) = PlayerTransformUpdate_Validate ord m"
| "msg_Validate ord (MsgFullSnapshot m) = FullSnapshot_Validate ord m"
| "msg_Validate ord (MsgPlayerDelta m) = PlayerDelta_Validate ord m"
| "msg_Validate ord _ = None"

section \<open>The codec\<close>

text \<open>The MessagePack package: \<^verbatim>\<open>Marshal\<close> and \<^verbatim>\<open>Unmarshal\<close> of envelopes and of messages.\<close>

record msgpack =
  marshal_env :: "Envelope \<Rightarrow> string + bytes"
  unmarshal_env :: "bytes \<Rightarrow> string + Envelope"
  marshal_msg :: "wire_msg \<Rightarrow> string + bytes"
  unmarshal_msg :: "msg_kind \<Rightarrow> bytes \<Rightarrow> string + wire_msg"

text \<open>What MessagePack documents: what was marshalled unmarshals to the same value, and the target type is kept.\<close>

definition msgpack_roundtrip :: "msgpack \<Rightarrow> bool" where
  "msgpack_roundtrip mp \<longleftrightarrow>
     (\<forall>e d. marshal_env mp e = Inr d \<longrightarrow> unmarshal_env mp d = Inr e)
     \<and> (\<forall>m d. marshal_msg mp m = Inr d \<longrightarrow> unmarshal_msg mp (kind_of m) d = Inr m)
     \<and> (\<forall>k d m. unmarshal_msg mp k d = Inr m \<longrightarrow> kind_of m = k)"

definition EncodeEnvelope :: "msgpack \<Rightarrow> Envelope \<Rightarrow> proto_err + bytes" where
  "EncodeEnvelope mp env =
     (case ValidateVersion (env_Version env) of Some e \<Rightarrow> Inl e | None \<Rightarrow>
      case ValidateMessageType (env_Type env) of Some e \<Rightarrow> Inl e | None \<Rightarrow>
      case ValidatePayloadSize (env_Body env) of Some e \<Rightarrow> Inl e | None \<Rightarrow>
      case marshal_env mp env of Inl e \<Rightarrow> Inl (EncodeFailed ''envelope'' e) | Inr data \<Rightarrow>
      case ValidatePacketSize data of Some e \<Rightarrow> Inl e | None \<Rightarrow> Inr data)"

definition DecodeEnvelope :: "msgpack \<Rightarrow> bytes \<Rightarrow> proto_err + Envelope" where
  "DecodeEnvelope mp data =
     (case ValidatePacketSize data of Some e \<Rightarrow> Inl e | None \<Rightarrow>
      case unmarshal_env mp data of Inl e \<Rightarrow> Inl (DecodeFailed ''envelope'' e) | Inr env \<Rightarrow>
      case ValidateVersion (env_Version env) of Some e \<Rightarrow> Inl e | None \<Rightarrow>
      case ValidateMessageType (env_Type env) of Some e \<Rightarrow> Inl e | None \<Rightarrow>
      case ValidatePayloadSize (env_Body env) of Some e \<Rightarrow> Inl e | None \<Rightarrow> Inr env)"

definition EncodeMessage :: "msgpack \<Rightarrow> map_order \<Rightarrow> wire_msg \<Rightarrow> proto_err + bytes" where
  "EncodeMessage mp ord msg =
     (case msg_Validate ord msg of Some e \<Rightarrow> Inl e | None \<Rightarrow>
      case marshal_msg mp msg of Inl e \<Rightarrow> Inl (EncodeFailed ''message'' e) | Inr data \<Rightarrow>
      case ValidatePayloadSize data of Some e \<Rightarrow> Inl e | None \<Rightarrow> Inr data)"

definition DecodeMessage :: "msgpack \<Rightarrow> map_order \<Rightarrow> bytes \<Rightarrow> msg_kind \<Rightarrow> proto_err + wire_msg" where
  "DecodeMessage mp ord body k =
     (case unmarshal_msg mp k body of Inl e \<Rightarrow> Inl (DecodeFailed ''message'' e) | Inr msg \<Rightarrow>
      case msg_Validate ord msg of Some e \<Rightarrow> Inl e | None \<Rightarrow> Inr msg)"

definition BuildEnvelope :: "msgpack \<Rightarrow> map_order \<Rightarrow> u16 \<Rightarrow> MessageType \<Rightarrow> u32 \<Rightarrow> u32 \<Rightarrow> wire_msg
    \<Rightarrow> proto_err + Envelope" where
  "BuildEnvelope mp ord version msgType seq tick msg =
     (case ValidateVersion version of Some e \<Rightarrow> Inl e | None \<Rightarrow>
      case ValidateMessageType msgType of Some e \<Rightarrow> Inl e | None \<Rightarrow>
      case EncodeMessage mp ord msg of Inl e \<Rightarrow> Inl e | Inr body \<Rightarrow>
      Inr \<lparr>env_Version = version, env_Type = msgType, env_Seq = seq, env_Tick = tick, env_Body = body\<rparr>)"

definition EncodeAndWrap :: "msgpack \<Rightarrow> map_order \<Rightarrow> u16 \<Rightarrow> MessageType \<Rightarrow> u32 \<Rightarrow> u32 \<Rightarrow> wire_msg
    \<Rightarrow> proto_err + bytes" where
  "EncodeAndWrap mp ord version msgType seq tick msg =
     (case BuildEnvelope mp ord version msgType seq tick msg of Inl e \<Rightarrow> Inl e | Inr env \<Rightarrow> EncodeEnvelope mp env)"

definition DecodeAndUnwrap :: "msgpack \<Rightarrow> map_order \<Rightarrow> bytes \<Rightarrow> msg_kind \<Rightarrow> proto_err + (Envelope \<times> wire_msg)" where
  "DecodeAndUnwrap mp ord data k =
     (case DecodeEnvelope mp data of Inl e \<Rightarrow> Inl e | Inr env \<Rightarrow>
      case DecodeMessage mp ord (env_Body env) k of Inl e \<Rightarrow> Inl e | Inr msg \<Rightarrow> Inr (env, msg))"

section \<open>Lemmas\<close>

lemma find_None_range:
  "range_order ord \<Longrightarrow> find P (ord A) = None \<longleftrightarrow> (\<forall>x. x |\<in>| A \<longrightarrow> \<not> P x)"
  by (auto simp: find_None_iff range_orderD)

lemma validateFiniteFields_None:
  assumes "range_order ord"
  shows "validateFiniteFields ord owner flds = None \<longleftrightarrow> (\<forall>n x. fmlookup flds n = Some x \<longrightarrow> finite_float x)"
proof -
  have "validateFiniteFields ord owner flds = None \<longleftrightarrow>
      (\<forall>n. n |\<in>| fmdom flds \<longrightarrow> finite_float (map_get (FNum 0) flds n))"
    using find_None_range [OF assms] by (simp add: validateFiniteFields_def finite_float_def)
  then show ?thesis by (auto simp: map_get_def intro: fmdomI elim!: fmdomE split: option.splits)
qed

lemma validate_three:
  assumes "range_order ord" "a \<noteq> b" "a \<noteq> c" "b \<noteq> c"
  shows "validateFiniteFields ord owner (fmupd a x (fmupd b y (fmupd c z fmempty))) = None \<longleftrightarrow>
    finite_float x \<and> finite_float y \<and> finite_float z"
  using assms(2-) unfolding validateFiniteFields_None [OF assms(1)] by auto

lemma validate_entries_None: "validate_entries owner check i xs = None \<longleftrightarrow> (\<forall>x\<in>set xs. check x = None)"
  by (induction xs arbitrary: i) (auto split: option.splits)

lemma first_error_None: "(case a of None \<Rightarrow> b | Some e \<Rightarrow> Some e) = None \<longleftrightarrow> a = None \<and> b = None"
  by (cases a) auto

text \<open>What a valid message is, without the iteration order.\<close>

definition finite_entry :: "string \<Rightarrow> gofloat \<Rightarrow> gofloat \<Rightarrow> gofloat \<Rightarrow> bool" where
  "finite_entry pid x z yaw \<longleftrightarrow> pid \<noteq> [] \<and> finite_float x \<and> finite_float z \<and> finite_float yaw"

fun valid_msg :: "wire_msg \<Rightarrow> bool" where
  "valid_msg (MsgPlayerInput m) \<longleftrightarrow> finite_float (pim_MoveX m) \<and> finite_float (pim_MoveZ m) \<and> finite_float (pim_Yaw m)"
| "valid_msg (MsgPlayerTransformUpdate m) \<longleftrightarrow> finite_float (ptm_X m) \<and> finite_float (ptm_Z m) \<and> finite_float (ptm_Yaw m)"
| "valid_msg (MsgFullSnapshot m) \<longleftrightarrow>
     (\<forall>p\<in>set (fs_Players m). finite_entry (psm_PlayerID p) (psm_X p) (psm_Z p) (psm_Yaw p))"
| "valid_msg (MsgPlayerDelta m) \<longleftrightarrow>
     \<not> (pdm_Enters m = [] \<and> pdm_Updates m = [] \<and> pdm_Leaves m = [])
     \<and> (\<forall>p\<in>set (pdm_Enters m). finite_entry (pem_PlayerID p) (pem_X p) (pem_Z p) (pem_Yaw p))
     \<and> (\<forall>p\<in>set (pdm_Updates m). finite_entry (pum_PlayerID p) (pum_X p) (pum_Z p) (pum_Yaw p))
     \<and> (\<forall>p\<in>set (pdm_Leaves m). plm_PlayerID p \<noteq> [])"
| "valid_msg _ \<longleftrightarrow> True"

lemma msg_Validate_None:
  assumes "range_order ord"
  shows "msg_Validate ord m = None \<longleftrightarrow> valid_msg m"
proof -
  note v = validate_three [OF assms]
  have "PlayerSnapshot_Validate ord p = None \<longleftrightarrow> finite_entry (psm_PlayerID p) (psm_X p) (psm_Z p) (psm_Yaw p)" for p
    by (simp add: PlayerSnapshot_Validate_def validateFiniteTransform_def v finite_entry_def)
  moreover have "PlayerEnterDelta_Validate ord p = None \<longleftrightarrow> finite_entry (pem_PlayerID p) (pem_X p) (pem_Z p) (pem_Yaw p)" for p
    by (simp add: PlayerEnterDelta_Validate_def validateFiniteTransform_def v finite_entry_def)
  moreover have "PlayerUpdateDelta_Validate ord p = None \<longleftrightarrow> finite_entry (pum_PlayerID p) (pum_X p) (pum_Z p) (pum_Yaw p)" for p
    by (simp add: PlayerUpdateDelta_Validate_def validateFiniteTransform_def v finite_entry_def)
  ultimately show ?thesis
    by (cases m) (simp_all add: PlayerInput_Validate_def PlayerTransformUpdate_Validate_def
        validateFiniteTransform_def v FullSnapshot_Validate_def validate_entries_None PlayerDelta_Validate_def
        PlayerDeltaMsg_IsEmpty_def PlayerLeaveDelta_Validate_def first_error_None)
qed

lemma ValidateVersion_if: "ValidateVersion v = (if v = 1 then None else Some (UnsupportedVersion v))"
  by (cases "v = 1") (auto simp: ValidateVersion_def MinVersion_def MaxVersion_def linorder_neq_iff)

lemmas check_simps = ValidateVersion_if ValidatePacketSize_def ValidatePayloadSize_def ValidateMessageType_def

lemma EncodeEnvelope_iff:
  "EncodeEnvelope mp env = Inr data \<longleftrightarrow> env_Version env = 1 \<and> IsImplemented (env_Type env)
     \<and> length (env_Body env) \<le> MaxPayloadSize \<and> marshal_env mp env = Inr data \<and> length data \<le> MaxPacketSize"
  by (auto simp: EncodeEnvelope_def check_simps split: if_splits sum.splits)

lemma DecodeEnvelope_iff:
  "DecodeEnvelope mp data = Inr env \<longleftrightarrow> length data \<le> MaxPacketSize \<and> unmarshal_env mp data = Inr env
     \<and> env_Version env = 1 \<and> IsImplemented (env_Type env) \<and> length (env_Body env) \<le> MaxPayloadSize"
  by (auto simp: DecodeEnvelope_def check_simps split: if_splits sum.splits)

lemma EncodeMessage_iff:
  assumes "range_order ord"
  shows "EncodeMessage mp ord m = Inr body \<longleftrightarrow>
    valid_msg m \<and> marshal_msg mp m = Inr body \<and> length body \<le> MaxPayloadSize"
  using msg_Validate_None [OF assms, of m]
  by (auto simp: EncodeMessage_def check_simps split: if_splits option.splits sum.splits)

lemma DecodeMessage_iff:
  assumes "range_order ord"
  shows "DecodeMessage mp ord body k = Inr m \<longleftrightarrow> unmarshal_msg mp k body = Inr m \<and> valid_msg m"
  using msg_Validate_None [OF assms, of m]
  by (auto simp: DecodeMessage_def split: option.splits sum.splits)

lemma EncodeAndWrap_iff:
  assumes "range_order ord"
  shows "EncodeAndWrap mp ord v t s k m = Inr data \<longleftrightarrow>
    (\<exists>body. v = 1 \<and> IsImplemented t \<and> valid_msg m \<and> marshal_msg mp m = Inr body \<and> length body \<le> MaxPayloadSize
       \<and> marshal_env mp \<lparr>env_Version = v, env_Type = t, env_Seq = s, env_Tick = k, env_Body = body\<rparr> = Inr data
       \<and> length data \<le> MaxPacketSize)"
proof (cases "EncodeMessage mp ord m")
  case (Inl e)
  then have "\<not> (valid_msg m \<and> marshal_msg mp m = Inr body \<and> length body \<le> MaxPayloadSize)" for body
    using EncodeMessage_iff [OF assms, of mp m body] by auto
  then show ?thesis using Inl by (auto simp: EncodeAndWrap_def BuildEnvelope_def split: option.splits)
next
  case (Inr body)
  note b = Inr [unfolded EncodeMessage_iff [OF assms]]
  show ?thesis using Inr b
    by (auto simp: EncodeAndWrap_def BuildEnvelope_def EncodeEnvelope_iff check_simps split: if_splits)
qed

lemma wrap_unwrap:
  assumes "msgpack_roundtrip mp" and "range_order ord" and "range_order ord'"
    and "EncodeAndWrap mp ord v t s k m = Inr data"
  shows "\<exists>body. DecodeAndUnwrap mp ord' data (kind_of m) =
      Inr (\<lparr>env_Version = 1, env_Type = t, env_Seq = s, env_Tick = k, env_Body = body\<rparr>, m)
    \<and> length body \<le> MaxPayloadSize \<and> length data \<le> MaxPacketSize \<and> IsImplemented t \<and> valid_msg m"
proof -
  obtain body where b: "v = 1" "IsImplemented t" "valid_msg m" "marshal_msg mp m = Inr body"
      "length body \<le> MaxPayloadSize" "length data \<le> MaxPacketSize"
      "marshal_env mp \<lparr>env_Version = v, env_Type = t, env_Seq = s, env_Tick = k, env_Body = body\<rparr> = Inr data"
    using assms(4) unfolding EncodeAndWrap_iff [OF assms(2)] by blast
  then have "unmarshal_env mp data = Inr \<lparr>env_Version = 1, env_Type = t, env_Seq = s, env_Tick = k, env_Body = body\<rparr>"
    and "unmarshal_msg mp (kind_of m) body = Inr m"
    using assms(1) by (auto simp: msgpack_roundtrip_def)
  then have "DecodeEnvelope mp data = Inr \<lparr>env_Version = 1, env_Type = t, env_Seq = s, env_Tick = k, env_Body = body\<rparr>"
    and "DecodeMessage mp ord' body (kind_of m) = Inr m"
    using b by (simp_all add: DecodeEnvelope_iff DecodeMessage_iff [OF assms(3)])
  then show ?thesis using b
    by (intro exI [of _ body]) (simp add: DecodeAndUnwrap_def)
qed

text \<open>The names as a table.\<close>

definition type_names :: "(MessageType \<times> string) list" where
  "type_names = [(TypeHello, ''Hello''), (TypeJoinRoom, ''JoinRoom''), (TypeReconnect, ''Reconnect''),
     (TypePlayerInput, ''PlayerInput''), (TypePing, ''Ping''), (TypePlayerTransformUpdate, ''PlayerTransformUpdate''),
     (TypeWelcome, ''Welcome''), (TypeJoinAccepted, ''JoinAccepted''), (TypeReconnectAccepted, ''ReconnectAccepted''),
     (TypeReconnectRejected, ''ReconnectRejected''), (TypeFullSnapshot, ''FullSnapshot''), (TypePlayerDelta, ''PlayerDelta''),
     (TypeObjectDelta, ''ObjectDelta''), (TypeVoiceGroupDelta, ''VoiceGroupDelta''), (TypeLockAccepted, ''LockAccepted''),
     (TypeLockRejected, ''LockRejected''), (TypeClusterMembershipDelta, ''ClusterMembershipDelta''),
     (TypeError, ''Error''), (TypePong, ''Pong'')]"

lemma MessageType_String_table:
  "MessageType_String t = (case map_of type_names t of Some n \<Rightarrow> n | None \<Rightarrow> ''Unknown('' @ print_d (unat t) @ '')'')"
  unfolding MessageType_String_def type_names_def by simp

lemma type_names_inj: "map_of type_names t = Some n \<Longrightarrow> map_of type_names u = Some n \<Longrightarrow> t = u"
proof -
  assume "map_of type_names t = Some n" "map_of type_names u = Some n"
  then have "(t, n) \<in> set type_names" "(u, n) \<in> set type_names" by (auto dest: map_of_SomeD)
  moreover have "distinct (map snd type_names)" by (simp add: type_names_def)
  ultimately show "t = u" by (metis distinct_map inj_onD snd_conv fst_conv)
qed

lemma type_names_known: "map_of type_names t = Some n \<Longrightarrow> take 8 n \<noteq> ''Unknown(''"
proof -
  assume "map_of type_names t = Some n"
  then have "n \<in> snd ` set type_names" by (force dest: map_of_SomeD)
  then show ?thesis by (auto simp: type_names_def)
qed

lemma MessageType_String_inj: "MessageType_String t = MessageType_String u \<longleftrightarrow> t = u"
proof
  assume e: "MessageType_String t = MessageType_String u"
  have unk: "take 8 (''Unknown('' @ xs) = ''Unknown(''" for xs by simp
  show "t = u"
  proof (cases "map_of type_names t"; cases "map_of type_names u")
    assume "map_of type_names t = None" "map_of type_names u = None"
    then have "print_d (unat t) = print_d (unat u)" using e by (simp add: MessageType_String_table)
    then have "unat t = unat u" by (metis read_print_d)
    then show ?thesis by (simp add: word_unat_eq_iff)
  next
    fix n assume "map_of type_names t = None" "map_of type_names u = Some n"
    then show ?thesis using e type_names_known [of u n] unk by (simp only: MessageType_String_table option.case) metis
  next
    fix n assume "map_of type_names t = Some n" "map_of type_names u = None"
    then show ?thesis using e type_names_known [of t n] unk by (simp only: MessageType_String_table option.case) metis
  next
    fix n k assume "map_of type_names t = Some n" "map_of type_names u = Some k"
    then show ?thesis using e type_names_inj by (simp add: MessageType_String_table)
  qed
qed simp

section \<open>A codec used by the witnesses\<close>

definition demo_msg :: wire_msg where
  "demo_msg = MsgPlayerInput \<lparr>pim_Seq = 3, pim_MoveX = FNum 1, pim_MoveZ = FNum 2, pim_Yaw = FNum 0, pim_AnimState = 0\<rparr>"

definition demo_envelope :: Envelope where
  "demo_envelope = \<lparr>env_Version = 1, env_Type = TypePlayerInput, env_Seq = 8, env_Tick = 9, env_Body = [1]\<rparr>"

text \<open>It knows one message and one envelope and refuses everything else.\<close>

definition one_message :: "wire_msg \<Rightarrow> Envelope \<Rightarrow> msgpack" where
  "one_message m e =
     \<lparr>marshal_env = (\<lambda>x. if x = e then Inr [7, 7] else Inl ''unsupported''),
      unmarshal_env = (\<lambda>d. if d = [7, 7] then Inr e else Inl ''malformed''),
      marshal_msg = (\<lambda>x. if x = m then Inr [1] else Inl ''unsupported''),
      unmarshal_msg = (\<lambda>k d. if d = [1] \<and> k = kind_of m then Inr m else Inl ''malformed'')\<rparr>"

lemma one_message_roundtrip: "msgpack_roundtrip (one_message m e)"
  by (auto simp: msgpack_roundtrip_def one_message_def split: if_splits)

lemma demo_encodes: "EncodeAndWrap (one_message demo_msg demo_envelope) sorted_order 1 TypePlayerInput 8 9 demo_msg = Inr [7, 7]"
  unfolding EncodeAndWrap_iff [OF sorted_order_range]
  by (simp add: one_message_def demo_msg_def demo_envelope_def IsImplemented_def MaxPayloadSize_def MaxPacketSize_def)

section \<open>Properties\<close>

text \<open>
  C18: What is sent is what arrives. If a message is encoded and wrapped, the packet is at most 64 KB and
  its body at most 60 KB, and decoding it on the other side gives back the same message under
  version 1 with the type, sequence number and tick it was wrapped with, whatever order the
  validation visits the fields in. The hypothesis is that MessagePack round-trips.
\<close>

theorem codec_roundtrip:
  assumes "msgpack_roundtrip mp" and "range_order ord" and "range_order ord'"
    and "EncodeAndWrap mp ord v t s k m = Inr data"
  shows "\<exists>body. DecodeAndUnwrap mp ord' data (kind_of m) =
      Inr (\<lparr>env_Version = 1, env_Type = t, env_Seq = s, env_Tick = k, env_Body = body\<rparr>, m)
    \<and> length body \<le> 60 * 1024 \<and> length data \<le> 64 * 1024 \<and> IsImplemented t \<and> valid_msg m"
  using wrap_unwrap [OF assms] by (simp add: MaxPayloadSize_def MaxPacketSize_def)

theorem codec_roundtrip_witness:
  "\<exists>env. DecodeAndUnwrap (one_message demo_msg demo_envelope) sorted_order [7, 7] KPlayerInput = Inr (env, demo_msg)"
  using codec_roundtrip [OF one_message_roundtrip sorted_order_range sorted_order_range demo_encodes]
  by (auto simp: demo_msg_def)

text \<open>
  C27: Nothing malformed gets past the decoder. Whatever bytes arrive, a packet that decodes is at most
  64 KB, has the supported version and an implemented type, its body is at most 60 KB, and the
  message has the requested type and passes its validation: every coordinate is a finite number
  and every player entry has an identifier.
\<close>

theorem decoded_is_valid:
  assumes "msgpack_roundtrip mp" and "range_order ord" and "DecodeAndUnwrap mp ord data k = Inr (env, m)"
  shows "length data \<le> 64 * 1024 \<and> env_Version env = 1 \<and> IsImplemented (env_Type env)
    \<and> length (env_Body env) \<le> 60 * 1024 \<and> kind_of m = k \<and> valid_msg m"
proof -
  have e: "DecodeEnvelope mp data = Inr env" and m: "DecodeMessage mp ord (env_Body env) k = Inr m"
    using assms(3) by (auto simp: DecodeAndUnwrap_def split: sum.splits)
  show ?thesis
    using e m assms(1) unfolding DecodeEnvelope_iff DecodeMessage_iff [OF assms(2)]
    by (auto simp: msgpack_roundtrip_def MaxPayloadSize_def MaxPacketSize_def)
qed

theorem decoded_is_valid_witness: "valid_msg demo_msg"
proof -
  have "DecodeEnvelope (one_message demo_msg demo_envelope) [7, 7] = Inr demo_envelope"
    unfolding DecodeEnvelope_iff
    by (simp add: one_message_def demo_envelope_def IsImplemented_def MaxPayloadSize_def MaxPacketSize_def)
  moreover have "DecodeMessage (one_message demo_msg demo_envelope) sorted_order (env_Body demo_envelope) KPlayerInput = Inr demo_msg"
    unfolding DecodeMessage_iff [OF sorted_order_range] by (simp add: one_message_def demo_envelope_def demo_msg_def)
  ultimately have "DecodeAndUnwrap (one_message demo_msg demo_envelope) sorted_order [7, 7] KPlayerInput = Inr (demo_envelope, demo_msg)"
    by (simp add: DecodeAndUnwrap_def)
  from decoded_is_valid [OF one_message_roundtrip sorted_order_range this] show ?thesis by simp
qed

text \<open>
  The tables of message types are consistent for all 65536 values: an implemented type is
  known, a known type goes in exactly one direction, and two types have the same name only if
  they are equal, unknown ones included.
\<close>

theorem message_type_tables:
  "(IsImplemented t \<longrightarrow> IsKnown t) \<and> (IsKnown t \<longrightarrow> IsClientToServer t \<noteq> IsServerToClient t)
   \<and> (MessageType_String t = MessageType_String u \<longleftrightarrow> t = u)"
proof (intro conjI impI)
  show "IsKnown t" if "IsImplemented t" using that by (auto simp: IsImplemented_def IsKnown_def)
  show "IsClientToServer t \<noteq> IsServerToClient t" if "IsKnown t"
    using that by (auto simp: IsKnown_def type_defs IsClientToServer_def IsServerToClient_def word_le_nat_alt)
qed (rule MessageType_String_inj)

theorem message_type_tables_witness:
  "IsKnown TypePong \<and> \<not> IsClientToServer TypePong \<and> MessageType_String 700 \<noteq> MessageType_String TypePong"
proof -
  have "IsImplemented TypePong" "IsServerToClient TypePong" "(700::u16) \<noteq> TypePong"
    by (simp_all add: IsImplemented_def IsServerToClient_def type_defs)
  with message_type_tables [of TypePong 700] show ?thesis by auto
qed

end
