(* ===== verification/Session.thy ===== *)
theory Session
  imports Prelude
begin

text \<open>
  Package \<^verbatim>\<open>internal/game/session\<close>: the session record (\<^verbatim>\<open>session.go\<close>) and the manager that registers,
  attaches, detaches and closes sessions (\<^verbatim>\<open>manager.go\<close>). The two indexes of the manager hold
  pointers to the same session records, and callers keep pointers too, so the records live in
  a heap and the indexes map to references. The transport connection behind a session is
  named by a number; what its \<^verbatim>\<open>Close\<close> and \<^verbatim>\<open>Send\<close> return is an argument. Every method of the manager
  runs under its mutex, so it is one step.
\<close>

section \<open>Data\<close>

type_synonym TransportType = string

definition KCP :: TransportType where "KCP = ''kcp''"
definition WebSocket :: TransportType where "WebSocket = ''websocket''"

datatype SessionState =
  SessionStatePending | SessionStateAttached | SessionStateDetached | SessionStateClosed
| SessionStateOther int

fun SessionState_String :: "SessionState \<Rightarrow> string" where
  "SessionState_String SessionStatePending = ''pending''"
| "SessionState_String SessionStateAttached = ''attached''"
| "SessionState_String SessionStateDetached = ''detached''"
| "SessionState_String SessionStateClosed = ''closed''"
| "SessionState_String (SessionStateOther _) = ''unknown''"

type_synonym conn_ref = nat
type_synonym session_ref = nat

record Session =
  s_id :: string
  s_userID :: string
  s_roomInstanceID :: string
  s_transportType :: TransportType
  s_conn :: conn_ref
  s_state :: SessionState
  s_createdAt :: time

definition Session_Send :: "(conn_ref \<Rightarrow> bytes \<Rightarrow> 'e option) \<Rightarrow> Session \<Rightarrow> bytes \<Rightarrow> 'e option" where
  "Session_Send conn_send s packet = conn_send (s_conn s) packet"

definition Session_Close :: "(conn_ref \<Rightarrow> 'e option) \<Rightarrow> Session \<Rightarrow> 'e option" where
  "Session_Close conn_close s = conn_close (s_conn s)"

record SessionManager =
  heap :: "(session_ref, Session) fmap"
  next_ref :: session_ref
  byID :: "(string, session_ref) fmap"
  byUser :: "(string, session_ref) fmap"

datatype session_err =
  AlreadyRegistered string | SessionNotFound string | CannotAttach string SessionState
| UserHasSession string string | ConnCloseError string

section \<open>The manager\<close>

definition NewSessionManager :: SessionManager where
  "NewSessionManager = \<lparr>heap = fmempty, next_ref = 0, byID = fmempty, byUser = fmempty\<rparr>"

definition Register :: "time \<Rightarrow> string \<Rightarrow> TransportType \<Rightarrow> conn_ref \<Rightarrow> SessionManager
    \<Rightarrow> (session_err + session_ref) \<times> SessionManager" where
  "Register now sid t conn m =
     (if sid |\<in>| fmdom (byID m) then (Inl (AlreadyRegistered sid), m)
      else let r = next_ref m;
               sess = \<lparr>s_id = sid, s_userID = [], s_roomInstanceID = [], s_transportType = t, s_conn = conn,
                       s_state = SessionStatePending, s_createdAt = now\<rparr>
           in (Inr r, m\<lparr>heap := fmupd r sess (heap m), next_ref := r + 1, byID := fmupd sid r (byID m)\<rparr>))"

definition Session_Get :: "string \<Rightarrow> SessionManager \<Rightarrow> session_ref option" where
  "Session_Get sid m = fmlookup (byID m) sid"

definition GetByUser :: "string \<Rightarrow> SessionManager \<Rightarrow> session_ref option" where
  "GetByUser uid m = fmlookup (byUser m) uid"

text \<open>Reading and writing the record behind a pointer.\<close>

definition deref :: "SessionManager \<Rightarrow> session_ref \<Rightarrow> Session option" where
  "deref m r = fmlookup (heap m) r"

definition store_session :: "session_ref \<Rightarrow> Session \<Rightarrow> SessionManager \<Rightarrow> SessionManager" where
  "store_session r s m = m\<lparr>heap := fmupd r s (heap m)\<rparr>"

definition find_session :: "string \<Rightarrow> SessionManager \<Rightarrow> (session_ref \<times> Session) option" where
  "find_session sid m = Option.bind (fmlookup (byID m) sid) (\<lambda>r. map_option (\<lambda>s. (r, s)) (deref m r))"

text \<open>The check that another active session owns the user: \<^verbatim>\<open>existing.id != id\<close>.\<close>

definition other_owner :: "string \<Rightarrow> string \<Rightarrow> SessionManager \<Rightarrow> string option" where
  "other_owner sid userID m =
     (if userID = [] then None
      else case Option.bind (fmlookup (byUser m) userID) (deref m) of
             None \<Rightarrow> None
           | Some existing \<Rightarrow> if s_id existing \<noteq> sid then Some (s_id existing) else None)"

definition Attach :: "string \<Rightarrow> string \<Rightarrow> string \<Rightarrow> SessionManager \<Rightarrow> session_err option \<times> SessionManager" where
  "Attach sid userID roomInstanceID m =
     (case find_session sid m of
        None \<Rightarrow> (Some (SessionNotFound sid), m)
      | Some (r, sess) \<Rightarrow>
          if s_state sess \<noteq> SessionStatePending then (Some (CannotAttach sid (s_state sess)), m)
          else (case other_owner sid userID m of
                  Some existing \<Rightarrow> (Some (UserHasSession userID existing), m)
                | None \<Rightarrow>
                    let m = store_session r (sess\<lparr>s_userID := userID, s_roomInstanceID := roomInstanceID,
                                                    s_state := SessionStateAttached\<rparr>) m
                    in (None, if userID \<noteq> [] then m\<lparr>byUser := fmupd userID r (byUser m)\<rparr> else m)))"

definition Detach :: "string \<Rightarrow> SessionManager \<Rightarrow> session_err option \<times> SessionManager" where
  "Detach sid m =
     (case find_session sid m of
        None \<Rightarrow> (Some (SessionNotFound sid), m)
      | Some (r, sess) \<Rightarrow>
          if s_state sess = SessionStateClosed \<or> s_state sess = SessionStateDetached then (None, m)
          else let m = (if s_userID sess \<noteq> [] then m\<lparr>byUser := fmdrop (s_userID sess) (byUser m)\<rparr> else m)
               in (None, store_session r (sess\<lparr>s_roomInstanceID := [], s_userID := [], s_state := SessionStateDetached\<rparr>) m))"

text \<open>The last component lists the connections whose \<^verbatim>\<open>Close\<close> was called.\<close>

definition Close :: "(conn_ref \<Rightarrow> session_err option) \<Rightarrow> string \<Rightarrow> SessionManager
    \<Rightarrow> session_err option \<times> SessionManager \<times> conn_ref list" where
  "Close conn_close sid m =
     (case find_session sid m of
        None \<Rightarrow> (Some (SessionNotFound sid), m, [])
      | Some (r, sess) \<Rightarrow>
          if s_state sess = SessionStateClosed then (None, m, [])
          else let userID = s_userID sess;
                   m = m\<lparr>byID := fmdrop sid (byID m)\<rparr>;
                   m = (if userID \<noteq> [] then m\<lparr>byUser := fmdrop userID (byUser m)\<rparr> else m);
                   m = store_session r (sess\<lparr>s_state := SessionStateClosed\<rparr>) m
               in (conn_close (s_conn sess), m, [s_conn sess]))"

definition ActiveCount :: "SessionManager \<Rightarrow> nat" where
  "ActiveCount m = map_len (byID m)"

section \<open>Steps\<close>

inductive session_step :: "SessionManager \<Rightarrow> SessionManager \<Rightarrow> bool" where
  register: "Register now sid t conn m = (res, m') \<Longrightarrow> session_step m m'"
| attach: "Attach sid uid rid m = (err, m') \<Longrightarrow> session_step m m'"
| detach: "Detach sid m = (err, m') \<Longrightarrow> session_step m m'"
| close: "Close conn_close sid m = (err, m', conns) \<Longrightarrow> session_step m m'"

definition session_reachable :: "SessionManager \<Rightarrow> bool" where
  "session_reachable m \<longleftrightarrow> session_step\<^sup>*\<^sup>* NewSessionManager m"

section \<open>Invariant\<close>

text \<open>
  The identifier index finds exactly the sessions that are not closed; the user index finds
  exactly the attached sessions with a user; only attached sessions have a user or a room.
\<close>

definition session_ok :: "Session \<Rightarrow> bool" where
  "session_ok s \<longleftrightarrow>
     s_state s \<in> {SessionStatePending, SessionStateAttached, SessionStateDetached, SessionStateClosed}
     \<and> (s_state s \<in> {SessionStatePending, SessionStateDetached} \<longrightarrow> s_userID s = [] \<and> s_roomInstanceID s = [])"

definition session_inv :: "SessionManager \<Rightarrow> bool" where
  "session_inv m \<longleftrightarrow>
     (\<forall>r. r |\<in>| fmdom (heap m) \<longrightarrow> r < next_ref m)
     \<and> (\<forall>sid r. fmlookup (byID m) sid = Some r \<longleftrightarrow>
          (\<exists>s. fmlookup (heap m) r = Some s \<and> s_id s = sid \<and> s_state s \<noteq> SessionStateClosed))
     \<and> (\<forall>u r. fmlookup (byUser m) u = Some r \<longleftrightarrow>
          u \<noteq> [] \<and> (\<exists>s. fmlookup (heap m) r = Some s \<and> s_userID s = u \<and> s_state s = SessionStateAttached))
     \<and> (\<forall>r s. fmlookup (heap m) r = Some s \<longrightarrow> session_ok s)"

lemmas session_op_defs = Register_def Attach_def Detach_def Close_def find_session_def deref_def
  store_session_def other_owner_def

lemma session_inv_new: "session_inv NewSessionManager"
  by (simp add: session_inv_def NewSessionManager_def)

lemma session_invD:
  assumes "session_inv m"
  shows fresh_ref: "fmlookup (heap m) r = Some s \<Longrightarrow> r < next_ref m"
    and byID_iff: "fmlookup (byID m) sid = Some r \<longleftrightarrow>
          (\<exists>s. fmlookup (heap m) r = Some s \<and> s_id s = sid \<and> s_state s \<noteq> SessionStateClosed)"
    and byUser_iff: "fmlookup (byUser m) u = Some r \<longleftrightarrow>
          u \<noteq> [] \<and> (\<exists>s. fmlookup (heap m) r = Some s \<and> s_userID s = u \<and> s_state s = SessionStateAttached)"
  using assms by (auto simp: session_inv_def intro: fmdomI)

lemma byUser_nonempty: "session_inv m \<Longrightarrow> fmlookup (byUser m) u = Some q \<Longrightarrow> u \<noteq> []"
  using byUser_iff by blast

lemma stored_ok: "session_inv m \<Longrightarrow> fmlookup (heap m) r = Some s \<Longrightarrow> session_ok s"
  unfolding session_inv_def by blast

text \<open>A live session owns an entry of the user index exactly if it has a user.\<close>

lemma owned_user:
  assumes inv: "session_inv m" and s: "fmlookup (heap m) r = Some s" "s_state s \<noteq> SessionStateClosed"
  shows "fmlookup (byUser m) u = Some r \<longleftrightarrow> u \<noteq> [] \<and> u = s_userID s"
  using byUser_iff [OF inv, of u r] stored_ok [OF inv s(1)] s
  by (cases "s_state s") (auto simp: session_ok_def)

lemma released_user:
  assumes inv: "session_inv m" and s: "fmlookup (heap m) r = Some s" "s_state s \<noteq> SessionStateClosed"
  shows "fmlookup (if s_userID s \<noteq> [] then fmdrop (s_userID s) (byUser m) else byUser m) u = Some q \<longleftrightarrow>
    u \<noteq> [] \<and> q \<noteq> r \<and> fmlookup (byUser m) u = Some q"
proof (cases "u = s_userID s")
  case True
  then show ?thesis using owned_user [OF inv s, of u] byUser_nonempty [OF inv, of u q] by auto
next
  case False
  then show ?thesis using owned_user [OF inv s, of u] byUser_nonempty [OF inv, of u q] by auto
qed

text \<open>Under the invariant the lookup of a session is total on the index and exact.\<close>

lemma find_session_iff:
  assumes "session_inv m"
  shows "find_session sid m = Some (r, s) \<longleftrightarrow>
    fmlookup (heap m) r = Some s \<and> s_id s = sid \<and> s_state s \<noteq> SessionStateClosed"
  using byID_iff [OF assms, of sid]
  by (auto simp: find_session_def deref_def bind_eq_Some_conv)

lemma find_session_None:
  assumes "session_inv m"
  shows "find_session sid m = None \<longleftrightarrow> fmlookup (byID m) sid = None"
  using byID_iff [OF assms, of sid]
  by (cases "fmlookup (byID m) sid") (auto simp: find_session_def deref_def)

lemma Register_inv:
  assumes inv: "session_inv m" and op: "Register now sid t conn m = (res, m')"
  shows "session_inv m'"
proof (cases "sid |\<in>| fmdom (byID m)")
  case True
  then show ?thesis using inv op by (simp add: Register_def)
next
  case False
  then have free: "fmlookup (byID m) sid = None" by (simp add: fmdom_notD)
  have new: "fmlookup (heap m) (next_ref m) = None"
    using fresh_ref [OF inv] by (cases "fmlookup (heap m) (next_ref m)") auto
  have unused: "\<And>r s. fmlookup (heap m) r = Some s \<Longrightarrow> s_id s = sid \<Longrightarrow> s_state s = SessionStateClosed"
    using byID_iff [OF inv, of sid] free by auto
  have ok: "session_ok \<lparr>s_id = sid, s_userID = [], s_roomInstanceID = [], s_transportType = t, s_conn = conn,
                       s_state = SessionStatePending, s_createdAt = now\<rparr>"
    by (simp add: session_ok_def)
  show ?thesis
    using op False inv new unused ok unfolding session_inv_def Register_def Let_def
    by (auto simp: less_Suc_eq split: if_splits)
qed

text \<open>Two live sessions never share an identifier, two attached ones never a user.\<close>

lemma live_ids_unique:
  assumes "session_inv m" "fmlookup (heap m) r = Some s" "fmlookup (heap m) r' = Some s'"
    and "s_id s = s_id s'" "s_state s \<noteq> SessionStateClosed" "s_state s' \<noteq> SessionStateClosed"
  shows "r = r'"
  using byID_iff [OF assms(1), of "s_id s"] assms(2-) by (metis option.inject)

lemma attached_users_unique:
  assumes "session_inv m" "fmlookup (heap m) r = Some s" "fmlookup (heap m) r' = Some s'"
    and "s_userID s = s_userID s'" "s_userID s \<noteq> []"
    and "s_state s = SessionStateAttached" "s_state s' = SessionStateAttached"
  shows "r = r'"
  using byUser_iff [OF assms(1), of "s_userID s"] assms(2-) by (metis option.inject)

lemma Attach_cases:
  assumes inv: "session_inv m" and op: "Attach sid uid rid m = (err, m')"
  obtains (unchanged) "err \<noteq> None" "m' = m"
  | (attached) r s where "err = None" "fmlookup (heap m) r = Some s" "s_id s = sid"
      "s_state s = SessionStatePending" "uid = [] \<or> fmlookup (byUser m) uid = None"
      "heap m' = fmupd r (s\<lparr>s_userID := uid, s_roomInstanceID := rid, s_state := SessionStateAttached\<rparr>) (heap m)"
      "byUser m' = (if uid \<noteq> [] then fmupd uid r (byUser m) else byUser m)"
      "byID m' = byID m" "next_ref m' = next_ref m"
proof (cases "find_session sid m")
  case None
  then show ?thesis using op unchanged by (auto simp: Attach_def)
next
  case (Some p)
  then obtain r s where f: "find_session sid m = Some (r, s)" by (cases p) auto
  note live = f [unfolded find_session_iff [OF inv]]
  consider (state) "s_state s \<noteq> SessionStatePending"
    | (owner) e where "s_state s = SessionStatePending" "other_owner sid uid m = Some e"
    | (go) "s_state s = SessionStatePending" "other_owner sid uid m = None"
    by (cases "other_owner sid uid m") auto
  then show ?thesis
  proof cases
    case go
    have "uid = [] \<or> fmlookup (byUser m) uid = None"
    proof (rule ccontr)
      assume "\<not> ?thesis"
      then obtain e where u: "uid \<noteq> []" "fmlookup (byUser m) uid = Some e" by auto
      then obtain x where x: "fmlookup (heap m) e = Some x" "s_userID x = uid" "s_state x = SessionStateAttached"
        using byUser_iff [OF inv, of uid e] by auto
      with go u have "s_id x = sid" by (auto simp: other_owner_def deref_def split: if_splits)
      with x live go have "e = r" by (intro live_ids_unique [OF inv x(1)]) auto
      with x live go show False by simp
    qed
    then show ?thesis using op f live go
      by (intro attached [of r s]) (auto simp: Attach_def store_session_def Let_def split: if_splits)
  qed (use op f in \<open>auto simp: Attach_def intro: unchanged\<close>)
qed

text \<open>
  One lemma carries the operations that overwrite a live record: the indexes are right again
  once the identifier index follows the state and the user index follows the attachment.
\<close>

lemma session_inv_overwrite:
  assumes inv: "session_inv m" and live: "fmlookup (heap m) r = Some s" "s_state s \<noteq> SessionStateClosed"
    and h: "heap m' = fmupd r s' (heap m)" and n: "next_ref m' = next_ref m"
    and s': "s_id s' = s_id s" "session_ok s'"
    and id: "byID m' = (if s_state s' = SessionStateClosed then fmdrop (s_id s) (byID m) else byID m)"
    and us: "\<And>u q. fmlookup (byUser m') u = Some q \<longleftrightarrow> u \<noteq> [] \<and>
       (if q = r then s_userID s' = u \<and> s_state s' = SessionStateAttached else fmlookup (byUser m) u = Some q)"
  shows "session_inv m'"
proof -
  have own: "\<And>q x. fmlookup (heap m) q = Some x \<Longrightarrow> s_id x = s_id s \<Longrightarrow> q \<noteq> r \<Longrightarrow> s_state x = SessionStateClosed"
    using live_ids_unique [OF inv _ live(1)] live(2) by blast
  have "r < next_ref m" by (rule fresh_ref [OF inv live(1)])
  moreover have "fmlookup (byID m') sid = Some q \<longleftrightarrow>
      (\<exists>x. fmlookup (heap m') q = Some x \<and> s_id x = sid \<and> s_state x \<noteq> SessionStateClosed)" for sid q
    using byID_iff [OF inv, of sid q] live own s'
    by (cases "q = r"; cases "sid = s_id s") (auto simp: id h)
  moreover have "fmlookup (byUser m') u = Some q \<longleftrightarrow> u \<noteq> [] \<and>
      (\<exists>x. fmlookup (heap m') q = Some x \<and> s_userID x = u \<and> s_state x = SessionStateAttached)" for u q
    using byUser_iff [OF inv, of u q] us [of u q] by (cases "q = r") (simp_all add: h)
  moreover have "\<And>q x. fmlookup (heap m') q = Some x \<Longrightarrow> session_ok x"
    using inv s' by (auto simp: session_inv_def h split: if_splits)
  moreover have "\<And>q. q |\<in>| fmdom (heap m') \<Longrightarrow> q < next_ref m'"
    using inv \<open>r < next_ref m\<close> by (auto simp: session_inv_def h n)
  ultimately show ?thesis unfolding session_inv_def by blast
qed

lemma Attach_inv:
  assumes inv: "session_inv m" and op: "Attach sid uid rid m = (err, m')"
  shows "session_inv m'"
  using inv op
proof (cases rule: Attach_cases)
  case (attached r s)
  have "r \<noteq> q" if "fmlookup (byUser m) u = Some q" for u q
    using that byUser_iff [OF inv, of u q] attached by auto
  then have "fmlookup (byUser m') u = Some q \<longleftrightarrow> u \<noteq> [] \<and>
      (if q = r then uid = u else fmlookup (byUser m) u = Some q)" for u q
    using attached byUser_iff [OF inv, of u q] by auto
  with attached show ?thesis
    by (intro session_inv_overwrite [OF inv attached(2) _ attached(6)]) (simp_all add: session_ok_def)
qed (use inv in simp)

lemma Detach_cases:
  assumes inv: "session_inv m" and op: "Detach sid m = (err, m')"
  obtains (unchanged) "m' = m" "find_session sid m = None \<longrightarrow> err = Some (SessionNotFound sid)"
      "\<And>r s. find_session sid m = Some (r, s) \<Longrightarrow> err = None \<and> s_state s = SessionStateDetached"
  | (detached) r s where "err = None" "fmlookup (heap m) r = Some s" "s_id s = sid"
      "s_state s \<in> {SessionStatePending, SessionStateAttached}"
      "heap m' = fmupd r (s\<lparr>s_roomInstanceID := [], s_userID := [], s_state := SessionStateDetached\<rparr>) (heap m)"
      "byUser m' = (if s_userID s \<noteq> [] then fmdrop (s_userID s) (byUser m) else byUser m)"
      "byID m' = byID m" "next_ref m' = next_ref m"
proof (cases "find_session sid m")
  case None
  then show ?thesis using op unchanged by (auto simp: Detach_def)
next
  case (Some p)
  then obtain r s where f: "find_session sid m = Some (r, s)" by (cases p) auto
  note live = f [unfolded find_session_iff [OF inv]]
  then have ok: "session_ok s" using stored_ok [OF inv] by blast
  show ?thesis
  proof (cases "s_state s = SessionStateDetached")
    case True
    then show ?thesis using op f live unchanged by (auto simp: Detach_def)
  next
    case False
    then show ?thesis using op f live ok
      by (intro detached [of r s])
        (auto simp: Detach_def store_session_def Let_def session_ok_def split: if_splits)
  qed
qed

lemma Detach_inv:
  assumes inv: "session_inv m" and op: "Detach sid m = (err, m')"
  shows "session_inv m'"
  using inv op
proof (cases rule: Detach_cases)
  case (detached r s)
  then have live: "s_state s \<noteq> SessionStateClosed" by auto
  note user = released_user [OF inv detached(2) live, folded detached(6)]
  show ?thesis
    by (rule session_inv_overwrite [OF inv detached(2) live detached(5)]) (simp_all add: detached(3,7,8) user session_ok_def)
qed (use inv in simp)

lemma Close_cases:
  assumes inv: "session_inv m" and op: "Close conn_close sid m = (err, m', conns)"
  obtains (missing) "find_session sid m = None" "m' = m" "err = Some (SessionNotFound sid)" "conns = []"
  | (closed) r s where "err = conn_close (s_conn s)" "conns = [s_conn s]"
      "fmlookup (heap m) r = Some s" "s_id s = sid" "s_state s \<noteq> SessionStateClosed"
      "heap m' = fmupd r (s\<lparr>s_state := SessionStateClosed\<rparr>) (heap m)"
      "byUser m' = (if s_userID s \<noteq> [] then fmdrop (s_userID s) (byUser m) else byUser m)"
      "byID m' = fmdrop sid (byID m)" "next_ref m' = next_ref m"
proof (cases "find_session sid m")
  case None
  then show ?thesis using op by (intro missing) (simp_all add: Close_def)
next
  case (Some p)
  then obtain r s where f: "find_session sid m = Some (r, s)" by (cases p) auto
  note live = f [unfolded find_session_iff [OF inv]]
  have "Close conn_close sid m = (conn_close (s_conn s),
      m\<lparr>byID := fmdrop sid (byID m),
        byUser := (if s_userID s \<noteq> [] then fmdrop (s_userID s) (byUser m) else byUser m),
        heap := fmupd r (s\<lparr>s_state := SessionStateClosed\<rparr>) (heap m)\<rparr>, [s_conn s])"
    using live by (cases "s_userID s = []") (simp_all add: Close_def f store_session_def Let_def)
  then have e: "err = conn_close (s_conn s)" "conns = [s_conn s]"
      "m' = m\<lparr>byID := fmdrop sid (byID m),
        byUser := (if s_userID s \<noteq> [] then fmdrop (s_userID s) (byUser m) else byUser m),
        heap := fmupd r (s\<lparr>s_state := SessionStateClosed\<rparr>) (heap m)\<rparr>"
    using op by auto
  show ?thesis by (rule closed [of s r]) (use live in \<open>simp_all add: e\<close>)
qed

lemma Close_inv:
  assumes inv: "session_inv m" and op: "Close conn_close sid m = (err, m', conns)"
  shows "session_inv m'"
  using inv op
proof (cases rule: Close_cases)
  case (closed r s)
  note user = released_user [OF inv closed(3,5), folded closed(7)]
  show ?thesis
    by (rule session_inv_overwrite [OF inv closed(3,5,6)]) (simp_all add: closed(4,8,9) user session_ok_def)
qed (use inv in simp)

interpretation ss: step_invariant session_step session_inv
proof
  fix m m' assume "session_step m m'" "session_inv m"
  then show "session_inv m'"
    by cases (auto intro: Register_inv Attach_inv Detach_inv Close_inv)
qed

lemma reachable_inv: "session_reachable m \<Longrightarrow> session_inv m"
  using ss.along session_inv_new by (simp add: session_reachable_def)

lemma reachable_more: "session_reachable m \<Longrightarrow> session_step\<^sup>*\<^sup>* m m' \<Longrightarrow> session_reachable m'"
  by (simp add: session_reachable_def)

section \<open>The life of one session\<close>

text \<open>A record is only ever replaced by a later stage of the same session.\<close>

fun state_rank :: "SessionState \<Rightarrow> nat" where
  "state_rank SessionStatePending = 0"
| "state_rank SessionStateAttached = 1"
| "state_rank SessionStateDetached = 2"
| "state_rank SessionStateClosed = 3"
| "state_rank (SessionStateOther _) = 4"

definition later_stage :: "Session \<Rightarrow> Session \<Rightarrow> bool" where
  "later_stage s s' \<longleftrightarrow> s' = s \<or>
     (s_id s' = s_id s \<and> s_transportType s' = s_transportType s \<and> s_conn s' = s_conn s
      \<and> s_createdAt s' = s_createdAt s \<and> state_rank (s_state s) < state_rank (s_state s'))"

lemma later_stage_refl [simp, intro]: "later_stage s s"
  by (simp add: later_stage_def)

lemma later_stage_trans [trans]: "later_stage s t \<Longrightarrow> later_stage t u \<Longrightarrow> later_stage s u"
  by (auto simp: later_stage_def)

lemma later_stage_overwrite:
  assumes "fmlookup (heap m) r = Some s" "heap m' = fmupd r s' (heap m)" "later_stage s s'"
    and "fmlookup (heap m) q = Some x"
  shows "\<exists>x'. fmlookup (heap m') q = Some x' \<and> later_stage x x'"
  using assms by (cases "q = r") auto

lemma session_step_later:
  assumes step: "session_step m m'" and inv: "session_inv m" and x: "fmlookup (heap m) q = Some x"
  shows "\<exists>x'. fmlookup (heap m') q = Some x' \<and> later_stage x x'"
  using step
proof cases
  case (register now sid t conn res)
  then show ?thesis using x fresh_ref [OF inv x]
    by (auto simp: Register_def Let_def split: if_splits)
next
  case (attach sid uid rid err)
  show ?thesis using inv attach
  proof (cases rule: Attach_cases)
    case (attached r s)
    show ?thesis by (rule later_stage_overwrite [OF attached(2,6) _ x]) (simp add: later_stage_def attached)
  qed (use x in auto)
next
  case (detach sid err)
  show ?thesis using inv detach
  proof (cases rule: Detach_cases)
    case (detached r s)
    show ?thesis by (rule later_stage_overwrite [OF detached(2,5) _ x]) (use detached(4) in \<open>auto simp: later_stage_def\<close>)
  qed (use x in auto)
next
  case (close conn_close sid err conns)
  show ?thesis using inv close
  proof (cases rule: Close_cases)
    case (closed r s)
    show ?thesis by (rule later_stage_overwrite [OF closed(3,6) _ x])
        (use closed(5) stored_ok [OF inv closed(3)] in \<open>auto simp: later_stage_def session_ok_def\<close>)
  qed (use x in auto)
qed

lemma session_run_later:
  assumes "session_reachable m" and "session_step\<^sup>*\<^sup>* m m'" and "deref m r = Some s"
  shows "\<exists>s'. deref m' r = Some s' \<and> later_stage s s'"
  using assms(2,1,3) unfolding deref_def
proof (induction rule: rtranclp_induct)
  case base
  then show ?case by auto
next
  case (step p q)
  then obtain t where t: "fmlookup (heap p) r = Some t" "later_stage s t" by blast
  have "session_inv p" by (rule reachable_inv [OF reachable_more [OF step.prems(1) step.hyps(1)]])
  from session_step_later [OF step.hyps(2) this t(1)] t(2) show ?case by (blast intro: later_stage_trans)
qed

section \<open>A run used by the witnesses\<close>

definition demo_pending :: SessionManager where
  "demo_pending = snd (Register 5 ''s1'' KCP 7 NewSessionManager)"

definition demo_attached :: SessionManager where
  "demo_attached = snd (Attach ''s1'' ''u1'' ''r1'' demo_pending)"

definition demo_detached :: SessionManager where
  "demo_detached = snd (Detach ''s1'' demo_attached)"

lemmas demo_session_defs = demo_detached_def demo_attached_def demo_pending_def NewSessionManager_def

lemma demo_pending_step: "session_step NewSessionManager demo_pending"
  unfolding demo_pending_def by (rule register [OF surjective_pairing])

lemma demo_attached_step: "session_step demo_pending demo_attached"
  unfolding demo_attached_def by (rule attach [OF surjective_pairing])

lemma demo_detached_step: "session_step demo_attached demo_detached"
  unfolding demo_detached_def by (rule detach [OF surjective_pairing])

lemma demo_sessions_reachable:
  "session_reachable demo_pending" "session_reachable demo_attached" "session_reachable demo_detached"
  unfolding session_reachable_def
  by (meson demo_pending_step demo_attached_step demo_detached_step rtranclp.rtrancl_refl rtranclp.rtrancl_into_rtrancl)+

definition demo_session :: Session where
  "demo_session = \<lparr>s_id = ''s1'', s_userID = [], s_roomInstanceID = [], s_transportType = KCP, s_conn = 7,
     s_state = SessionStatePending, s_createdAt = 5\<rparr>"

lemma demo_heaps:
  "fmlookup (heap demo_pending) 0 = Some demo_session"
  "fmlookup (heap demo_attached) 0 = Some (demo_session
     \<lparr>s_userID := ''u1'', s_roomInstanceID := ''r1'', s_state := SessionStateAttached\<rparr>)"
  "fmlookup (heap demo_detached) 0 = Some (demo_session\<lparr>s_state := SessionStateDetached\<rparr>)"
  by (simp_all add: demo_session_defs session_op_defs demo_session_def)

section \<open>Properties\<close>

text \<open>
  C13: In every state the manager can reach, the two indexes describe the sessions exactly: looking
  up an identifier finds the one session with that identifier that is not closed, looking up a
  user finds the one attached session of that user, no two live sessions share an identifier, no
  user has two attached sessions, and a session without room has no user. \<^verbatim>\<open>ActiveCount\<close>
  counts the live sessions.
\<close>

theorem session_indexes_agree:
  assumes "session_reachable m"
  shows "(\<forall>sid r. Session_Get sid m = Some r \<longleftrightarrow>
        (\<exists>s. deref m r = Some s \<and> s_id s = sid \<and> s_state s \<noteq> SessionStateClosed))
    \<and> (\<forall>u r. GetByUser u m = Some r \<longleftrightarrow> u \<noteq> [] \<and>
        (\<exists>s. deref m r = Some s \<and> s_userID s = u \<and> s_state s = SessionStateAttached))
    \<and> (\<forall>r s. deref m r = Some s \<longrightarrow> s_state s \<in> {SessionStatePending, SessionStateDetached} \<longrightarrow>
        s_userID s = [] \<and> s_roomInstanceID s = [])
    \<and> ActiveCount m = card {r. \<exists>s. deref m r = Some s \<and> s_state s \<noteq> SessionStateClosed}"
    (is "?get \<and> ?user \<and> ?plain \<and> ActiveCount m = card ?live")
proof (intro conjI)
  note inv = reachable_inv [OF assms]
  show ?get using byID_iff [OF inv] by (simp add: Session_Get_def deref_def)
  then have get: "Session_Get sid m = Some r \<longleftrightarrow>
      (\<exists>s. deref m r = Some s \<and> s_id s = sid \<and> s_state s \<noteq> SessionStateClosed)" for sid r
    by blast
  show ?user using byUser_iff [OF inv] by (simp add: GetByUser_def deref_def)
  show ?plain using stored_ok [OF inv] unfolding deref_def session_ok_def by blast
  have "bij_betw (\<lambda>sid. the (Session_Get sid m)) (fset (fmdom (byID m))) ?live"
  proof (rule bij_betw_imageI)
    show "inj_on (\<lambda>sid. the (Session_Get sid m)) (fset (fmdom (byID m)))"
      by (rule inj_onI) (metis Session_Get_def fmdomE get option.inject option.sel)
    show "(\<lambda>sid. the (Session_Get sid m)) ` fset (fmdom (byID m)) = ?live"
      by (auto simp: image_iff Session_Get_def) (metis Session_Get_def fmdomE fmdomI get option.sel)+
  qed
  then show "ActiveCount m = card ?live"
    by (simp add: ActiveCount_def map_len_def fcard.rep_eq bij_betw_same_card)
qed

theorem session_indexes_agree_witness:
  "Session_Get ''s1'' demo_attached = Some 0 \<and> GetByUser ''u1'' demo_attached = Some 0"
  using session_indexes_agree [OF demo_sessions_reachable(2)] demo_heaps(2)
  by (auto simp: deref_def demo_session_def)

text \<open>
  C26: Whatever happens later, a session record that somebody holds a pointer to keeps its
  identifier, transport, connection and creation time, and it changes only by moving strictly
  forward through pending, attached, detached, closed. In particular a closed session never
  changes again, and the identifier can be registered again only as a new record.
\<close>

theorem session_lifecycle:
  assumes "session_reachable m" and "session_step\<^sup>*\<^sup>* m m'" and "deref m r = Some s"
  shows "\<exists>s'. deref m' r = Some s' \<and>
    (s' = s \<or> s_id s' = s_id s \<and> s_transportType s' = s_transportType s \<and> s_conn s' = s_conn s
       \<and> s_createdAt s' = s_createdAt s \<and> state_rank (s_state s) < state_rank (s_state s'))"
  using session_run_later [OF assms] by (simp add: later_stage_def)

theorem session_lifecycle_witness:
  "\<exists>s'. deref demo_detached 0 = Some s' \<and> s_conn s' = 7 \<and> s_state s' \<noteq> SessionStatePending"
  using session_lifecycle [OF demo_sessions_reachable(2) r_into_rtranclp [of session_step, OF demo_detached_step],
      of 0 "demo_session\<lparr>s_userID := ''u1'', s_roomInstanceID := ''r1'', s_state := SessionStateAttached\<rparr>"]
  by (auto simp: deref_def demo_heaps(2) demo_session_def)

text \<open>
  In a reachable state \<^verbatim>\<open>Attach\<close> succeeds exactly if the identifier belongs to a pending session
  and the user, if one is given, has no attached session; every failure changes nothing. On
  success the session is attached with that user and room, the user index finds it, and every other
  session and index entry is as before.
\<close>

theorem Attach_effect:
  assumes "session_reachable m" and "Attach sid uid rid m = (err, m')"
  shows "(err = None \<longleftrightarrow> (\<exists>r s. Session_Get sid m = Some r \<and> deref m r = Some s \<and> s_state s = SessionStatePending)
            \<and> GetByUser uid m = None)
    \<and> (err \<noteq> None \<longrightarrow> m' = m)
    \<and> (err = None \<longrightarrow> (\<exists>r s. Session_Get sid m = Some r \<and> deref m r = Some s
          \<and> deref m' = (deref m)(r \<mapsto> s\<lparr>s_userID := uid, s_roomInstanceID := rid, s_state := SessionStateAttached\<rparr>)
          \<and> (\<forall>u. GetByUser u m' = (if u = uid \<and> uid \<noteq> [] then Some r else GetByUser u m))
          \<and> (\<forall>i. Session_Get i m' = Session_Get i m)))"
proof -
  note inv = reachable_inv [OF assms(1)]
  have none: "GetByUser [] m = None"
    using byUser_nonempty [OF inv] by (cases "fmlookup (byUser m) []") (auto simp: GetByUser_def)
  show ?thesis using inv assms(2)
  proof (cases rule: Attach_cases)
    case unchanged
    have "GetByUser uid m \<noteq> None"
      if "Session_Get sid m = Some r" "deref m r = Some s" "s_state s = SessionStatePending" for r s
    proof -
      have "find_session sid m = Some (r, s)"
        using that by (simp add: find_session_def Session_Get_def)
      with that unchanged assms(2) obtain e where "other_owner sid uid m = Some e"
        by (auto simp: Attach_def Let_def split: option.splits)
      then show ?thesis
        by (cases "fmlookup (byUser m) uid") (auto simp: other_owner_def GetByUser_def split: if_splits)
    qed
    with unchanged show ?thesis by blast
  next
    case (attached r s)
    then have "Session_Get sid m = Some r" "deref m r = Some s"
      using byID_iff [OF inv] by (auto simp: Session_Get_def deref_def)
    moreover have "GetByUser uid m = None" using attached(5) none by (auto simp: GetByUser_def)
    ultimately show ?thesis using attached by (auto simp: deref_def GetByUser_def Session_Get_def fun_eq_iff)
  qed
qed

theorem Attach_effect_witness:
  "fst (Attach ''s1'' ''u2'' ''r1'' demo_pending) = None"
proof -
  have "Session_Get ''s1'' demo_pending = Some 0" "GetByUser ''u2'' demo_pending = None"
    by (simp_all add: demo_session_defs session_op_defs Session_Get_def GetByUser_def)
  then show ?thesis
    using Attach_effect [OF demo_sessions_reachable(1) surjective_pairing, of "''s1''" "''u2''" "''r1''"] demo_heaps(1)
    by (auto simp: deref_def demo_session_def)
qed

text \<open>
  A detached session can never be attached again under the same registration: as long as it is
  not closed, every \<^verbatim>\<open>Attach\<close> of its identifier fails with its state and every \<^verbatim>\<open>Register\<close> of the
  identifier is refused. The comment on the detached state says that the session may reconnect.
\<close>

theorem detached_session_is_stuck:
  assumes "session_reachable m" and "Session_Get sid m = Some r" and "deref m r = Some s"
    and "s_state s = SessionStateDetached" and "session_step\<^sup>*\<^sup>* m m'"
    and "Session_Get sid m' = Some r"
  shows "Attach sid uid rid m' = (Some (CannotAttach sid SessionStateDetached), m')
    \<and> Register now sid t conn m' = (Inl (AlreadyRegistered sid), m')"
proof -
  note inv' = reachable_inv [OF reachable_more [OF assms(1,5)]]
  obtain x where x: "deref m' r = Some x" "later_stage s x"
    using session_run_later [OF assms(1,5,3)] by blast
  have "session_ok x" and "s_state x \<noteq> SessionStateClosed"
    using x(1) stored_ok [OF inv'] byID_iff [OF inv', of sid r] assms(6) by (auto simp: deref_def Session_Get_def)
  then have "s_state x = SessionStateDetached"
    using x(2) assms(4) by (auto simp: later_stage_def session_ok_def)
  moreover have "find_session sid m' = Some (r, x)"
    using x(1) assms(6) by (simp add: find_session_def Session_Get_def)
  ultimately show ?thesis using assms(6)
    by (auto simp: Attach_def Register_def Session_Get_def intro: fmdomI)
qed

theorem detached_session_is_stuck_witness:
  "Attach ''s1'' ''u1'' ''r1'' demo_detached = (Some (CannotAttach ''s1'' SessionStateDetached), demo_detached)"
proof -
  have g: "Session_Get ''s1'' demo_detached = Some 0"
    by (simp add: demo_session_defs session_op_defs Session_Get_def)
  show ?thesis
    using detached_session_is_stuck [OF demo_sessions_reachable(3) g _ _ rtranclp.rtrancl_refl g,
        of "demo_session\<lparr>s_state := SessionStateDetached\<rparr>" "''u1''" "''r1''"] demo_heaps(3)
    by (simp add: deref_def)
qed

text \<open>
  Closing an attached session removes it from both indexes and closes its connection once, but
  the record keeps its room and user, so \<^verbatim>\<open>RoomInstanceID\<close> is not empty on a closed session although
  its comment says so.
\<close>

theorem closed_session_keeps_room:
  assumes "session_reachable m" and "Session_Get sid m = Some r" and "deref m r = Some s"
    and "Close conn_close sid m = (err, m', conns)"
  shows "Session_Get sid m' = None \<and> GetByUser (s_userID s) m' = None
    \<and> err = conn_close (s_conn s) \<and> conns = [s_conn s]
    \<and> deref m' r = Some (s\<lparr>s_state := SessionStateClosed\<rparr>)"
proof -
  note inv = reachable_inv [OF assms(1)]
  have f: "find_session sid m = Some (r, s)"
    using assms(2,3) by (simp add: find_session_def Session_Get_def)
  have none: "fmlookup (byUser m) [] = None"
    using byUser_nonempty [OF inv] by (cases "fmlookup (byUser m) []") auto
  from inv assms(4) show ?thesis
  proof (cases rule: Close_cases)
    case (closed q x)
    then have "find_session sid m = Some (q, x)" by (simp add: find_session_iff [OF inv])
    with f have "q = r" "x = s" by simp_all
    then show ?thesis using closed none by (auto simp: Session_Get_def GetByUser_def deref_def)
  qed (use f in simp)
qed

theorem closed_session_keeps_room_witness:
  "map_option s_roomInstanceID (deref (fst (snd (Close (\<lambda>_. None) ''s1'' demo_attached))) 0) = Some ''r1''"
proof -
  have g: "Session_Get ''s1'' demo_attached = Some 0"
    by (simp add: demo_session_defs session_op_defs Session_Get_def)
  obtain err m' conns where c: "Close (\<lambda>_. None) ''s1'' demo_attached = (err, m', conns)"
    by (cases "Close (\<lambda>_. None) ''s1'' demo_attached") auto
  show ?thesis
    using closed_session_keeps_room [OF demo_sessions_reachable(2) g _ c] demo_heaps(2) c
    by (simp add: deref_def)
qed

end
