(* ===== verification/Wire.thy ===== *)
theory Wire
  imports RoomLoop Protocol Session
begin

text \<open>
  Between the transports and the rooms: inbound packets (\<^verbatim>\<open>internal/app/realtime/receive.go\<close>,
  \<^verbatim>\<open>internal/game/handler/handler.go\<close>) become room commands, outbound deltas
  (\<^verbatim>\<open>internal/app/realtime/dispatch.go\<close>, \<^verbatim>\<open>internal/game/bridge/bridge.go\<close>) become packets.

  The functions the packages are wired with are arguments: the resolver of a session's room, the
  resolver of its identities, the lookup of its connection. Rooms are reached by pointer, so
  the state is a store of rooms. A call of \<^verbatim>\<open>Send\<close> is recorded in a trace of calls, and whether it
  fails may depend on the calls so far.
\<close>

section \<open>The packet handler\<close>

record PacketContext =
  pc_SessionID :: string
  pc_PlayerID :: string
  pc_UserID :: string

datatype enqueue_err = ResolveFailed string string | NotAttached string | Refused room_err

datatype handle_err =
  NotClientToServer MessageType | MsgDecodeFailed string proto_err | NeedsPlayerID string
| EnqueueFailed string enqueue_err | UnsupportedGameplay MessageType

record HandlePacketResult =
  hr_MessageType :: MessageType
  hr_Handled :: bool
  hr_Error :: "handle_err option"

text \<open>The text of an error is an argument.\<close>

definition HandlePacketResult_String :: "(handle_err \<Rightarrow> string) \<Rightarrow> HandlePacketResult \<Rightarrow> string" where
  "HandlePacketResult_String err_text r =
     (case hr_Error r of
        Some e \<Rightarrow> MessageType_String (hr_MessageType r) @ '': error: '' @ err_text e
      | None \<Rightarrow> if \<not> hr_Handled r then MessageType_String (hr_MessageType r) @ '': not handled''
                else MessageType_String (hr_MessageType r) @ '': handled'')"

type_synonym room_store = "nat \<Rightarrow> Room"
type_synonym room_resolver = "string \<Rightarrow> string + nat option"

definition enqueue_cmd :: "room_resolver \<Rightarrow> PacketContext \<Rightarrow> RoomCommand \<Rightarrow> room_store \<Rightarrow> enqueue_err option \<times> room_store" where
  "enqueue_cmd resolveRoom ctx cmd store =
     (case resolveRoom (pc_SessionID ctx) of
        Inl e \<Rightarrow> (Some (ResolveFailed (pc_SessionID ctx) e), store)
      | Inr None \<Rightarrow> (Some (NotAttached (pc_SessionID ctx)), store)
      | Inr (Some r) \<Rightarrow>
          (case Enqueue cmd (store r) of
             (Some e, r') \<Rightarrow> (Some (Refused e), store(r := r'))
           | (None, r') \<Rightarrow> (None, store(r := r'))))"

definition input_command :: "int \<Rightarrow> time \<Rightarrow> PacketContext \<Rightarrow> PlayerInputMsg \<Rightarrow> RoomCommand" where
  "input_command unix_ms now ctx msg =
     \<lparr>cmd_Kind = CmdPlayerInput, cmd_SessionID = pc_SessionID ctx, cmd_PlayerID = pc_PlayerID ctx,
      cmd_UserID = pc_UserID ctx,
      cmd_Payload = InputPayload
        \<lparr>pi_Seq = pim_Seq msg,
         pi_Transform = \<lparr>pt_Position = \<lparr>v_X = pim_MoveX msg, v_Y = FNum 0, v_Z = pim_MoveZ msg\<rparr>,
                         pt_Rotation = \<lparr>q_X = FNum 0, q_Y = pim_Yaw msg, q_Z = FNum 0, q_W = FNum 1\<rparr>, pt_Tick = 0\<rparr>,
         pi_Timestamp = unix_ms\<rparr>,
      cmd_Timestamp = now\<rparr>"

definition handlePlayerInput :: "room_resolver \<Rightarrow> int \<Rightarrow> time \<Rightarrow> PacketContext \<Rightarrow> PlayerInputMsg \<Rightarrow> room_store
    \<Rightarrow> HandlePacketResult \<times> room_store" where
  "handlePlayerInput resolveRoom unix_ms now ctx msg store =
     (let result = \<lparr>hr_MessageType = TypePlayerInput, hr_Handled = False, hr_Error = None\<rparr>
      in if pc_PlayerID ctx = [] then (result\<lparr>hr_Error := Some (NeedsPlayerID ''PlayerInput'')\<rparr>, store)
         else case enqueue_cmd resolveRoom ctx (input_command unix_ms now ctx msg) store of
                (Some e, store) \<Rightarrow> (result\<lparr>hr_Error := Some (EnqueueFailed ''PlayerInput'' e)\<rparr>, store)
              | (None, store) \<Rightarrow> (result\<lparr>hr_Handled := True\<rparr>, store))"

definition transform_command :: "time \<Rightarrow> PacketContext \<Rightarrow> PlayerTransformUpdateMsg \<Rightarrow> RoomCommand" where
  "transform_command now ctx msg =
     \<lparr>cmd_Kind = CmdUpdatePlayerTransform, cmd_SessionID = pc_SessionID ctx, cmd_PlayerID = pc_PlayerID ctx,
      cmd_UserID = pc_UserID ctx,
      cmd_Payload = TransformPayload
        \<lparr>pt_Position = \<lparr>v_X = ptm_X msg, v_Y = FNum 0, v_Z = ptm_Z msg\<rparr>,
         pt_Rotation = \<lparr>q_X = FNum 0, q_Y = ptm_Yaw msg, q_Z = FNum 0, q_W = FNum 1\<rparr>, pt_Tick = 0\<rparr>,
      cmd_Timestamp = now\<rparr>"

definition handlePlayerTransformUpdate :: "room_resolver \<Rightarrow> time \<Rightarrow> PacketContext \<Rightarrow> PlayerTransformUpdateMsg \<Rightarrow> room_store
    \<Rightarrow> HandlePacketResult \<times> room_store" where
  "handlePlayerTransformUpdate resolveRoom now ctx msg store =
     (let result = \<lparr>hr_MessageType = TypePlayerTransformUpdate, hr_Handled = False, hr_Error = None\<rparr>
      in if pc_PlayerID ctx = [] then (result\<lparr>hr_Error := Some (NeedsPlayerID ''PlayerTransformUpdate'')\<rparr>, store)
         else case enqueue_cmd resolveRoom ctx (transform_command now ctx msg) store of
                (Some e, store) \<Rightarrow> (result\<lparr>hr_Error := Some (EnqueueFailed ''PlayerTransformUpdate'' e)\<rparr>, store)
              | (None, store) \<Rightarrow> (result\<lparr>hr_Handled := True\<rparr>, store))"

text \<open>
  A decode into a \<^verbatim>\<open>PlayerInput\<close> variable leaves a \<^verbatim>\<open>PlayerInput\<close> there; the remaining branches of the
  two case distinctions stand for values of another type, which cannot come back.
\<close>

definition HandleEnvelope :: "msgpack \<Rightarrow> map_order \<Rightarrow> room_resolver \<Rightarrow> int \<Rightarrow> time \<Rightarrow> PacketContext \<Rightarrow> Envelope \<Rightarrow> room_store
    \<Rightarrow> HandlePacketResult \<times> room_store" where
  "HandleEnvelope mp ord resolveRoom unix_ms now ctx env store =
     (let result = \<lparr>hr_MessageType = env_Type env, hr_Handled = False, hr_Error = None\<rparr>
      in if \<not> IsClientToServer (env_Type env)
         then (result\<lparr>hr_Error := Some (NotClientToServer (env_Type env))\<rparr>, store)
         else if env_Type env = TypePlayerInput then
           (case DecodeMessage mp ord (env_Body env) KPlayerInput of
              Inl e \<Rightarrow> (result\<lparr>hr_Error := Some (MsgDecodeFailed ''PlayerInput'' e)\<rparr>, store)
            | Inr (MsgPlayerInput msg) \<Rightarrow> handlePlayerInput resolveRoom unix_ms now ctx msg store
            | Inr _ \<Rightarrow> (result, store))
         else if env_Type env = TypePlayerTransformUpdate then
           (case DecodeMessage mp ord (env_Body env) KPlayerTransformUpdate of
              Inl e \<Rightarrow> (result\<lparr>hr_Error := Some (MsgDecodeFailed ''PlayerTransformUpdate'' e)\<rparr>, store)
            | Inr (MsgPlayerTransformUpdate msg) \<Rightarrow> handlePlayerTransformUpdate resolveRoom now ctx msg store
            | Inr _ \<Rightarrow> (result, store))
         else (result\<lparr>hr_Error := Some (UnsupportedGameplay (env_Type env))\<rparr>, store))"

section \<open>The receive loop\<close>

definition ResolveContext :: "(string \<Rightarrow> string \<times> string) \<Rightarrow> string \<Rightarrow> PacketContext" where
  "ResolveContext resolve sessID =
     (case resolve sessID of (playerID, userID) \<Rightarrow>
        \<lparr>pc_SessionID = sessID, pc_PlayerID = playerID, pc_UserID = userID\<rparr>)"

datatype process_err = EnvelopeDecodeFailed string proto_err | HandleFailed MessageType string handle_err

definition Process :: "msgpack \<Rightarrow> map_order \<Rightarrow> room_resolver \<Rightarrow> (string \<Rightarrow> string \<times> string) \<Rightarrow> int \<Rightarrow> time
    \<Rightarrow> string \<Rightarrow> bytes \<Rightarrow> room_store \<Rightarrow> process_err option \<times> room_store" where
  "Process mp ord resolveRoom resolve unix_ms now sessID data store =
     (case DecodeEnvelope mp data of
        Inl e \<Rightarrow> (Some (EnvelopeDecodeFailed sessID e), store)
      | Inr env \<Rightarrow>
          (case HandleEnvelope mp ord resolveRoom unix_ms now (ResolveContext resolve sessID) env store of
             (result, store) \<Rightarrow>
               (case hr_Error result of
                  Some e \<Rightarrow> (Some (HandleFailed (env_Type env) sessID e), store)
                | None \<Rightarrow> (None, store))))"

text \<open>The adapter that the transports call logs the error and drops it.\<close>

definition HandlePacket :: "msgpack \<Rightarrow> map_order \<Rightarrow> room_resolver \<Rightarrow> (string \<Rightarrow> string \<times> string) \<Rightarrow> int \<Rightarrow> time
    \<Rightarrow> string \<Rightarrow> bytes \<Rightarrow> room_store \<Rightarrow> room_store" where
  "HandlePacket mp ord resolveRoom resolve unix_ms now sessID data store =
     snd (Process mp ord resolveRoom resolve unix_ms now sessID data store)"

section \<open>The delta bridge\<close>

definition yawFromRotation :: "Quaternion \<Rightarrow> gofloat" where
  "yawFromRotation q = q_Y q"

definition convert_enter :: "PlayerEnterDelta \<Rightarrow> PlayerEnterMsg" where
  "convert_enter e =
     \<lparr>pem_PlayerID = pe_PlayerID e, pem_X = v_X (pt_Position (pe_Transform e)), pem_Z = v_Z (pt_Position (pe_Transform e)),
      pem_Yaw = yawFromRotation (pt_Rotation (pe_Transform e)), pem_AnimState = 0, pem_Version = pe_Version e\<rparr>"

definition convert_update :: "PlayerUpdateDelta \<Rightarrow> PlayerUpdateMsg" where
  "convert_update u =
     \<lparr>pum_PlayerID = pu_PlayerID u, pum_X = v_X (pt_Position (pu_Transform u)), pum_Z = v_Z (pt_Position (pu_Transform u)),
      pum_Yaw = yawFromRotation (pt_Rotation (pu_Transform u)), pum_AnimState = 0, pum_Version = pu_Version u\<rparr>"

definition convert_leave :: "PlayerLeaveDelta \<Rightarrow> PlayerLeaveMsg" where
  "convert_leave l = \<lparr>plm_PlayerID = pl_PlayerID l\<rparr>"

definition ConvertPlayerDelta :: "PlayerDelta option \<Rightarrow> PlayerDeltaMsg" where
  "ConvertPlayerDelta pd =
     (case pd of
        None \<Rightarrow> \<lparr>pdm_Tick = 0, pdm_Enters = [], pdm_Updates = [], pdm_Leaves = []\<rparr>
      | Some d \<Rightarrow>
          \<lparr>pdm_Tick = pd_Tick d, pdm_Enters = map convert_enter (pd_Enters d),
           pdm_Updates = map convert_update (pd_Updates d), pdm_Leaves = map convert_leave (pd_Leaves d)\<rparr>)"

record PlayerStateView =
  psv_PlayerID :: string
  psv_Transform :: PlayerTransform
  psv_Version :: u32

definition convert_view :: "PlayerStateView \<Rightarrow> PlayerSnapshotMsg" where
  "convert_view p =
     \<lparr>psm_PlayerID = psv_PlayerID p, psm_X = v_X (pt_Position (psv_Transform p)), psm_Z = v_Z (pt_Position (psv_Transform p)),
      psm_Yaw = yawFromRotation (pt_Rotation (psv_Transform p)), psm_AnimState = 0, psm_Version = psv_Version p\<rparr>"

definition ConvertFullSnapshot :: "u32 \<Rightarrow> PlayerStateView list \<Rightarrow> FullSnapshotMsg" where
  "ConvertFullSnapshot tick ps = \<lparr>fs_Tick = tick, fs_Players = map convert_view ps\<rparr>"

datatype send_err = NoSuchSession string | EncodeError proto_err | ConnError string

type_synonym calls = "(conn_ref \<times> bytes) list"
type_synonym conn_send = "calls \<Rightarrow> conn_ref \<Rightarrow> bytes \<Rightarrow> string option"

text \<open>Calling \<^verbatim>\<open>Send\<close> of a connection.\<close>

definition call_send :: "conn_send \<Rightarrow> conn_ref \<Rightarrow> bytes \<Rightarrow> calls \<Rightarrow> send_err option \<times> calls" where
  "call_send send c data trace = (map_option ConnError (send trace c data), trace @ [(c, data)])"

definition SendPlayerDelta :: "msgpack \<Rightarrow> map_order \<Rightarrow> conn_send \<Rightarrow> conn_ref \<Rightarrow> PlayerDelta \<Rightarrow> calls \<Rightarrow> send_err option \<times> calls" where
  "SendPlayerDelta mp ord send c pd trace =
     (case EncodeAndWrap mp ord CurrentVersion TypePlayerDelta 0 (pd_Tick pd) (MsgPlayerDelta (ConvertPlayerDelta (Some pd))) of
        Inl e \<Rightarrow> (Some (EncodeError e), trace)
      | Inr data \<Rightarrow> call_send send c data trace)"

definition SendFullSnapshot :: "msgpack \<Rightarrow> map_order \<Rightarrow> conn_send \<Rightarrow> conn_ref \<Rightarrow> u32 \<Rightarrow> PlayerStateView list \<Rightarrow> calls
    \<Rightarrow> send_err option \<times> calls" where
  "SendFullSnapshot mp ord send c tick ps trace =
     (case EncodeAndWrap mp ord CurrentVersion TypeFullSnapshot 0 tick (MsgFullSnapshot (ConvertFullSnapshot tick ps)) of
        Inl e \<Rightarrow> (Some (EncodeError e), trace)
      | Inr data \<Rightarrow> call_send send c data trace)"

record SendResult =
  sr_SessionID :: string
  sr_Transport :: TransportType
  sr_Error :: "send_err option"

type_synonym session_lookup = "string \<Rightarrow> (conn_ref \<times> TransportType) option"

text \<open>One session of the loop of \<^verbatim>\<open>DispatchBatches\<close>.\<close>

definition dispatch_one :: "msgpack \<Rightarrow> map_order \<Rightarrow> conn_send \<Rightarrow> session_lookup \<Rightarrow> batches \<Rightarrow> string
    \<Rightarrow> SendResult list \<times> calls \<Rightarrow> SendResult list \<times> calls" where
  "dispatch_one mp vord send lookup batches sid st =
     (case st of (results, trace) \<Rightarrow>
       (case fmlookup batches sid of
          None \<Rightarrow> st
        | Some batch \<Rightarrow>
            if DeltaBatch_IsEmpty batch then st
            else (case db_PlayerDelta batch of
                    None \<Rightarrow> st
                  | Some pd \<Rightarrow>
                      if PlayerDelta_IsEmpty pd then st
                      else (case lookup sid of
                              None \<Rightarrow> (results @ [\<lparr>sr_SessionID = sid, sr_Transport = [], sr_Error = Some (NoSuchSession sid)\<rparr>], trace)
                            | Some (c, t) \<Rightarrow>
                                (case SendPlayerDelta mp vord send c pd trace of
                                   (err, trace) \<Rightarrow> (results @ [\<lparr>sr_SessionID = sid, sr_Transport = t, sr_Error = err\<rparr>], trace))))))"

definition DispatchBatches :: "msgpack \<Rightarrow> map_order \<Rightarrow> map_order \<Rightarrow> conn_send \<Rightarrow> session_lookup \<Rightarrow> batches \<Rightarrow> calls
    \<Rightarrow> SendResult list \<times> calls" where
  "DispatchBatches mp ord vord send lookup batches trace =
     (if map_len batches = 0 then ([], trace)
      else fold (dispatch_one mp vord send lookup batches) (ord (fmdom batches)) ([], trace))"

definition BroadcastDelta :: "msgpack \<Rightarrow> map_order \<Rightarrow> map_order \<Rightarrow> conn_send \<Rightarrow> session_lookup \<Rightarrow> batches \<Rightarrow> calls \<Rightarrow> calls" where
  "BroadcastDelta mp ord vord send lookup batches trace =
     snd (DispatchBatches mp ord vord send lookup batches trace)"

text \<open>
  The adapter installed in a room; the copy of the map with converted key types is the same
  map. \<open>None\<close> is an adapter without dispatcher.
\<close>

definition Room_BroadcastDelta :: "msgpack \<Rightarrow> map_order \<Rightarrow> map_order \<Rightarrow> conn_send \<Rightarrow> session_lookup option \<Rightarrow> batches \<Rightarrow> calls \<Rightarrow> calls" where
  "Room_BroadcastDelta mp ord vord send dispatcher batches trace =
     (case dispatcher of
        None \<Rightarrow> trace
      | Some lookup \<Rightarrow> if map_len batches = 0 then trace else BroadcastDelta mp ord vord send lookup batches trace)"

section \<open>The client at the other end\<close>

text \<open>What a client draws: position on the plane, yaw and version of each player it was told about.\<close>

type_synonym wire_view = "string \<rightharpoonup> gofloat \<times> gofloat \<times> gofloat \<times> u32"

definition apply_wire :: "PlayerDeltaMsg \<Rightarrow> wire_view \<Rightarrow> wire_view" where
  "apply_wire m v =
     (let v1 = fold (\<lambda>e v. v(pem_PlayerID e \<mapsto> (pem_X e, pem_Z e, pem_Yaw e, pem_Version e))) (pdm_Enters m) v;
          v2 = fold (\<lambda>u v. v(pum_PlayerID u \<mapsto> (pum_X u, pum_Z u, pum_Yaw u, pum_Version u))) (pdm_Updates m) v1
      in fold (\<lambda>l v. v(plm_PlayerID l := None)) (pdm_Leaves m) v2)"

definition on_wire :: "PlayerTransform \<times> u32 \<Rightarrow> gofloat \<times> gofloat \<times> gofloat \<times> u32" where
  "on_wire tv = (v_X (pt_Position (fst tv)), v_Z (pt_Position (fst tv)), yawFromRotation (pt_Rotation (fst tv)), snd tv)"

definition view_on_wire :: "client_view \<Rightarrow> wire_view" where
  "view_on_wire v pid = map_option on_wire (v pid)"

section \<open>Lemmas\<close>

lemma view_on_wire_upd: "view_on_wire (v(k \<mapsto> x)) = (view_on_wire v)(k \<mapsto> on_wire x)"
  "view_on_wire (v(k := None)) = (view_on_wire v)(k := None)"
  by (auto simp: view_on_wire_def)

lemma view_on_wire_folds:
  "view_on_wire (fold (\<lambda>e v. v(k e \<mapsto> g e)) xs v) = fold (\<lambda>e v. v(k e \<mapsto> on_wire (g e))) xs (view_on_wire v)"
  "view_on_wire (fold (\<lambda>l v. v(j l := None)) ys v) = fold (\<lambda>l v. v(j l := None)) ys (view_on_wire v)"
  by (induction xs arbitrary: v; simp add: view_on_wire_upd) (induction ys arbitrary: v; simp add: view_on_wire_upd)

lemma apply_converted:
  "apply_wire (ConvertPlayerDelta (Some d)) (view_on_wire v) = view_on_wire (apply_delta d v)"
  by (simp add: apply_wire_def apply_delta_def ConvertPlayerDelta_def view_on_wire_folds fold_map comp_def
      convert_enter_def convert_update_def convert_leave_def on_wire_def Let_def)

lemma Enqueue_cases:
  obtains (full) e where "Enqueue cmd r = (Some e, r)"
  | (ok) "Enqueue cmd r = (None, r\<lparr>commands := commands r @ [cmd]\<rparr>)" "status r = RoomStatusRunning"
proof (cases "status r = RoomStatusRunning \<and> int (length (commands r)) < CommandQueueSize (config r)")
  case True
  then show ?thesis by (intro ok) (simp_all add: Enqueue_def)
next
  case False
  then obtain e where "Enqueue cmd r = (Some e, r)" by (cases "status r = RoomStatusRunning") (auto simp: Enqueue_def)
  then show ?thesis by (rule full)
qed

lemma enqueue_cmd_cases:
  assumes "enqueue_cmd resolveRoom ctx cmd store = (err, store')"
  obtains (refused) "err \<noteq> None" "store' = store"
  | (accepted) r where "err = None" "resolveRoom (pc_SessionID ctx) = Inr (Some r)" "status (store r) = RoomStatusRunning"
      "store' = store(r := (store r)\<lparr>commands := commands (store r) @ [cmd]\<rparr>)" "snd (Enqueue cmd (store r)) = store' r"
proof (cases "resolveRoom (pc_SessionID ctx)")
  case (Inr b)
  show ?thesis
  proof (cases b)
    case (Some r)
    then show ?thesis using assms Inr
      by (cases "store r" rule: Enqueue_cases [of cmd]) (auto simp: enqueue_cmd_def intro: refused accepted)
  qed (use assms Inr in \<open>auto simp: enqueue_cmd_def intro: refused\<close>)
qed (use assms in \<open>auto simp: enqueue_cmd_def intro: refused\<close>)

lemma yaw_quaternion_valid:
  "finite_float x \<Longrightarrow> finite_float z \<Longrightarrow> finite_float y \<Longrightarrow>
   ValidatePlayerTransform \<lparr>pt_Position = \<lparr>v_X = x, v_Y = FNum 0, v_Z = z\<rparr>,
     pt_Rotation = \<lparr>q_X = FNum 0, q_Y = y, q_Z = FNum 0, q_W = FNum 1\<rparr>, pt_Tick = 0\<rparr> = None"
  by (simp add: ValidatePlayerTransform_None ValidateVector3_None ValidateQuaternion_None finite_vec_def finite_quat_def)

text \<open>What a command made from a packet looks like to the room.\<close>

definition command_for :: "int \<Rightarrow> PacketContext \<Rightarrow> RoomCommand \<Rightarrow> bool" where
  "command_for unix_ms ctx cmd \<longleftrightarrow>
     cmd_SessionID cmd = pc_SessionID ctx \<and> cmd_PlayerID cmd = pc_PlayerID ctx \<and> cmd_UserID cmd = pc_UserID ctx
     \<and> cmd_PlayerID cmd \<noteq> []
     \<and> ((\<exists>i. cmd_Kind cmd = CmdPlayerInput \<and> cmd_Payload cmd = InputPayload i
            \<and> ValidatePlayerTransform (pi_Transform i) = None \<and> pi_Timestamp i = unix_ms)
        \<or> (\<exists>t. cmd_Kind cmd = CmdUpdatePlayerTransform \<and> cmd_Payload cmd = TransformPayload t
            \<and> ValidatePlayerTransform t = None))"

text \<open>The two handlers share this shape: guard the player, enqueue, report.\<close>

lemma handled_cases:
  assumes h: "(res, store') = (if pc_PlayerID ctx = [] then (r0\<lparr>hr_Error := Some e0\<rparr>, store)
      else case enqueue_cmd resolveRoom ctx cmd store of
             (Some e, st) \<Rightarrow> (r0\<lparr>hr_Error := Some (f e)\<rparr>, st) | (None, st) \<Rightarrow> (r0\<lparr>hr_Handled := True\<rparr>, st))"
    and r0: "\<not> hr_Handled r0" "hr_Error r0 = None"
    and cmd: "pc_PlayerID ctx \<noteq> [] \<Longrightarrow> command_for unix_ms ctx cmd"
  obtains (failed) "hr_Error res \<noteq> None" "\<not> hr_Handled res" "store' = store"
  | (queued) r where "hr_Error res = None" "hr_Handled res" "resolveRoom (pc_SessionID ctx) = Inr (Some r)"
      "status (store r) = RoomStatusRunning"
      "store' = store(r := (store r)\<lparr>commands := commands (store r) @ [cmd]\<rparr>)" "command_for unix_ms ctx cmd" "snd (Enqueue cmd (store r)) = store' r"
proof (cases "pc_PlayerID ctx = []")
  case True
  then show ?thesis using h r0 by (intro failed) simp_all
next
  case False
  obtain err st where e: "enqueue_cmd resolveRoom ctx cmd store = (err, st)" by fastforce
  from e show ?thesis
  proof (cases rule: enqueue_cmd_cases)
    case refused
    then show ?thesis using h e False r0 by (intro failed) auto
  next
    case (accepted r)
    then show ?thesis using h e False r0 cmd by (intro queued [of r]) auto
  qed
qed

lemma HandleEnvelope_cases:
  assumes mp: "msgpack_roundtrip mp" and ord: "range_order ord"
    and h: "HandleEnvelope mp ord resolveRoom unix_ms now ctx env store = (res, store')"
  obtains (failed) "hr_Error res \<noteq> None" "\<not> hr_Handled res" "store' = store"
  | (queued) r cmd where "hr_Error res = None" "hr_Handled res" "resolveRoom (pc_SessionID ctx) = Inr (Some r)"
      "status (store r) = RoomStatusRunning"
      "store' = store(r := (store r)\<lparr>commands := commands (store r) @ [cmd]\<rparr>)" "command_for unix_ms ctx cmd" "snd (Enqueue cmd (store r)) = store' r"
proof -
  have kind: "kind_of m = k \<and> valid_msg m" if "DecodeMessage mp ord b k = Inr m" for b k m
    using that mp unfolding DecodeMessage_iff [OF ord] msgpack_roundtrip_def by blast
  consider (other) "\<not> IsClientToServer (env_Type env) \<or> env_Type env \<noteq> TypePlayerInput \<and> env_Type env \<noteq> TypePlayerTransformUpdate"
    | (input) "IsClientToServer (env_Type env)" "env_Type env = TypePlayerInput"
    | (transform) "IsClientToServer (env_Type env)" "env_Type env \<noteq> TypePlayerInput" "env_Type env = TypePlayerTransformUpdate"
    by blast
  then show thesis
  proof cases
    case other
    then show ?thesis using h by (intro failed) (auto simp: HandleEnvelope_def Let_def split: if_splits)
  next
    case input
    show ?thesis
    proof (cases "DecodeMessage mp ord (env_Body env) KPlayerInput")
      case (Inl e)
      then show ?thesis using h input by (intro failed) (auto simp: HandleEnvelope_def Let_def)
    next
      case (Inr m')
      from kind [OF this] obtain m where m: "m' = MsgPlayerInput m" by (cases m') auto
      have "command_for unix_ms ctx (input_command unix_ms now ctx m)" if "pc_PlayerID ctx \<noteq> []"
        using that kind [OF Inr] m by (simp add: command_for_def input_command_def yaw_quaternion_valid)
      moreover have "(res, store') = handlePlayerInput resolveRoom unix_ms now ctx m store"
        using h input Inr m by (simp add: HandleEnvelope_def)
      ultimately show ?thesis unfolding handlePlayerInput_def Let_def
        by (elim handled_cases) (auto intro: failed queued)
    qed
  next
    case transform
    show ?thesis
    proof (cases "DecodeMessage mp ord (env_Body env) KPlayerTransformUpdate")
      case (Inl e)
      then show ?thesis using h transform by (intro failed) (auto simp: HandleEnvelope_def Let_def)
    next
      case (Inr m')
      from kind [OF this] obtain m where m: "m' = MsgPlayerTransformUpdate m" by (cases m') auto
      have "command_for unix_ms ctx (transform_command now ctx m)" if "pc_PlayerID ctx \<noteq> []"
        using that kind [OF Inr] m by (simp add: command_for_def transform_command_def yaw_quaternion_valid)
      moreover have "(res, store') = handlePlayerTransformUpdate resolveRoom now ctx m store"
        using h transform Inr m by (simp add: HandleEnvelope_def)
      ultimately show ?thesis unfolding handlePlayerTransformUpdate_def Let_def
        by (elim handled_cases) (auto intro: failed queued)
    qed
  qed
qed

text \<open>The delta a batch map has for a session, if there is anything to send.\<close>

definition delta_for :: "batches \<Rightarrow> string \<Rightarrow> PlayerDelta option" where
  "delta_for batches sid =
     (case Option.bind (fmlookup batches sid) db_PlayerDelta of
        Some pd \<Rightarrow> if PlayerDelta_IsEmpty pd then None else Some pd
      | None \<Rightarrow> None)"

lemma dispatch_one_eq:
  "dispatch_one mp vord send lookup batches sid (results, trace) =
     (case delta_for batches sid of
        None \<Rightarrow> (results, trace)
      | Some pd \<Rightarrow>
          (case lookup sid of
             None \<Rightarrow> (results @ [\<lparr>sr_SessionID = sid, sr_Transport = [], sr_Error = Some (NoSuchSession sid)\<rparr>], trace)
           | Some (c, t) \<Rightarrow>
               (case SendPlayerDelta mp vord send c pd trace of
                  (err, trace) \<Rightarrow> (results @ [\<lparr>sr_SessionID = sid, sr_Transport = t, sr_Error = err\<rparr>], trace))))"
  by (auto simp: dispatch_one_def delta_for_def DeltaBatch_IsEmpty_def Let_def split: option.split)

text \<open>A packet in the trace carries the delta of its session.\<close>

definition carries :: "msgpack \<Rightarrow> map_order \<Rightarrow> session_lookup \<Rightarrow> batches \<Rightarrow> string \<Rightarrow> conn_ref \<times> bytes \<Rightarrow> bool" where
  "carries mp vord lookup batches sid cd \<longleftrightarrow>
     (\<exists>pd t body. delta_for batches sid = Some pd \<and> lookup sid = Some (fst cd, t)
        \<and> DecodeAndUnwrap mp vord (snd cd) KPlayerDelta =
            Inr (\<lparr>env_Version = 1, env_Type = TypePlayerDelta, env_Seq = 0, env_Tick = pd_Tick pd, env_Body = body\<rparr>,
                 MsgPlayerDelta (ConvertPlayerDelta (Some pd))))"

lemma SendPlayerDelta_cases:
  assumes "msgpack_roundtrip mp" "range_order vord"
  obtains (unsent) e where "SendPlayerDelta mp vord send c pd trace = (Some (EncodeError e), trace)"
  | (sent) data body where "SendPlayerDelta mp vord send c pd trace = (map_option ConnError (send trace c data), trace @ [(c, data)])"
      "DecodeAndUnwrap mp vord data KPlayerDelta =
            Inr (\<lparr>env_Version = 1, env_Type = TypePlayerDelta, env_Seq = 0, env_Tick = pd_Tick pd, env_Body = body\<rparr>,
                 MsgPlayerDelta (ConvertPlayerDelta (Some pd)))"
proof (cases "EncodeAndWrap mp vord CurrentVersion TypePlayerDelta 0 (pd_Tick pd) (MsgPlayerDelta (ConvertPlayerDelta (Some pd)))")
  case (Inl e)
  then show ?thesis by (intro unsent) (simp add: SendPlayerDelta_def)
next
  case (Inr data)
  from wrap_unwrap [OF assms(1,2,2) Inr] obtain body where
    "DecodeAndUnwrap mp vord data KPlayerDelta =
       Inr (\<lparr>env_Version = 1, env_Type = TypePlayerDelta, env_Seq = 0, env_Tick = pd_Tick pd, env_Body = body\<rparr>,
            MsgPlayerDelta (ConvertPlayerDelta (Some pd)))" by auto
  then show ?thesis using Inr by (intro sent) (auto simp: SendPlayerDelta_def call_send_def)
qed

lemma dispatch_loop:
  assumes mp: "msgpack_roundtrip mp" and vord: "range_order vord"
    and run: "fold (dispatch_one mp vord send lookup batches) sids (results, trace) = (results', trace')"
  shows "\<exists>new sent. results' = results @ new \<and> trace' = trace @ sent
    \<and> map sr_SessionID new = filter (\<lambda>sid. delta_for batches sid \<noteq> None) sids
    \<and> (\<forall>cd\<in>set sent. \<exists>sid\<in>set sids. carries mp vord lookup batches sid cd)
    \<and> (\<forall>r\<in>set new. sr_Error r = None \<longrightarrow> (\<exists>cd\<in>set sent. carries mp vord lookup batches (sr_SessionID r) cd))"
  using run
proof (induction sids arbitrary: results trace)
  case (Cons sid sids)
  obtain res1 tr1 where d: "dispatch_one mp vord send lookup batches sid (results, trace) = (res1, tr1)" by fastforce
  obtain new sent where ih: "results' = res1 @ new" "trace' = tr1 @ sent"
      "map sr_SessionID new = filter (\<lambda>sid. delta_for batches sid \<noteq> None) sids"
      "\<forall>cd\<in>set sent. \<exists>sid\<in>set sids. carries mp vord lookup batches sid cd"
      "\<forall>r\<in>set new. sr_Error r = None \<longrightarrow> (\<exists>cd\<in>set sent. carries mp vord lookup batches (sr_SessionID r) cd)"
    using Cons.IH [of res1 tr1] Cons.prems d by auto
  consider (skip) "delta_for batches sid = None" "res1 = results" "tr1 = trace"
    | (fail) r where "delta_for batches sid \<noteq> None" "res1 = results @ [r]" "tr1 = trace" "sr_SessionID r = sid" "sr_Error r \<noteq> None"
    | (send) r cd where "delta_for batches sid \<noteq> None" "res1 = results @ [r]" "tr1 = trace @ [cd]" "sr_SessionID r = sid"
        "carries mp vord lookup batches sid cd"
  proof (cases "delta_for batches sid")
    case (Some pd)
    show thesis
    proof (cases "lookup sid")
      case None
      then show thesis using d Some by (intro fail) (auto simp: dispatch_one_eq)
    next
      case (Some ct)
      obtain c t where ct: "lookup sid = Some (c, t)" using Some by (cases ct) auto
      note eq = d [unfolded dispatch_one_eq \<open>delta_for batches sid = Some pd\<close> ct]
      from mp vord show thesis
      proof (cases rule: SendPlayerDelta_cases [where send = send and c = c and pd = pd and trace = trace])
        case (unsent e)
        then show thesis using eq \<open>delta_for batches sid = Some pd\<close> by (intro fail) auto
      next
        case (sent data body)
        then have "carries mp vord lookup batches sid (c, data)"
          using \<open>delta_for batches sid = Some pd\<close> ct by (auto simp: carries_def)
        then show thesis using eq sent(1) \<open>delta_for batches sid = Some pd\<close> by (intro send) auto
      qed
    qed
  qed (use d in \<open>auto simp: dispatch_one_eq intro: skip\<close>)
  then show ?case
  proof cases
    case skip
    then show ?thesis using ih by (intro exI [of _ new] exI [of _ sent]) auto
  next
    case (fail r)
    then show ?thesis using ih by (intro exI [of _ "r # new"] exI [of _ sent]) auto
  next
    case (send r cd)
    then show ?thesis using ih by (intro exI [of _ "r # new"] exI [of _ "cd # sent"]) auto
  qed
qed simp

section \<open>Values used by the witnesses\<close>

definition demo_store :: room_store where
  "demo_store _ = (newRoom \<lparr>rs_LogicalRoomID = ''expo'', rs_InstanceID = ''expo-0001'', rs_Config = DefaultRoomConfig\<rparr>)
     \<lparr>status := RoomStatusRunning\<rparr>"

lemma demo_store_free:
  "status (demo_store r) = RoomStatusRunning" "commands (demo_store r) = []" "CommandQueueSize (config (demo_store r)) > 0"
  by (simp_all add: demo_store_def newRoom_def Let_def room_config_def DefaultRoomConfig_def)

definition demo_delta :: PlayerDelta where
  "demo_delta = \<lparr>pd_Tick = 4, pd_Enters = [], pd_Updates = [], pd_Leaves = [\<lparr>pl_PlayerID = ''p1''\<rparr>]\<rparr>"

definition demo_delta_codec :: msgpack where
  "demo_delta_codec = one_message (MsgPlayerDelta (ConvertPlayerDelta (Some demo_delta)))
     \<lparr>env_Version = 1, env_Type = TypePlayerDelta, env_Seq = 0, env_Tick = 4, env_Body = [1]\<rparr>"

lemma demo_delta_encodes:
  "EncodeAndWrap demo_delta_codec sorted_order CurrentVersion TypePlayerDelta 0 (pd_Tick demo_delta)
     (MsgPlayerDelta (ConvertPlayerDelta (Some demo_delta))) = Inr [7, 7]"
  unfolding EncodeAndWrap_iff [OF sorted_order_range]
  by (simp add: demo_delta_codec_def one_message_def demo_delta_def ConvertPlayerDelta_def convert_leave_def
      CurrentVersion_def IsImplemented_def MaxPayloadSize_def MaxPacketSize_def)

section \<open>Properties\<close>

text \<open>
  C11: A packet becomes at most one command. Whatever bytes a session sends, either processing reports
  an error and no room changes, or exactly one command is appended to the queue of the running
  room that session is attached to. That command carries the identities the server resolved for
  the session and nothing the client claimed, its player is named, and its transform passes the
  validation of the room.
\<close>

theorem Process_effect:
  assumes "msgpack_roundtrip mp" and "range_order ord"
    and "Process mp ord resolveRoom resolve unix_ms now sessID data store = (err, store')"
  shows "err \<noteq> None \<and> store' = store
    \<or> (\<exists>r cmd. err = None \<and> resolveRoom sessID = Inr (Some r) \<and> status (store r) = RoomStatusRunning
        \<and> store' = store(r := (store r)\<lparr>commands := commands (store r) @ [cmd]\<rparr>)
        \<and> cmd_SessionID cmd = sessID \<and> (cmd_PlayerID cmd, cmd_UserID cmd) = resolve sessID \<and> cmd_PlayerID cmd \<noteq> []
        \<and> (case cmd_Payload cmd of
             InputPayload i \<Rightarrow> cmd_Kind cmd = CmdPlayerInput \<and> (0 < unix_ms \<longrightarrow> ValidatePlayerInput i = None)
           | TransformPayload t \<Rightarrow> cmd_Kind cmd = CmdUpdatePlayerTransform \<and> ValidatePlayerTransform t = None
           | _ \<Rightarrow> False))"
proof (cases "DecodeEnvelope mp data")
  case (Inl e)
  then show ?thesis using assms(3) by (intro disjI1) (auto simp: Process_def)
next
  case (Inr env)
  let ?ctx = "ResolveContext resolve sessID"
  have ctx: "pc_SessionID ?ctx = sessID" "(pc_PlayerID ?ctx, pc_UserID ?ctx) = resolve sessID"
    by (simp_all add: ResolveContext_def split: prod.split)
  obtain res st where h: "HandleEnvelope mp ord resolveRoom unix_ms now ?ctx env store = (res, st)" by fastforce
  have p: "err = map_option (HandleFailed (env_Type env) sessID) (hr_Error res)" "store' = st"
    using assms(3) Inr h by (auto simp: Process_def split: option.splits)
  from assms(1,2) h show ?thesis
  proof (cases rule: HandleEnvelope_cases)
    case failed
    then show ?thesis using p by simp
  next
    case (queued r cmd)
    from queued(6) ctx show ?thesis unfolding p
      by (intro disjI2 exI [of _ r] exI [of _ cmd])
        (use queued in \<open>auto simp: command_for_def ValidatePlayerInput_def\<close>)
  qed
qed

theorem Process_effect_witness:
  "\<exists>cmd. Process (one_message demo_msg demo_envelope) sorted_order (\<lambda>_. Inr (Some 0)) (\<lambda>_. (''p1'', ''u1'')) 1000 5 ''s1'' [7, 7] demo_store
     = (None, demo_store(0 := (demo_store 0)\<lparr>commands := [cmd]\<rparr>)) \<and> cmd_PlayerID cmd = ''p1''"
proof -
  let ?p = "Process (one_message demo_msg demo_envelope) sorted_order (\<lambda>_. Inr (Some 0)) (\<lambda>_. (''p1'', ''u1'')) 1000 5 ''s1'' [7, 7] demo_store"
  have "DecodeEnvelope (one_message demo_msg demo_envelope) [7, 7] = Inr demo_envelope"
    unfolding DecodeEnvelope_iff
    by (simp add: one_message_def demo_envelope_def IsImplemented_def MaxPayloadSize_def MaxPacketSize_def)
  moreover have "DecodeMessage (one_message demo_msg demo_envelope) sorted_order [1] KPlayerInput = Inr demo_msg"
    unfolding DecodeMessage_iff [OF sorted_order_range] by (simp add: one_message_def demo_msg_def)
  ultimately have "fst ?p = None"
    by (simp add: Process_def HandleEnvelope_def demo_envelope_def IsClientToServer_def TypePlayerInput_def demo_msg_def
        handlePlayerInput_def ResolveContext_def enqueue_cmd_def Enqueue_def demo_store_free word_le_nat_alt Let_def)
  with Process_effect [OF one_message_roundtrip sorted_order_range prod.collapse [symmetric], of demo_msg demo_envelope
      "\<lambda>_. Inr (Some 0)" "\<lambda>_. (''p1'', ''u1'')" 1000 5 "''s1''" "[7, 7]" demo_store]
  obtain cmd where "snd ?p = demo_store(0 := (demo_store 0)\<lparr>commands := commands (demo_store 0) @ [cmd]\<rparr>)" "cmd_PlayerID cmd = ''p1''"
    by auto
  with \<open>fst ?p = None\<close> show ?thesis by (intro exI [of _ cmd]) (simp add: prod_eq_iff demo_store_free)
qed

text \<open>Processing an encoded movement message, with the command it becomes.\<close>

lemma Process_input:
  assumes "msgpack_roundtrip mp" and "range_order ord" and "range_order ord'"
    and "EncodeAndWrap mp ord' 1 TypePlayerInput seq tick (MsgPlayerInput m) = Inr data"
    and "resolveRoom sessID = Inr (Some r)" and "resolve sessID = (pid, uid)" and "pid \<noteq> []"
    and "status (store r) = RoomStatusRunning"
    and "int (length (commands (store r))) < CommandQueueSize (config (store r))"
  shows "Process mp ord resolveRoom resolve unix_ms now sessID data store =
    (None, store(r := (store r)\<lparr>commands := commands (store r) @
       [input_command unix_ms now \<lparr>pc_SessionID = sessID, pc_PlayerID = pid, pc_UserID = uid\<rparr> m]\<rparr>))"
proof -
  obtain env where "DecodeAndUnwrap mp ord data KPlayerInput = Inr (env, MsgPlayerInput m)" and t: "env_Type env = TypePlayerInput"
    using wrap_unwrap [OF assms(1,3,2,4)] by auto
  then have d: "DecodeEnvelope mp data = Inr env" "DecodeMessage mp ord (env_Body env) KPlayerInput = Inr (MsgPlayerInput m)"
    by (auto simp: DecodeAndUnwrap_def split: sum.splits)
  have c: "IsClientToServer TypePlayerInput" by (simp add: IsClientToServer_def TypePlayerInput_def word_le_nat_alt)
  show ?thesis
    using assms(5-) d t c
    by (simp add: Process_def HandleEnvelope_def handlePlayerInput_def ResolveContext_def enqueue_cmd_def Enqueue_def Let_def)
qed

text \<open>
  A player's input reaches the room. If a client wraps a movement message as a packet and the
  server has the session attached to a running room with space in its queue and a player for it,
  then processing the packet succeeds and appends the command with that position and yaw.
\<close>

theorem input_reaches_room:
  assumes "msgpack_roundtrip mp" and "range_order ord" and "range_order ord'"
    and "EncodeAndWrap mp ord' 1 TypePlayerInput seq tick (MsgPlayerInput m) = Inr data"
    and "resolveRoom sessID = Inr (Some r)" and "resolve sessID = (pid, uid)" and "pid \<noteq> []"
    and "status (store r) = RoomStatusRunning"
    and "int (length (commands (store r))) < CommandQueueSize (config (store r))"
  shows "\<exists>cmd i. Process mp ord resolveRoom resolve unix_ms now sessID data store
      = (None, store(r := (store r)\<lparr>commands := commands (store r) @ [cmd]\<rparr>))
    \<and> cmd_Kind cmd = CmdPlayerInput \<and> cmd_SessionID cmd = sessID \<and> cmd_PlayerID cmd = pid \<and> cmd_UserID cmd = uid
    \<and> cmd_Payload cmd = InputPayload i \<and> pi_Seq i = pim_Seq m
    \<and> v_X (pt_Position (pi_Transform i)) = pim_MoveX m \<and> v_Z (pt_Position (pi_Transform i)) = pim_MoveZ m
    \<and> q_Y (pt_Rotation (pi_Transform i)) = pim_Yaw m"
  unfolding Process_input [where resolveRoom = resolveRoom and sessID = sessID and resolve = resolve and store = store and r = r, OF assms]
  by (intro exI [of _ "input_command unix_ms now \<lparr>pc_SessionID = sessID, pc_PlayerID = pid, pc_UserID = uid\<rparr> m"])
    (simp add: input_command_def)

theorem input_reaches_room_witness:
  "\<exists>cmd. Process (one_message demo_msg demo_envelope) sorted_order (\<lambda>_. Inr (Some 0)) (\<lambda>_. (''p1'', ''u1'')) 1000 5 ''s1'' [7, 7] demo_store
     = (None, demo_store(0 := (demo_store 0)\<lparr>commands := [cmd]\<rparr>)) \<and> cmd_PlayerID cmd = ''p1''"
proof -
  from input_reaches_room [OF one_message_roundtrip sorted_order_range sorted_order_range demo_encodes [unfolded demo_msg_def],
      of "\<lambda>_. Inr (Some 0)" "''s1''" 0 "\<lambda>_. (''p1'', ''u1'')" "''p1''" "''u1''" demo_store 1000 5]
  show ?thesis by (auto simp: demo_store_free demo_msg_def)
qed

text \<open>
  Dispatch sends each change once and to the right session. The results name exactly the sessions
  that have a non-empty player delta, in the order the map is visited. Every packet handed to a
  connection decodes to the converted delta of a session whose connection it is, and a result
  without error stands for such a packet; sessions without changes get nothing.
\<close>

theorem DispatchBatches_exact:
  assumes "msgpack_roundtrip mp" and "range_order vord" and "range_order ord"
    and "DispatchBatches mp ord vord send lookup batches trace = (results, trace')"
  shows "map sr_SessionID results = filter (\<lambda>sid. delta_for batches sid \<noteq> None) (ord (fmdom batches))
    \<and> (\<exists>sent. trace' = trace @ sent
        \<and> (\<forall>cd\<in>set sent. \<exists>sid. sid |\<in>| fmdom batches \<and> carries mp vord lookup batches sid cd)
        \<and> (\<forall>r\<in>set results. sr_Error r = None \<longrightarrow> (\<exists>cd\<in>set sent. carries mp vord lookup batches (sr_SessionID r) cd)))"
proof (cases "map_len batches = 0")
  case True
  then have "batches = fmempty" by simp
  moreover have "ord {||} = []" using range_orderD(2) [OF assms(3), of "{||}"] by simp
  ultimately show ?thesis using assms(4) by (simp add: DispatchBatches_def)
next
  case False
  then have "fold (dispatch_one mp vord send lookup batches) (ord (fmdom batches)) ([], trace) = (results, trace')"
    using assms(4) by (simp add: DispatchBatches_def)
  from dispatch_loop [OF assms(1,2) this] show ?thesis
    by (simp add: range_orderD(2) [OF assms(3)]) blast
qed

theorem DispatchBatches_exact_witness:
  "\<exists>sent. snd (DispatchBatches demo_delta_codec sorted_order sorted_order (\<lambda>_ _ _. None) (\<lambda>_. Some (3, KCP))
      (fmupd ''s1'' \<lparr>db_Tick = 4, db_PlayerDelta = Some demo_delta, db_ObjectDelta = None\<rparr> fmempty) []) = [] @ sent
    \<and> sent \<noteq> []"
proof -
  let ?b = "fmupd ''s1'' \<lparr>db_Tick = 4, db_PlayerDelta = Some demo_delta, db_ObjectDelta = None\<rparr> fmempty"
  let ?d = "DispatchBatches demo_delta_codec sorted_order sorted_order (\<lambda>_ _ _. None) (\<lambda>_. Some (3, KCP)) ?b []"
  have rt: "msgpack_roundtrip demo_delta_codec" by (simp add: demo_delta_codec_def one_message_roundtrip)
  have "delta_for ?b ''s1'' = Some demo_delta" by (simp add: delta_for_def demo_delta_def PlayerDelta_IsEmpty_def)
  then have "fst ?d = [\<lparr>sr_SessionID = ''s1'', sr_Transport = KCP, sr_Error = None\<rparr>]"
    by (simp add: DispatchBatches_def map_len_upd sorted_order_def sorted_list_of_fset.rep_eq dispatch_one_eq
        SendPlayerDelta_def demo_delta_encodes call_send_def)
  with DispatchBatches_exact [OF rt sorted_order_range sorted_order_range prod.collapse [symmetric],
      of "\<lambda>_ _ _. None" "\<lambda>_. Some (3, KCP)" ?b "[]"]
  show ?thesis by fastforce
qed

text \<open>
  The delta survives the way to the client. A client that decodes the packet made from a delta and
  applies it to what it draws (position on the plane, yaw, version) has exactly what it would
  draw had it applied the room's own delta, at the tick of the delta.
\<close>

theorem delta_over_the_wire:
  assumes "msgpack_roundtrip mp" and "range_order vord"
    and "SendPlayerDelta mp vord send c pd trace = (err, trace @ [(c, data)])"
  shows "\<exists>env msg. DecodeAndUnwrap mp vord data KPlayerDelta = Inr (env, MsgPlayerDelta msg) \<and> env_Tick env = pd_Tick pd
    \<and> apply_wire msg (view_on_wire v) = view_on_wire (apply_delta pd v)"
  using assms(1,2)
proof (cases rule: SendPlayerDelta_cases [where send = send and c = c and pd = pd and trace = trace])
  case (unsent e)
  then show ?thesis using assms(3) by simp
next
  case (sent data' body)
  then have "data' = data" using assms(3) by simp
  then show ?thesis using sent(2) apply_converted by simp
qed

theorem delta_over_the_wire_witness:
  "\<exists>env msg. DecodeAndUnwrap demo_delta_codec sorted_order [7, 7] KPlayerDelta = Inr (env, MsgPlayerDelta msg)
     \<and> apply_wire msg (view_on_wire [''p1'' \<mapsto> (ps_Transform (demo_player ''p1'' 2), 2)]) = view_on_wire (\<lambda>_. None)"
proof -
  have "SendPlayerDelta demo_delta_codec sorted_order (\<lambda>_ _ _. None) 3 demo_delta [] = (None, [] @ [(3, [7, 7])])"
    by (simp add: SendPlayerDelta_def demo_delta_encodes call_send_def)
  from delta_over_the_wire [OF _ sorted_order_range this, of "[''p1'' \<mapsto> (ps_Transform (demo_player ''p1'' 2), 2)]"]
  show ?thesis by (auto simp: demo_delta_codec_def one_message_roundtrip apply_delta_def demo_delta_def)
qed



end
