(* ===== verification/Transport.thy ===== *)
theory Transport
  imports GoFmt Session "HOL-Library.Multiset" "HOL-Library.Sublist"
begin

text \<open>
  What the two transport adapters share (\<^verbatim>\<open>internal/transport\<close>): sessions behind pointers, the map of
  open sessions, the wait group, and the goroutines that work on them. The adapters themselves are
  in the theories \<^verbatim>\<open>KCP\<close> and \<^verbatim>\<open>WebSocket\<close>; here is the contract both are shown to keep, as an abstract
  step relation on the shared state, and what follows from it.

  Goroutines interleave at every point where one of them takes the server's mutex, uses a
  channel or the \<^verbatim>\<open>sync.Once\<close>, or waits for the network. The two ghost lists of a session record what
  \<^verbatim>\<open>Send\<close> has accepted and what was written to the connection.
\<close>

section \<open>Data\<close>

type_synonym sess_ref = nat

datatype once = OnceNew | OnceRunning | OnceDone

record net_session =
  ts_id :: string
  ts_sendCh :: "bytes list"
  ts_cap :: nat
  ts_closed :: bool
  ts_once :: once
  ts_accepted :: "bytes list"
  ts_written :: "bytes list"

record pool =
  sv_heap :: "(sess_ref, net_session) fmap"
  sv_next :: sess_ref
  sv_sessions :: "(string, sess_ref) fmap"
  sv_wg :: int

text \<open>
  Where a goroutine is. A number is the context it was given. \<open>Closing pc a k\<close> is inside \<^verbatim>\<open>close\<close> of the
  session \<open>a\<close>, called where \<open>k\<close> says, and then goes on from there (\<open>resume\<close>); \<open>WgDone\<close> is at its deferred \<^verbatim>\<open>wg.Done()\<close>. The last five
  constructors belong to the HTTP server of the WebSocket adapter.
\<close>

datatype closing = CloseEnter | CloseRemove

datatype after = AfterLoop | AfterCall | AfterStop "sess_ref list" | AfterHandler

datatype goroutine =
  StartSpawn nat
| AcceptLoop nat
| AcceptSpawn nat sess_ref
| ReadStart nat sess_ref
| ReadLoop nat sess_ref
| ReadWait nat sess_ref
| WriteLoop nat sess_ref
| WriteData nat sess_ref bytes
| Closing closing sess_ref after
| WgDone
| SendCall sess_ref bytes
| CallReturn
| StopCall "sess_ref list"
| StopWait
| ServeSpawn nat
| Serve nat
| Upgrade string
| UpgradeSpawn sess_ref
| HandlerReturn

primrec resume :: "after \<Rightarrow> goroutine" where
  "resume AfterLoop = WgDone"
| "resume AfterCall = CallReturn"
| "resume (AfterStop as) = StopCall as"
| "resume AfterHandler = HandlerReturn"

datatype frame_type = TextMessage | BinaryMessage | OtherMessage

text \<open>What the network and the scheduler decide in a step.\<close>

datatype io =
  Ok
| IOFail
| Timeout
| Arrive bytes
| Frame frame_type bytes
| PickDone
| PickClosed
| PickData

datatype net_err = ErrClosed | AlreadyRunning | ListenFailed string | ListenAddrRequired | InvalidListenAddr string | HandlerRequired

section \<open>The part a goroutine plays\<close>

text \<open>
  Whether it is counted in the wait group, the session it is bound to close, and the session it
  writes to (or will start the writer of), with the packet it holds.
\<close>

fun counted :: "goroutine \<Rightarrow> int" where
  "counted (AcceptLoop c) = 1" | "counted (AcceptSpawn c a) = 1" | "counted (ReadStart c a) = 1"
| "counted (ReadLoop c a) = 1" | "counted (ReadWait c a) = 1" | "counted (WriteLoop c a) = 1"
| "counted (WriteData c a d) = 1" | "counted (Closing pc a AfterLoop) = 1" | "counted WgDone = 1"
| "counted (Serve c) = 1" | "counted _ = 0"

fun owner :: "goroutine \<Rightarrow> sess_ref multiset" where
  "owner (AcceptSpawn c a) = {#a#}" | "owner (ReadStart c a) = {#a#}" | "owner (ReadLoop c a) = {#a#}"
| "owner (ReadWait c a) = {#a#}" | "owner (UpgradeSpawn a) = {#a#}"
| "owner (Closing pc a AfterLoop) = {#a#}" | "owner (Closing pc a AfterHandler) = {#a#}" | "owner _ = {#}"

fun writer :: "goroutine \<Rightarrow> (sess_ref \<times> bytes list) multiset" where
  "writer (AcceptSpawn c a) = {#(a, [])#}" | "writer (UpgradeSpawn a) = {#(a, [])#}"
| "writer (ReadStart c a) = {#(a, [])#}" | "writer (WriteLoop c a) = {#(a, [])#}"
| "writer (WriteData c a d) = {#(a, [d])#}" | "writer _ = {#}"

definition counts :: "goroutine multiset \<Rightarrow> int" where "counts G = (\<Sum>g\<in>#G. counted g)"
definition owners :: "goroutine multiset \<Rightarrow> sess_ref multiset" where "owners G = (\<Sum>g\<in>#G. owner g)"
definition writers :: "goroutine multiset \<Rightarrow> (sess_ref \<times> bytes list) multiset" where "writers G = (\<Sum>g\<in>#G. writer g)"

lemma role_simps [simp]:
  "counts {#} = 0" "owners {#} = {#}" "writers {#} = {#}"
  "counts (add_mset g G) = counted g + counts G" "owners (add_mset g G) = owner g + owners G"
  "writers (add_mset g G) = writer g + writers G"
  "counts (G + H) = counts G + counts H" "owners (G + H) = owners G + owners H" "writers (G + H) = writers G + writers H"
  by (simp_all add: counts_def owners_def writers_def)

lemma counted_nonneg [simp]: "0 \<le> counted g"
  by (cases g rule: counted.cases) simp_all

lemma counts_nonneg [simp]: "0 \<le> counts G"
  by (induction G) simp_all

text \<open>When nothing is counted, no goroutine of the server is left.\<close>

lemma counts_zero: "counts G = 0 \<Longrightarrow> g \<in># G \<Longrightarrow> counted g = 0"
proof (induction G)
  case (add h G)
  then show ?case using counted_nonneg [of h] counts_nonneg [of G] by (auto simp del: counted_nonneg counts_nonneg)
qed simp

lemma resume_role [simp]:
  "counted (resume k) = counted (Closing pc a k)" "owner (resume k) = {#}" "writer (resume k) = {#}"
  "owner (Closing pc a k) - {#a#} = {#}" "writer (Closing pc a k) = {#}"
  "owner (Closing pc a k) = owner (Closing pc' a k)" "counted (Closing pc a k) = counted (Closing pc' a' k)"
  by (cases k; simp)+

section \<open>The contract of an adapter\<close>

definition fresh_session :: "string \<Rightarrow> nat \<Rightarrow> net_session" where
  "fresh_session i cap = \<lparr>ts_id = i, ts_sendCh = [], ts_cap = cap, ts_closed = False, ts_once = OnceNew, ts_accepted = [], ts_written = []\<rparr>"

definition put :: "sess_ref \<Rightarrow> net_session \<Rightarrow> pool \<Rightarrow> pool" where
  "put a x p = p\<lparr>sv_heap := fmupd a x (sv_heap p)\<rparr>"

text \<open>
  What a step of one goroutine \<open>g\<close> may do to the shared state; \<open>M\<close> is what remains of it together with
  the goroutines it starts.
\<close>

inductive effect :: "pool \<Rightarrow> goroutine \<Rightarrow> pool \<Rightarrow> goroutine multiset \<Rightarrow> bool" where
  move: "owners M = owner g \<Longrightarrow> writers M = writer g \<Longrightarrow> p' = p\<lparr>sv_wg := sv_wg p + counts M - counted g\<rparr> \<Longrightarrow> effect p g p' M"
| opens: "owner g = {#} \<Longrightarrow> writer g = {#} \<Longrightarrow> owners M = {#sv_next p#} \<Longrightarrow> writers M = {#(sv_next p, [])#} \<Longrightarrow> counts M = counted g \<Longrightarrow>
    p' = put (sv_next p) (fresh_session i cap) p\<lparr>sv_next := sv_next p + 1, sv_sessions := fmupd i (sv_next p) (sv_sessions p)\<rparr> \<Longrightarrow> effect p g p' M"
| refuses: "owner g = {#} \<Longrightarrow> writer g = {#} \<Longrightarrow> owners M = {#sv_next p#} \<Longrightarrow> writers M = {#} \<Longrightarrow> counts M = counted g \<Longrightarrow>
    p' = put (sv_next p) (fresh_session i cap) p\<lparr>sv_next := sv_next p + 1\<rparr> \<Longrightarrow> effect p g p' M"
| closes: "fmlookup (sv_heap p) a = Some x \<Longrightarrow> ts_once x = OnceNew \<Longrightarrow> owners M = owner g \<Longrightarrow> writers M = writer g \<Longrightarrow> counts M = counted g \<Longrightarrow>
    p' = put a (x\<lparr>ts_closed := True, ts_once := OnceRunning\<rparr>) p \<Longrightarrow> effect p g p' M"
| removes: "fmlookup (sv_heap p) a = Some x \<Longrightarrow> ts_once x = OnceRunning \<Longrightarrow> owners M = owner g - {#a#} \<Longrightarrow> writers M = writer g \<Longrightarrow> counts M = counted g \<Longrightarrow>
    p' = put a (x\<lparr>ts_once := OnceDone\<rparr>) p\<lparr>sv_sessions := fmdrop (ts_id x) (sv_sessions p)\<rparr> \<Longrightarrow> effect p g p' M"
| skips: "fmlookup (sv_heap p) a = Some x \<Longrightarrow> ts_once x = OnceDone \<Longrightarrow> owners M = owner g - {#a#} \<Longrightarrow> writers M = writer g \<Longrightarrow> counts M = counted g \<Longrightarrow>
    p' = p \<Longrightarrow> effect p g p' M"
| sends: "fmlookup (sv_heap p) a = Some x \<Longrightarrow> length (ts_sendCh x) < ts_cap x \<Longrightarrow> owners M = owner g \<Longrightarrow> writers M = writer g \<Longrightarrow> counts M = counted g \<Longrightarrow>
    p' = put a (x\<lparr>ts_sendCh := ts_sendCh x @ [d], ts_accepted := ts_accepted x @ [d]\<rparr>) p \<Longrightarrow> effect p g p' M"
| takes: "fmlookup (sv_heap p) a = Some x \<Longrightarrow> ts_sendCh x = d # q \<Longrightarrow> writer g = {#(a, [])#} \<Longrightarrow> writers M = {#(a, [d])#} \<Longrightarrow> owners M = owner g \<Longrightarrow>
    counts M = counted g \<Longrightarrow> p' = put a (x\<lparr>ts_sendCh := q\<rparr>) p \<Longrightarrow> effect p g p' M"
| writes: "fmlookup (sv_heap p) a = Some x \<Longrightarrow> writer g = {#(a, [d])#} \<Longrightarrow> writers M = {#(a, [])#} \<Longrightarrow> owners M = owner g \<Longrightarrow>
    counts M = counted g \<Longrightarrow> p' = put a (x\<lparr>ts_written := ts_written x @ [d]\<rparr>) p \<Longrightarrow> effect p g p' M"
| gives_up: "writers M = {#} \<Longrightarrow> owners M = owner g \<Longrightarrow> counts M = counted g \<Longrightarrow> p' = p \<Longrightarrow> effect p g p' M"
| drains: "fmlookup (sv_heap p) a = Some x \<Longrightarrow> writer g = {#(a, w)#} \<Longrightarrow> writers M = {#} \<Longrightarrow> owners M = owner g \<Longrightarrow> counts M = counted g \<Longrightarrow>
    p' = put a (x\<lparr>ts_sendCh := []\<rparr>) p \<Longrightarrow> effect p g p' M"

text \<open>One goroutine steps, or a call from outside enters the server.\<close>

inductive pool_step :: "pool \<times> goroutine multiset \<Rightarrow> pool \<times> goroutine multiset \<Rightarrow> bool" where
  runs: "effect p g p' M \<Longrightarrow> pool_step (p, add_mset g G) (p', M + G)"
| enters: "owner g = {#} \<Longrightarrow> writer g = {#} \<Longrightarrow> counted g = 0 \<Longrightarrow> pool_step (p, G) (p, add_mset g G)"
| idles: "pool_step s s"

section \<open>What the contract gives\<close>

text \<open>The wait group counts the live goroutines, and open sessions are looked after.\<close>

definition session_ok :: "goroutine multiset \<Rightarrow> sess_ref \<Rightarrow> net_session \<Rightarrow> bool" where
  "session_ok G a x \<longleftrightarrow> (ts_once x \<noteq> OnceDone \<longrightarrow> a \<in># owners G) \<and> (ts_closed x \<longleftrightarrow> ts_once x \<noteq> OnceNew)"

definition lifecycle_inv :: "pool \<times> goroutine multiset \<Rightarrow> bool" where
  "lifecycle_inv s \<longleftrightarrow> (case s of (p, G) \<Rightarrow>
     sv_wg p = counts G
     \<and> (\<forall>a x. fmlookup (sv_heap p) a = Some x \<longrightarrow> session_ok G a x)
     \<and> (\<forall>i a. fmlookup (sv_sessions p) i = Some a \<longrightarrow>
          (\<exists>x. fmlookup (sv_heap p) a = Some x \<and> ts_id x = i \<and> ts_once x \<noteq> OnceDone))
     \<and> (\<forall>a. sv_next p \<le> a \<longrightarrow> fmlookup (sv_heap p) a = None))"

text \<open>The queue of a session is in order, and at most one goroutine writes to it.\<close>

definition queue_ok :: "(sess_ref \<times> bytes list) multiset \<Rightarrow> sess_ref \<Rightarrow> net_session \<Rightarrow> bool" where
  "queue_ok W a x \<longleftrightarrow> prefix (ts_written x) (ts_accepted x) \<and> length (ts_sendCh x) \<le> ts_cap x
     \<and> size (filter_mset (\<lambda>w. fst w = a) W) \<le> 1
     \<and> (\<forall>w. (a, w) \<in># W \<longrightarrow> ts_accepted x = ts_written x @ w @ ts_sendCh x)"

definition queue_inv :: "pool \<times> goroutine multiset \<Rightarrow> bool" where
  "queue_inv s \<longleftrightarrow> (case s of (p, G) \<Rightarrow>
     (\<forall>a x. fmlookup (sv_heap p) a = Some x \<longrightarrow> queue_ok (writers G) a x)
     \<and> (\<forall>a. sv_next p \<le> a \<longrightarrow> fmlookup (sv_heap p) a = None \<and> (\<forall>w. (a, w) \<notin># writers G)))"

lemma put_simps [simp]:
  "sv_heap (put a x p) = fmupd a x (sv_heap p)" "sv_next (put a x p) = sv_next p"
  "sv_sessions (put a x p) = sv_sessions p" "sv_wg (put a x p) = sv_wg p"
  by (simp_all add: put_def)

lemma same_sessions [simp]: "put a x p\<lparr>sv_next := n, sv_sessions := sv_sessions p\<rparr> = put a x p\<lparr>sv_next := n\<rparr>"
  by (cases p) (simp add: put_def)

lemma lifecycle_invD:
  assumes "lifecycle_inv (p, G)"
  shows "sv_wg p = counts G" "fmlookup (sv_heap p) a = Some x \<Longrightarrow> session_ok G a x" "fmlookup (sv_heap p) a = Some x \<Longrightarrow> a < sv_next p"
    "fmlookup (sv_sessions p) i = Some a \<Longrightarrow> fmlookup (sv_heap p) a = Some x \<Longrightarrow> ts_id x = i"
    "fmlookup (sv_sessions p) i = Some a \<Longrightarrow> \<exists>x. fmlookup (sv_heap p) a = Some x \<and> ts_id x = i \<and> ts_once x \<noteq> OnceDone"
    "sv_next p \<le> a \<Longrightarrow> fmlookup (sv_heap p) a = None"
  using assms by (force simp: lifecycle_inv_def not_less [symmetric])+

lemma lifecycle_invI:
  assumes "sv_wg p = counts G" "\<And>a x. fmlookup (sv_heap p) a = Some x \<Longrightarrow> session_ok G a x"
    "\<And>i a. fmlookup (sv_sessions p) i = Some a \<Longrightarrow> \<exists>x. fmlookup (sv_heap p) a = Some x \<and> ts_id x = i \<and> ts_once x \<noteq> OnceDone"
    "\<And>a. sv_next p \<le> a \<Longrightarrow> fmlookup (sv_heap p) a = None"
  shows "lifecycle_inv (p, G)"
  using assms by (simp add: lifecycle_inv_def)

text \<open>An update of one open session that leaves it open, and a step that leaves the pool alone.\<close>

lemma lifecycle_put:
  assumes inv: "lifecycle_inv (p, G)" and x: "fmlookup (sv_heap p) a = Some x" and y: "ts_id y = ts_id x" "ts_once y = OnceDone \<longleftrightarrow> ts_once x = OnceDone"
    "ts_closed x \<longleftrightarrow> ts_once x \<noteq> OnceNew \<Longrightarrow> ts_closed y \<longleftrightarrow> ts_once y \<noteq> OnceNew" and H: "counts H = counts G" "owners H = owners G"
  shows "lifecycle_inv (put a y p, H)"
proof (rule lifecycle_invI)
  show "sv_wg (put a y p) = counts H" using lifecycle_invD(1) [OF inv] H by simp
  show "session_ok H b z" if "fmlookup (sv_heap (put a y p)) b = Some z" for b z
    using lifecycle_invD(2) [OF inv] lifecycle_invD(2) [OF inv x] y H that by (auto simp: session_ok_def split: if_splits)
  show "\<exists>z. fmlookup (sv_heap (put a y p)) b = Some z \<and> ts_id z = i \<and> ts_once z \<noteq> OnceDone" if "fmlookup (sv_sessions (put a y p)) i = Some b" for i b
    using lifecycle_invD(5) [OF inv, of i b] x y that by auto
  show "fmlookup (sv_heap (put a y p)) b = None" if "sv_next (put a y p) \<le> b" for b
    using lifecycle_invD(3) [OF inv x] lifecycle_invD(6) [OF inv, of b] that by simp
qed

lemma lifecycle_same:
  assumes "lifecycle_inv (p, G)" "counts H = counts G"
    and "\<And>a x. fmlookup (sv_heap p) a = Some x \<Longrightarrow> ts_once x \<noteq> OnceDone \<Longrightarrow> a \<in># owners G \<Longrightarrow> a \<in># owners H"
  shows "lifecycle_inv (p, H)"
  using assms by (auto simp: lifecycle_inv_def session_ok_def)

lemma lifecycle_fresh:
  assumes inv: "lifecycle_inv (p, G)" and H: "counts H = counts G" "owners H = add_mset (sv_next p) (owners G)"
    and m: "m = sv_sessions p \<or> m = fmupd i (sv_next p) (sv_sessions p)"
  shows "lifecycle_inv (put (sv_next p) (fresh_session i cap) p\<lparr>sv_next := sv_next p + 1, sv_sessions := m\<rparr>, H)" (is "lifecycle_inv (?p, H)")
proof (rule lifecycle_invI)
  show "sv_wg ?p = counts H" using lifecycle_invD(1) [OF inv] H by simp
  show "session_ok H b z" if "fmlookup (sv_heap ?p) b = Some z" for b z
    using lifecycle_invD(2) [OF inv] H that by (auto simp: session_ok_def fresh_session_def split: if_splits)
  show "\<exists>z. fmlookup (sv_heap ?p) b = Some z \<and> ts_id z = j \<and> ts_once z \<noteq> OnceDone" if "fmlookup (sv_sessions ?p) j = Some b" for j b
    using lifecycle_invD(5) [OF inv, of j b] lifecycle_invD(6) [OF inv, of "sv_next p"] m that by (auto simp: fresh_session_def split: if_splits)
  show "fmlookup (sv_heap ?p) b = None" if "sv_next ?p \<le> b" for b
    using lifecycle_invD(6) [OF inv, of b] that by simp
qed

lemma lifecycle_remove:
  assumes inv: "lifecycle_inv (p, G)" and x: "fmlookup (sv_heap p) a = Some x" "ts_once x = OnceRunning" and H: "counts H = counts G"
    and keeps: "\<And>b. b \<noteq> a \<Longrightarrow> b \<in># owners G \<Longrightarrow> b \<in># owners H"
  shows "lifecycle_inv (put a (x\<lparr>ts_once := OnceDone\<rparr>) p\<lparr>sv_sessions := fmdrop (ts_id x) (sv_sessions p)\<rparr>, H)" (is "lifecycle_inv (?p, H)")
proof (rule lifecycle_invI)
  show "sv_wg ?p = counts H" using lifecycle_invD(1) [OF inv] H by simp
  show "session_ok H b z" if "fmlookup (sv_heap ?p) b = Some z" for b z
    using lifecycle_invD(2) [OF inv x(1)] lifecycle_invD(2) [OF inv, of b] x(2) keeps that by (auto simp: session_ok_def split: if_splits)
  show "\<exists>z. fmlookup (sv_heap ?p) b = Some z \<and> ts_id z = j \<and> ts_once z \<noteq> OnceDone" if "fmlookup (sv_sessions ?p) j = Some b" for j b
    using lifecycle_invD(5) [OF inv, of j b] x that by (auto split: if_splits)
  show "fmlookup (sv_heap ?p) b = None" if "sv_next ?p \<le> b" for b
    using lifecycle_invD(3) [OF inv x(1)] lifecycle_invD(6) [OF inv, of b] that by simp
qed

lemma lifecycle_effect:
  assumes "effect p g p' M" and inv: "lifecycle_inv (p, add_mset g G)"
  shows "lifecycle_inv (p', M + G)"
  using assms(1)
proof cases
  case move
  with inv show ?thesis by (simp add: lifecycle_inv_def session_ok_def)
next
  case (opens i cap)
  then show ?thesis using lifecycle_fresh [OF inv, of "M + G" _ i cap] by simp
next
  case (refuses i cap)
  then show ?thesis using lifecycle_fresh [OF inv, of "M + G" "sv_sessions p" i cap] by simp
next
  case (removes a x)
  then show ?thesis by (auto intro!: lifecycle_remove [OF inv removes(1,2)] in_diff_count simp: in_diff_count)
next
  case (skips a x)
  then show ?thesis by (auto intro!: lifecycle_same [OF inv] simp: in_diff_count)
next
  case gives_up
  with inv show ?thesis by (auto intro: lifecycle_same [OF inv])
qed (auto intro!: lifecycle_put [OF inv])

lemma queue_same:
  assumes "queue_inv (p, G)" "\<And>a w. (a, w) \<in># writers H \<Longrightarrow> (a, w) \<in># writers G"
    and "\<And>a. size (filter_mset (\<lambda>w. fst w = a) (writers H)) \<le> size (filter_mset (\<lambda>w. fst w = a) (writers G))"
  shows "queue_inv (p, H)"
proof -
  have "queue_ok (writers G) a x \<Longrightarrow> queue_ok (writers H) a x" for a x
    using assms(2,3) [of a] le_trans by (fastforce simp: queue_ok_def)
  with assms(1,2) show ?thesis by (fastforce simp: queue_inv_def)
qed

text \<open>A step of a session's only writer, and one that no writer of the session takes part in.\<close>

lemma queue_put:
  assumes inv: "queue_inv (p, G)" and x: "fmlookup (sv_heap p) a = Some x"
    and a: "queue_ok (writers G) a x \<Longrightarrow> queue_ok (writers H) a y"
    and others: "\<And>b. b \<noteq> a \<Longrightarrow> filter_mset (\<lambda>w. fst w = b) (writers H) = filter_mset (\<lambda>w. fst w = b) (writers G)"
  shows "queue_inv (put a y p, H)"
proof -
  have "(b, w) \<in># writers H \<longleftrightarrow> (b, w) \<in># writers G" if "b \<noteq> a" for b w
    using arg_cong [OF others [OF that], of "\<lambda>M. (b, w) \<in># M"] by simp
  then have "queue_ok (writers H) b z = queue_ok (writers G) b z" if "b \<noteq> a" for b z
    using that others by (simp add: queue_ok_def)
  moreover have "\<not> sv_next p \<le> a" using inv x by (auto simp: queue_inv_def)
  ultimately show ?thesis using inv x a \<open>\<And>w b. b \<noteq> a \<Longrightarrow> (b, w) \<in># writers H \<longleftrightarrow> (b, w) \<in># writers G\<close>
    by (auto simp: queue_inv_def)
qed

lemma no_writer: "(\<And>v. (a, v) \<notin># W) \<Longrightarrow> filter_mset (\<lambda>w. fst w = a) W = {#}"
  by (auto simp: filter_mset_eq_conv)

lemma queue_ok_writer:
  "queue_ok (add_mset (a, w) W) a x \<longleftrightarrow> prefix (ts_written x) (ts_accepted x) \<and> length (ts_sendCh x) \<le> ts_cap x
     \<and> (\<forall>v. (a, v) \<notin># W) \<and> ts_accepted x = ts_written x @ w @ ts_sendCh x"
  by (auto simp: queue_ok_def filter_mset_eq_conv)

lemma queue_ok_no_writer:
  assumes "\<And>v. (a, v) \<notin># W"
  shows "queue_ok W a x \<longleftrightarrow> prefix (ts_written x) (ts_accepted x) \<and> length (ts_sendCh x) \<le> ts_cap x"
  by (simp add: queue_ok_def no_writer [OF assms] assms)

lemma queue_fresh:
  assumes inv: "queue_inv (p, G)" and H: "writers H = V + writers G" "V = {#} \<or> V = {#(sv_next p, [])#}"
  shows "queue_inv (put (sv_next p) (fresh_session i cap) p\<lparr>sv_next := sv_next p + 1, sv_sessions := m\<rparr>, H)"
proof -
  have none: "(sv_next p, v) \<notin># writers G" for v using inv by (simp add: queue_inv_def)
  have "queue_ok (writers H) (sv_next p) (fresh_session i cap)"
    using H by (auto simp: queue_ok_writer queue_ok_no_writer none fresh_session_def)
  moreover have "queue_ok (writers H) b z" if "queue_ok (writers G) b z" "b \<noteq> sv_next p" for b z
    using H that by (auto simp: queue_ok_def)
  ultimately show ?thesis using inv H by (auto simp: queue_inv_def)
qed

lemma queue_effect:
  assumes "effect p g p' M" and inv: "queue_inv (p, add_mset g G)"
  shows "queue_inv (p', M + G)"
  using assms(1)
proof cases
  case move
  with inv show ?thesis by (simp add: queue_inv_def)
next
  case (opens i cap)
  then show ?thesis using queue_fresh [OF inv, of "M + G" "{#(sv_next p, [])#}" _ i cap] by simp
next
  case (refuses i cap)
  then show ?thesis using queue_fresh [OF inv, of "M + G" "{#}" "sv_sessions p" i cap] by simp
next
  case (closes a x)
  then show ?thesis by (auto intro!: queue_put [OF inv closes(1)] simp: queue_ok_def)
next
  case (removes a x)
  then have "queue_inv (put a (x\<lparr>ts_once := OnceDone\<rparr>) p, M + G)"
    by (auto intro!: queue_put [OF inv removes(1)] simp: queue_ok_def)
  with removes show ?thesis by (simp add: queue_inv_def)
next
  case (skips a x)
  with inv show ?thesis by (simp add: queue_inv_def)
next
  case (sends a x d)
  then show ?thesis by (auto intro!: queue_put [OF inv sends(1)] simp: queue_ok_def prefix_def)
next
  case (takes a x d q)
  then show ?thesis
    by (auto intro!: queue_put [OF inv takes(1)] simp: queue_ok_writer queue_ok_no_writer)
next
  case (writes a x d)
  then show ?thesis
    by (auto intro!: queue_put [OF inv writes(1)] simp: queue_ok_writer queue_ok_no_writer)
next
  case gives_up
  then show ?thesis by (auto intro!: queue_same [OF inv])
next
  case (drains a x w)
  then show ?thesis
    by (auto intro!: queue_put [OF inv drains(1)] simp: queue_ok_writer queue_ok_no_writer)
qed

lemma pool_step_keeps:
  assumes "pool_step s t"
  shows "lifecycle_inv s \<Longrightarrow> lifecycle_inv t" and "queue_inv s \<Longrightarrow> queue_inv t"
  using assms
  by (induction rule: pool_step.induct)
    (simp_all add: lifecycle_effect queue_effect, simp_all add: lifecycle_inv_def session_ok_def queue_inv_def)

section \<open>Interface: an adapter that keeps the contract\<close>

definition empty_pool :: pool where
  "empty_pool = \<lparr>sv_heap = fmempty, sv_next = 0, sv_sessions = fmempty, sv_wg = 0\<rparr>"

lemma empty_inv: "lifecycle_inv (empty_pool, {#})" "queue_inv (empty_pool, {#})"
  by (simp_all add: lifecycle_inv_def queue_inv_def empty_pool_def)

lemma uncounted_owner: "owner g \<noteq> {#} \<Longrightarrow> counted g = 0 \<Longrightarrow> (\<exists>a. g = UpgradeSpawn a) \<or> (\<exists>pc a. g = Closing pc a AfterHandler)"
  by (cases g rule: owner.cases) auto

lemma owners_member: "a \<in># owners G \<Longrightarrow> \<exists>g\<in>#G. a \<in># owner g"
  by (induction G) auto

text \<open>
  \<open>view\<close> is the shared part of the adapter's state. From the contract alone: when the wait group
  is at zero no goroutine of the server is left and whoever still owes a session its closing is the
  handler of an upgrade; and every session delivers in order.
\<close>

locale transport_adapter =
  fixes step :: "'s \<Rightarrow> 's \<Rightarrow> bool" and view :: "'s \<Rightarrow> pool \<times> goroutine multiset" and initial :: "'s \<Rightarrow> bool"
  assumes initial_empty: "initial s \<Longrightarrow> view s = (empty_pool, {#})"
    and step_view: "step s t \<Longrightarrow> pool_step (view s) (view t)"
begin

lemma invariants:
  assumes "step\<^sup>*\<^sup>* s t" "initial s"
  shows "lifecycle_inv (view t)" and "queue_inv (view t)"
  using assms by (induction rule: rtranclp_induct) (auto simp: initial_empty empty_inv dest: pool_step_keeps [OF step_view])

lemma wait_group:
  assumes "step\<^sup>*\<^sup>* s t" "initial s" "view t = (p, G)"
  shows "sv_wg p = counts G" and "sv_wg p = 0 \<Longrightarrow> g \<in># G \<Longrightarrow> counted g = 0"
  using lifecycle_invD(1) [of p G] invariants(1) [OF assms(1,2)] assms(3) counts_zero [of G g] by auto

lemma idle_sessions:
  assumes "step\<^sup>*\<^sup>* s t" "initial s" "view t = (p, G)" "sv_wg p = 0"
    and "\<And>a. UpgradeSpawn a \<notin># G" "\<And>pc a. Closing pc a AfterHandler \<notin># G"
  shows "sv_sessions p = fmempty" and "fmlookup (sv_heap p) a = Some x \<Longrightarrow> ts_closed x"
proof -
  have inv: "lifecycle_inv (p, G)" using invariants(1) [OF assms(1,2)] assms(3) by simp
  have all_done: "ts_once x = OnceDone" if x: "fmlookup (sv_heap p) a = Some x" for a x
  proof (rule ccontr)
    assume "ts_once x \<noteq> OnceDone"
    then obtain g where "g \<in># G" "a \<in># owner g"
      using lifecycle_invD(2) [OF inv x] owners_member by (auto simp: session_ok_def)
    then have "owner g \<noteq> {#}" by auto
    with uncounted_owner [of g] wait_group(2) [OF assms(1-4) \<open>g \<in># G\<close>] assms(5,6) \<open>g \<in># G\<close> show False by auto
  qed
  show "sv_sessions p = fmempty"
  proof (rule fmap_ext)
    show "fmlookup (sv_sessions p) i = fmlookup fmempty i" for i
      using lifecycle_invD(5) [OF inv, of i] all_done by (cases "fmlookup (sv_sessions p) i") auto
  qed
  show "ts_closed x" if "fmlookup (sv_heap p) a = Some x"
    using lifecycle_invD(2) [OF inv that] all_done [OF that] by (simp add: session_ok_def)
qed

lemma in_order:
  assumes "step\<^sup>*\<^sup>* s t" "initial s" "view t = (p, G)" "fmlookup (sv_heap p) a = Some x"
  shows "prefix (ts_written x) (ts_accepted x) \<and> length (ts_sendCh x) \<le> ts_cap x
    \<and> (\<forall>w. (a, w) \<in># writers G \<longrightarrow> ts_accepted x = ts_written x @ w @ ts_sendCh x)"
  using invariants(2) [OF assms(1,2)] assms(3,4) by (simp add: queue_inv_def queue_ok_def)

end

section \<open>The servers\<close>

text \<open>
  The fields the two server types have in common. Contexts are numbered by the calls of
  \<^verbatim>\<open>Start\<close> that make them; \<open>sv_count\<close> is the package's counter of session identifiers, \<open>sv_listener\<close> is
  nil, open or closed, and \<open>sv_dispatched\<close> records the calls of \<^verbatim>\<open>HandlePacket\<close>.
\<close>

record 'c server = pool +
  sv_cfg :: 'c
  sv_running :: bool
  sv_listener :: "bool option"
  sv_ctx :: nat
  sv_cancel :: "nat option"
  sv_cancelled :: "nat fset"
  sv_count :: u64
  sv_dispatched :: "(string \<times> bytes) list"

lemma truncate_sel [simp]:
  "sv_heap (pool.truncate s) = sv_heap s" "sv_next (pool.truncate s) = sv_next s"
  "sv_sessions (pool.truncate s) = sv_sessions s" "sv_wg (pool.truncate s) = sv_wg s"
  by (simp_all add: pool.defs)

lemma truncate_upd [simp]:
  "pool.truncate (s\<lparr>sv_heap := h\<rparr>) = (pool.truncate s)\<lparr>sv_heap := h\<rparr>" "pool.truncate (s\<lparr>sv_next := n\<rparr>) = (pool.truncate s)\<lparr>sv_next := n\<rparr>"
  "pool.truncate (s\<lparr>sv_sessions := m\<rparr>) = (pool.truncate s)\<lparr>sv_sessions := m\<rparr>" "pool.truncate (s\<lparr>sv_wg := w\<rparr>) = (pool.truncate s)\<lparr>sv_wg := w\<rparr>"
  by (simp_all add: pool.defs)

lemma truncate_server [simp]:
  "pool.truncate (s\<lparr>sv_cfg := c\<rparr>) = pool.truncate s" "pool.truncate (s\<lparr>sv_running := b\<rparr>) = pool.truncate s"
  "pool.truncate (s\<lparr>sv_listener := l\<rparr>) = pool.truncate s" "pool.truncate (s\<lparr>sv_ctx := n\<rparr>) = pool.truncate s"
  "pool.truncate (s\<lparr>sv_cancel := f\<rparr>) = pool.truncate s" "pool.truncate (s\<lparr>sv_cancelled := C\<rparr>) = pool.truncate s"
  "pool.truncate (s\<lparr>sv_count := k\<rparr>) = pool.truncate s" "pool.truncate (s\<lparr>sv_dispatched := d\<rparr>) = pool.truncate s"
  by (simp_all add: pool.defs)

lemma pool_idle [simp]: "p\<lparr>sv_wg := sv_wg p\<rparr> = (p :: pool)" "p\<lparr>sv_heap := sv_heap p\<rparr> = (p :: pool)"
  by (cases p; simp)+

datatype call =
  StartCall bool
| StopNow map_order
| SendNow sess_ref bytes
| CloseNow sess_ref
| CancelParent nat
| Request string

text \<open>Every call except \<^verbatim>\<open>Start\<close>.\<close>

definition no_start :: "call \<Rightarrow> bool" where
  "no_start c \<longleftrightarrow> (\<forall>b. c \<noteq> StartCall b)"

text \<open>
  Running an adapter by a script: which goroutine steps next, with which outcome of the network, and
  which calls come in.
\<close>

datatype action = Go nat io | Call call

fun run_script :: "(io \<Rightarrow> goroutine \<Rightarrow> 's \<Rightarrow> ('s \<times> goroutine list) option) \<Rightarrow> (call \<Rightarrow> 's \<Rightarrow> 's \<times> goroutine list)
    \<Rightarrow> action list \<Rightarrow> 's \<times> goroutine list \<Rightarrow> ('s \<times> goroutine list) option" where
  "run_script go call [] s = Some s"
| "run_script go call (Call c # as) (s, gs) = (case call c s of (s', new) \<Rightarrow> run_script go call as (s', gs @ new))"
| "run_script go call (Go n io # as) (s, gs) =
     (if n < length gs then
        (case go io (gs ! n) s of
           None \<Rightarrow> None
         | Some (s', new) \<Rightarrow> run_script go call as (s', take n gs @ new @ drop (Suc n) gs))
      else None)"

lemma run_script_append:
  "run_script go call (as @ bs) r = (case run_script go call as r of None \<Rightarrow> None | Some r' \<Rightarrow> run_script go call bs r')"
  by (induction go call as r rule: run_script.induct) (auto split: option.splits prod.splits)

lemma run_script_steps:
  assumes go: "\<And>io g s s' M G. go io g s = Some (s', M) \<Longrightarrow> step (s, add_mset g G) (s', mset M + G)"
    and call: "\<And>c s s' M G. Call c \<in> set as \<Longrightarrow> call c s = (s', M) \<Longrightarrow> step (s, G) (s', mset M + G)"
    and "run_script go call as (s, gs) = Some (t, hs)"
  shows "step\<^sup>*\<^sup>* (s, mset gs) (t, mset hs)"
  using call assms(3)
proof (induction as arbitrary: s gs)
  case (Cons act as)
  show ?case
  proof (cases act)
    case (Call c)
    obtain s' M where c: "call c s = (s', M)" by fastforce
    with Cons(3) Call have "step\<^sup>*\<^sup>* (s', mset (gs @ M)) (t, mset hs)" by (intro Cons(1)) (auto intro: Cons(2))
    moreover have "step (s, mset gs) (s', mset (gs @ M))" using Cons(2) [OF _ c, of "mset gs"] Call by (simp add: add.commute)
    ultimately show ?thesis by (meson converse_rtranclp_into_rtranclp)
  next
    case (Go n io)
    with Cons(3) obtain s' M where n: "n < length gs" and g: "go io (gs ! n) s = Some (s', M)"
      by (auto split: if_splits option.splits)
    with Cons(3) Go have "step\<^sup>*\<^sup>* (s', mset (take n gs @ M @ drop (Suc n) gs)) (t, mset hs)" by (intro Cons(1)) (auto intro: Cons(2))
    moreover have "mset gs = add_mset (gs ! n) (mset (take n gs @ drop (Suc n) gs))"
      using arg_cong [OF id_take_nth_drop [OF n], of mset] by simp
    then have "step (s, mset gs) (s', mset (take n gs @ M @ drop (Suc n) gs))"
      using go [OF g, of "mset (take n gs @ drop (Suc n) gs)"] by (simp add: ac_simps)
    ultimately show ?thesis by (meson converse_rtranclp_into_rtranclp)
  qed
qed simp

end
