(* ===== verification/KCP.thy ===== *)
theory KCP
  imports Transport
begin

text \<open>
  The KCP adapter (\<^verbatim>\<open>internal/transport/kcp\<close>): server, sessions and their goroutines. The connection and
  the listener belong to kcp-go; what they return is chosen by the \<open>io\<close> argument of each step. Creating
  a session touches nothing another goroutine can see, so it is one step with the critical
  section of the accept loop that follows it.
\<close>

section \<open>Configuration\<close>

record kcp_ServerConfig =
  kc_ListenAddr :: string
  kc_MaxPacketSize :: int
  kc_ReadTimeout :: duration
  kc_WriteTimeout :: duration
  kc_SendQueueSize :: int

type_synonym kcp_server = "kcp_ServerConfig server"
type_synonym kcp_state = "kcp_server \<times> goroutine multiset"

definition defaultReadDeadline :: duration where "defaultReadDeadline = 10 * 10 ^ 9"
definition defaultWriteDeadline :: duration where "defaultWriteDeadline = 5 * 10 ^ 9"
definition defaultSendQueueSize :: int where "defaultSendQueueSize = 256"

definition kcp_maxPacketSize :: "kcp_ServerConfig \<Rightarrow> int" where
  "kcp_maxPacketSize c = (if kc_MaxPacketSize c \<le> 0 then 64 * 1024 else kc_MaxPacketSize c)"

definition kcp_readTimeout :: "kcp_ServerConfig \<Rightarrow> duration" where
  "kcp_readTimeout c = (if kc_ReadTimeout c \<le> 0 then defaultReadDeadline else kc_ReadTimeout c)"

definition kcp_writeTimeout :: "kcp_ServerConfig \<Rightarrow> duration" where
  "kcp_writeTimeout c = (if kc_WriteTimeout c \<le> 0 then defaultWriteDeadline else kc_WriteTimeout c)"

definition kcp_sendQueueSize :: "kcp_ServerConfig \<Rightarrow> int" where
  "kcp_sendQueueSize c = (if kc_SendQueueSize c \<le> 0 then defaultSendQueueSize else kc_SendQueueSize c)"

text \<open>Whether the resolver of UDP addresses accepts an address is an argument.\<close>

definition kcp_Validate :: "(string \<Rightarrow> bool) \<Rightarrow> kcp_ServerConfig \<Rightarrow> net_err option" where
  "kcp_Validate resolves c =
     (if kc_ListenAddr c = [] then Some ListenAddrRequired
      else if \<not> resolves (kc_ListenAddr c) then Some (InvalidListenAddr (kc_ListenAddr c)) else None)"

definition kcp_new :: "u64 \<Rightarrow> kcp_ServerConfig \<Rightarrow> kcp_server" where
  "kcp_new n c = \<lparr>sv_heap = fmempty, sv_next = 0, sv_sessions = fmempty, sv_wg = 0, sv_cfg = c, sv_running = False,
     sv_listener = None, sv_ctx = 0, sv_cancel = None, sv_cancelled = {||}, sv_count = n, sv_dispatched = []\<rparr>"

definition kcp_NewServer :: "(string \<Rightarrow> bool) \<Rightarrow> u64 \<Rightarrow> kcp_ServerConfig \<Rightarrow> bool \<Rightarrow> net_err + kcp_server" where
  "kcp_NewServer resolves n c has_handler =
     (case kcp_Validate resolves c of
        Some e \<Rightarrow> Inl e
      | None \<Rightarrow> if \<not> has_handler then Inl HandlerRequired else Inr (kcp_new n c))"

section \<open>Sessions\<close>

definition kcp_nextSessionID :: "kcp_server \<Rightarrow> string \<times> kcp_server" where
  "kcp_nextSessionID s = (let n = sv_count s + 1 in (''sess-'' @ print_d (unat n), s\<lparr>sv_count := n\<rparr>))"

definition kcp_newSession :: "kcp_server \<Rightarrow> net_session \<times> kcp_server" where
  "kcp_newSession s =
     (case kcp_nextSessionID s of (i, s) \<Rightarrow> (fresh_session i (nat (kcp_sendQueueSize (sv_cfg s))), s))"

definition kcp_UserID :: "net_session \<Rightarrow> string" where "kcp_UserID x = []"
definition kcp_Transport :: "net_session \<Rightarrow> TransportType" where "kcp_Transport x = KCP"

definition kcp_IsClosed :: "net_session \<Rightarrow> bool" where
  "kcp_IsClosed x = ts_closed x"

text \<open>The \<^verbatim>\<open>select\<close> of \<^verbatim>\<open>Send\<close>, which runs after the test of \<^verbatim>\<open>IsClosed\<close> and not together with it.\<close>

definition kcp_Send_select :: "bytes \<Rightarrow> net_session \<Rightarrow> net_err option \<times> net_session" where
  "kcp_Send_select d x =
     (if length (ts_sendCh x) < ts_cap x
      then (None, x\<lparr>ts_sendCh := ts_sendCh x @ [d], ts_accepted := ts_accepted x @ [d]\<rparr>)
      else (Some ErrClosed, x))"

definition kcp_Send :: "bytes \<Rightarrow> net_session \<Rightarrow> net_err option \<times> net_session" where
  "kcp_Send d x = (if kcp_IsClosed x then (Some ErrClosed, x) else kcp_Send_select d x)"

definition kcp_removeSession :: "string \<Rightarrow> ('c, 'z) server_scheme \<Rightarrow> ('c, 'z) server_scheme" where
  "kcp_removeSession i s = s\<lparr>sv_sessions := fmdrop i (sv_sessions s)\<rparr>"

text \<open>
  \<^verbatim>\<open>closeOnce.Do\<close>: the first caller runs the body, later ones wait for it to end. The body closes the
  channel and the connection, then takes the server's mutex. A blocked step has no result.
\<close>

fun kcp_close :: "closing \<Rightarrow> sess_ref \<Rightarrow> after \<Rightarrow> ('c, 'z) server_scheme \<Rightarrow> (('c, 'z) server_scheme \<times> goroutine list) option" where
  "kcp_close CloseEnter a k s =
     (case fmlookup (sv_heap s) a of
        None \<Rightarrow> None
      | Some x \<Rightarrow>
          (case ts_once x of
             OnceNew \<Rightarrow> Some (s\<lparr>sv_heap := fmupd a (x\<lparr>ts_closed := True, ts_once := OnceRunning\<rparr>) (sv_heap s)\<rparr>,
                              [Closing CloseRemove a k])
           | OnceRunning \<Rightarrow> None
           | OnceDone \<Rightarrow> Some (s, [resume k])))"
| "kcp_close CloseRemove a k s =
     (case fmlookup (sv_heap s) a of
        None \<Rightarrow> None
      | Some x \<Rightarrow>
          (case ts_once x of
             OnceRunning \<Rightarrow> Some (kcp_removeSession (ts_id x) (s\<lparr>sv_heap := fmupd a (x\<lparr>ts_once := OnceDone\<rparr>) (sv_heap s)\<rparr>), [resume k])
           | _ \<Rightarrow> None))"

definition ctx_done :: "nat \<Rightarrow> ('c, 'z) server_scheme \<Rightarrow> bool" where
  "ctx_done c s \<longleftrightarrow> c |\<in>| sv_cancelled s"

definition isTimeoutOrClosed :: "io \<Rightarrow> bool" where
  "isTimeoutOrClosed e \<longleftrightarrow> e = Timeout"

text \<open>The read loop: before the first round, at its head, and when \<^verbatim>\<open>Read\<close> returns at most a buffer full.\<close>

definition kcp_readStart :: "nat \<Rightarrow> sess_ref \<Rightarrow> ('c, 'z) server_scheme \<Rightarrow> ('c, 'z) server_scheme \<times> goroutine list" where
  "kcp_readStart c a s = (s\<lparr>sv_wg := sv_wg s + 1\<rparr>, [ReadLoop c a, WriteLoop c a])"

definition kcp_readLoop :: "io \<Rightarrow> nat \<Rightarrow> sess_ref \<Rightarrow> ('c, 'z) server_scheme \<Rightarrow> (('c, 'z) server_scheme \<times> goroutine list) option" where
  "kcp_readLoop io c a s =
     (case fmlookup (sv_heap s) a of
        None \<Rightarrow> None
      | Some x \<Rightarrow>
          if ctx_done c s \<or> ts_closed x then Some (s, [Closing CloseEnter a AfterLoop])
          else if io = IOFail then Some (s, [Closing CloseEnter a AfterLoop])
          else Some (s, [ReadWait c a]))"

definition kcp_readWait :: "io \<Rightarrow> nat \<Rightarrow> sess_ref \<Rightarrow> kcp_server \<Rightarrow> (kcp_server \<times> goroutine list) option" where
  "kcp_readWait io c a s =
     (case fmlookup (sv_heap s) a of
        None \<Rightarrow> None
      | Some x \<Rightarrow>
          (case io of
             Arrive d \<Rightarrow>
               if int (length d) > kcp_maxPacketSize (sv_cfg s) then None
               else if d \<noteq> [] then Some (s\<lparr>sv_dispatched := sv_dispatched s @ [(ts_id x, d)]\<rparr>, [ReadLoop c a])
               else Some (s, [ReadLoop c a])
           | Timeout \<Rightarrow> if isTimeoutOrClosed io then Some (s, [ReadLoop c a]) else Some (s, [Closing CloseEnter a AfterLoop])
           | IOFail \<Rightarrow> if isTimeoutOrClosed io then Some (s, [ReadLoop c a]) else Some (s, [Closing CloseEnter a AfterLoop])
           | _ \<Rightarrow> None))"

fun drainSendCh :: "bytes list \<Rightarrow> bytes list" where
  "drainSendCh (d # ch) = drainSendCh ch"
| "drainSendCh [] = []"

text \<open>The \<^verbatim>\<open>select\<close> of the write loop picks any case that is ready.\<close>

definition kcp_writeLoop :: "io \<Rightarrow> nat \<Rightarrow> sess_ref \<Rightarrow> ('c, 'z) server_scheme \<Rightarrow> (('c, 'z) server_scheme \<times> goroutine list) option" where
  "kcp_writeLoop io c a s =
     (case fmlookup (sv_heap s) a of
        None \<Rightarrow> None
      | Some x \<Rightarrow>
          (case io of
             PickDone \<Rightarrow> if ctx_done c s then Some (s, [WgDone]) else None
           | PickClosed \<Rightarrow>
               if ts_closed x
               then Some (s\<lparr>sv_heap := fmupd a (x\<lparr>ts_sendCh := drainSendCh (ts_sendCh x)\<rparr>) (sv_heap s)\<rparr>, [WgDone])
               else None
           | PickData \<Rightarrow>
               (case ts_sendCh x of
                  [] \<Rightarrow> None
                | d # q \<Rightarrow> Some (s\<lparr>sv_heap := fmupd a (x\<lparr>ts_sendCh := q\<rparr>) (sv_heap s)\<rparr>, [WriteData c a d]))
           | _ \<Rightarrow> None))"

definition kcp_writeData :: "io \<Rightarrow> nat \<Rightarrow> sess_ref \<Rightarrow> bytes \<Rightarrow> ('c, 'z) server_scheme \<Rightarrow> (('c, 'z) server_scheme \<times> goroutine list) option" where
  "kcp_writeData io c a d s =
     (case fmlookup (sv_heap s) a of
        None \<Rightarrow> None
      | Some x \<Rightarrow>
          if io = IOFail then Some (s, [WgDone])
          else Some (s\<lparr>sv_heap := fmupd a (x\<lparr>ts_written := ts_written x @ [d]\<rparr>) (sv_heap s)\<rparr>, [WriteLoop c a]))"

section \<open>The server\<close>

definition kcp_Start :: "bool \<Rightarrow> kcp_server \<Rightarrow> net_err option \<times> kcp_server" where
  "kcp_Start listen_ok s =
     (if sv_running s then (Some AlreadyRunning, s)
      else if \<not> listen_ok then (Some (ListenFailed (kc_ListenAddr (sv_cfg s))), s)
      else (None, s\<lparr>sv_listener := Some True, sv_running := True, sv_cancel := Some (sv_ctx s), sv_ctx := sv_ctx s + 1\<rparr>))"

definition cancel_ctx :: "('c, 'z) server_scheme \<Rightarrow> ('c, 'z) server_scheme" where
  "cancel_ctx s = (case sv_cancel s of None \<Rightarrow> s | Some c \<Rightarrow> s\<lparr>sv_cancelled := finsert c (sv_cancelled s)\<rparr>)"

text \<open>The critical section of \<^verbatim>\<open>Stop\<close>; the result is the sessions it goes on to close, if any work is left.\<close>

definition kcp_Stop :: "map_order \<Rightarrow> kcp_server \<Rightarrow> sess_ref list option \<times> kcp_server" where
  "kcp_Stop ord s =
     (if \<not> sv_running s then (None, s)
      else let s = cancel_ctx (s\<lparr>sv_running := False\<rparr>);
               s = s\<lparr>sv_listener := map_option (\<lambda>_. False) (sv_listener s)\<rparr>
           in (Some (map (map_get 0 (sv_sessions s)) (ord (fmdom (sv_sessions s)))), s))"

definition kcp_SessionCount :: "kcp_server \<Rightarrow> nat" where
  "kcp_SessionCount s = map_len (sv_sessions s)"

definition kcp_acceptLoop :: "io \<Rightarrow> nat \<Rightarrow> kcp_server \<Rightarrow> (kcp_server \<times> goroutine list) option" where
  "kcp_acceptLoop io c s =
     (case io of
        IOFail \<Rightarrow> Some (s, [WgDone])
      | Ok \<Rightarrow>
          (case kcp_newSession s of (sess, s) \<Rightarrow>
             let a = sv_next s;
                 s = s\<lparr>sv_heap := fmupd a sess (sv_heap s), sv_next := a + 1\<rparr>
             in if \<not> sv_running s then Some (s, [Closing CloseEnter a AfterLoop])
                else Some (s\<lparr>sv_sessions := fmupd (ts_id sess) a (sv_sessions s)\<rparr>, [AcceptSpawn c a]))
      | _ \<Rightarrow> None)"

section \<open>Interleaving\<close>

definition kcp_go :: "io \<Rightarrow> goroutine \<Rightarrow> kcp_server \<Rightarrow> (kcp_server \<times> goroutine list) option" where
  "kcp_go io g s =
     (case g of
        StartSpawn c \<Rightarrow> Some (s\<lparr>sv_wg := sv_wg s + 1\<rparr>, [AcceptLoop c])
      | AcceptLoop c \<Rightarrow> kcp_acceptLoop io c s
      | AcceptSpawn c a \<Rightarrow> Some (s\<lparr>sv_wg := sv_wg s + 1\<rparr>, [AcceptLoop c, ReadStart c a])
      | ReadStart c a \<Rightarrow> Some (kcp_readStart c a s)
      | ReadLoop c a \<Rightarrow> kcp_readLoop io c a s
      | ReadWait c a \<Rightarrow> kcp_readWait io c a s
      | WriteLoop c a \<Rightarrow> kcp_writeLoop io c a s
      | WriteData c a d \<Rightarrow> kcp_writeData io c a d s
      | Closing pc a k \<Rightarrow> kcp_close pc a k s
      | WgDone \<Rightarrow> Some (s\<lparr>sv_wg := sv_wg s - 1\<rparr>, [])
      | SendCall a d \<Rightarrow>
          (case fmlookup (sv_heap s) a of
             None \<Rightarrow> None
           | Some x \<Rightarrow> Some (s\<lparr>sv_heap := fmupd a (snd (kcp_Send_select d x)) (sv_heap s)\<rparr>, []))
      | CallReturn \<Rightarrow> Some (s, [])
      | StopCall [] \<Rightarrow> Some (s, [StopWait])
      | StopCall (a # as) \<Rightarrow> Some (s, [Closing CloseEnter a (AfterStop as)])
      | StopWait \<Rightarrow> if sv_wg s = 0 then Some (s, []) else None
      | _ \<Rightarrow> None)"

definition kcp_call :: "call \<Rightarrow> kcp_server \<Rightarrow> kcp_server \<times> goroutine list" where
  "kcp_call c s =
     (case c of
        StartCall ok \<Rightarrow> (case kcp_Start ok s of (Some e, s') \<Rightarrow> (s', []) | (None, s') \<Rightarrow> (s', [StartSpawn (sv_ctx s)]))
      | StopNow ord \<Rightarrow> (case kcp_Stop ord s of (None, s') \<Rightarrow> (s', []) | (Some as, s') \<Rightarrow> (s', [StopCall as]))
      | SendNow a d \<Rightarrow>
          (case fmlookup (sv_heap s) a of
             None \<Rightarrow> (s, [])
           | Some x \<Rightarrow> if kcp_IsClosed x then (s, []) else (s, [SendCall a d]))
      | CloseNow a \<Rightarrow> (case fmlookup (sv_heap s) a of None \<Rightarrow> (s, []) | Some x \<Rightarrow> (s, [Closing CloseEnter a AfterCall]))
      | CancelParent n \<Rightarrow> (s\<lparr>sv_cancelled := finsert n (sv_cancelled s)\<rparr>, [])
      | Request origin \<Rightarrow> (s, []))"

inductive kcp_step :: "(call \<Rightarrow> bool) \<Rightarrow> kcp_state \<Rightarrow> kcp_state \<Rightarrow> bool" for allowed where
  goes: "kcp_go io g s = Some (s', M) \<Longrightarrow> kcp_step allowed (s, add_mset g G) (s', mset M + G)"
| called: "allowed c \<Longrightarrow> kcp_call c s = (s', M) \<Longrightarrow> kcp_step allowed (s, G) (s', mset M + G)"

section \<open>The adapter keeps the contract\<close>

definition kcp_view :: "kcp_state \<Rightarrow> pool \<times> goroutine multiset" where
  "kcp_view s = (pool.truncate (fst s), snd s)"

lemmas kcp_goroutines = kcp_go_def kcp_acceptLoop_def kcp_newSession_def kcp_nextSessionID_def kcp_readStart_def
  kcp_readLoop_def kcp_readWait_def kcp_writeLoop_def kcp_writeData_def kcp_removeSession_def kcp_Send_select_def Let_def

lemma drainSendCh_empty [simp]: "drainSendCh ch = []"
  by (induction ch) simp_all

lemma close_effect:
  assumes "kcp_close pc a k s = Some (s', M)"
  shows "effect (pool.truncate s) (Closing pc a k) (pool.truncate s') (mset M)"
proof (cases pc)
  case CloseEnter
  then obtain x where x: "fmlookup (sv_heap s) a = Some x" using assms by (auto split: option.splits)
  show ?thesis
  proof (cases "ts_once x")
    case OnceNew
    with assms x CloseEnter show ?thesis
      by (intro closes [of _ a x]) (auto simp: put_def)
  qed (use assms x CloseEnter in \<open>auto intro!: skips [of _ a x] \<close>)
next
  case CloseRemove
  with assms obtain x where "fmlookup (sv_heap s) a = Some x" "ts_once x = OnceRunning"
    by (auto split: option.splits once.splits)
  with assms CloseRemove show ?thesis
    by (intro removes [of _ a x]) (auto simp: put_def kcp_removeSession_def)
qed

lemma acceptLoop_effect:
  assumes "kcp_acceptLoop io c s = Some (s', M)"
  shows "effect (pool.truncate s) (AcceptLoop c) (pool.truncate s') (mset M)"
proof (cases io)
  case Ok
  show ?thesis
  proof (cases "sv_running s")
    case True
    with assms Ok show ?thesis
      by (intro opens [where i = "fst (kcp_nextSessionID s)" and cap = "nat (kcp_sendQueueSize (sv_cfg s))"])
        (auto simp: kcp_goroutines put_def fresh_session_def)
  next
    case False
    with assms Ok show ?thesis
      by (intro refuses [where i = "fst (kcp_nextSessionID s)" and cap = "nat (kcp_sendQueueSize (sv_cfg s))"])
        (auto simp: kcp_goroutines put_def fresh_session_def)
  qed
qed (use assms in \<open>auto intro!: move simp: kcp_acceptLoop_def\<close>)

lemma readLoop_effect:
  "kcp_readLoop io c a s = Some (s', M) \<Longrightarrow> effect (pool.truncate s) (ReadLoop c a) (pool.truncate s') (mset M)"
  by (rule move; auto simp: kcp_readLoop_def split: option.splits if_splits)

lemma readWait_effect:
  "kcp_readWait io c a s = Some (s', M) \<Longrightarrow> effect (pool.truncate s) (ReadWait c a) (pool.truncate s') (mset M)"
  by (rule move; auto simp: kcp_readWait_def split: option.splits if_splits io.splits)

lemma writeLoop_effect:
  assumes "kcp_writeLoop io c a s = Some (s', M)"
  shows "effect (pool.truncate s) (WriteLoop c a) (pool.truncate s') (mset M)"
proof -
  obtain x where x: "fmlookup (sv_heap s) a = Some x" using assms by (auto simp: kcp_writeLoop_def split: option.splits)
  then have px: "fmlookup (sv_heap (pool.truncate s)) a = Some x" by simp
  show ?thesis
  proof (cases io)
    case PickDone
    with assms x show ?thesis by (auto intro!: gives_up simp: kcp_writeLoop_def split: if_splits)
  next
    case PickClosed
    with assms x show ?thesis by (auto intro!: drains [OF px] simp: kcp_writeLoop_def put_def split: if_splits)
  next
    case PickData
    with assms x show ?thesis by (auto intro!: takes [OF px] simp: kcp_writeLoop_def put_def split: list.splits)
  qed (use assms x in \<open>auto simp: kcp_writeLoop_def\<close>)
qed

lemma writeData_effect:
  assumes "kcp_writeData io c a d s = Some (s', M)"
  shows "effect (pool.truncate s) (WriteData c a d) (pool.truncate s') (mset M)"
proof -
  obtain x where x: "fmlookup (sv_heap s) a = Some x" using assms by (auto simp: kcp_writeData_def split: option.splits)
  then have px: "fmlookup (sv_heap (pool.truncate s)) a = Some x" by simp
  show ?thesis
  proof (cases "io = IOFail")
    case True
    with assms x show ?thesis by (auto intro!: gives_up simp: kcp_writeData_def)
  next
    case False
    with assms x show ?thesis by (auto intro!: writes [OF px] simp: kcp_writeData_def put_def)
  qed
qed

lemma send_effect:
  assumes "fmlookup (sv_heap s) a = Some x"
  shows "effect (pool.truncate s) (SendCall a d)
    ((pool.truncate s)\<lparr>sv_heap := fmupd a (snd (kcp_Send_select d x)) (sv_heap s)\<rparr>) {#}"
proof (cases "length (ts_sendCh x) < ts_cap x")
  case True
  with assms show ?thesis by (auto intro!: sends [of _ a x] simp: kcp_Send_select_def put_def)
next
  case False
  then have "fmupd a (snd (kcp_Send_select d x)) (sv_heap s) = sv_heap s"
    using assms by (auto simp: kcp_Send_select_def intro!: fmap_ext)
  then show ?thesis using pool_idle(2) [of "pool.truncate s"] by (auto intro!: move)
qed

lemmas kcp_effects = close_effect acceptLoop_effect readLoop_effect readWait_effect writeLoop_effect writeData_effect

lemma kcp_go_effect:
  assumes "kcp_go io g s = Some (s', M)"
  shows "effect (pool.truncate s) g (pool.truncate s') (mset M)"
proof (cases g)
  case (SendCall a d)
  with assms show ?thesis by (auto simp: kcp_go_def send_effect split: option.splits)
next
  case (StopCall as)
  with assms show ?thesis by (cases as) (auto intro!: move simp: kcp_go_def)
qed (use assms in \<open>auto simp: kcp_go_def kcp_readStart_def intro: kcp_effects move split: if_splits\<close>)

lemma kcp_call_pool:
  assumes "kcp_call c s = (s', M)"
  shows "pool.truncate s' = pool.truncate s" and "M = [] \<or> (\<exists>g. M = [g] \<and> owner g = {#} \<and> writer g = {#} \<and> counted g = 0)"
  using assms
  by (auto simp: kcp_call_def kcp_Start_def kcp_Stop_def cancel_ctx_def Let_def split: call.splits if_splits option.splits)

interpretation kcp: transport_adapter "kcp_step allowed" kcp_view "\<lambda>s. \<exists>n cfg. s = (kcp_new n cfg, {#})" for allowed
proof
  show "kcp_view s = (empty_pool, {#})" if "\<exists>n cfg. s = (kcp_new n cfg, {#})" for s
    using that by (auto simp: kcp_view_def kcp_new_def empty_pool_def pool.defs)
next
  fix s t :: kcp_state
  assume "kcp_step allowed s t"
  then show "pool_step (kcp_view s) (kcp_view t)"
  proof cases
    case (goes io g s s' M G)
    then show ?thesis by (auto simp: kcp_view_def intro: pool_step.runs kcp_go_effect)
  next
    case (called c s s' M G)
    with kcp_call_pool [OF called(4)] show ?thesis by (auto simp: kcp_view_def intro: pool_step.intros)
  qed
qed

section \<open>Properties\<close>

text \<open>No goroutine of this adapter belongs to an upgrade.\<close>

fun upgrade_part :: "goroutine \<Rightarrow> bool" where
  "upgrade_part (UpgradeSpawn a) \<longleftrightarrow> True"
| "upgrade_part (Closing pc a AfterHandler) \<longleftrightarrow> True"
| "upgrade_part HandlerReturn \<longleftrightarrow> True"
| "upgrade_part (Serve c) \<longleftrightarrow> True"
| "upgrade_part (ServeSpawn c) \<longleftrightarrow> True"
| "upgrade_part (Upgrade origin) \<longleftrightarrow> True"
| "upgrade_part _ \<longleftrightarrow> False"

lemma upgrade_resume [simp]: "upgrade_part (resume k) = upgrade_part (Closing pc a k)"
  by (cases k) simp_all

lemma kcp_close_cases:
  "kcp_close pc a k s = Some (s', M) \<Longrightarrow> M = [Closing CloseRemove a k] \<or> M = [resume k]"
  "kcp_close pc a k s = Some (s', M) \<Longrightarrow> sv_running s' = sv_running s \<and> sv_dispatched s' = sv_dispatched s"
  by (cases pc; auto simp: kcp_removeSession_def split: option.splits once.splits)+

lemma kcp_go_upgrade:
  assumes "kcp_go io g s = Some (s', M)" "\<not> upgrade_part g" "h \<in> set M"
  shows "\<not> upgrade_part h"
proof (cases g)
  case (Closing pc a k)
  with assms kcp_close_cases(1) [of pc a k s s' M] show ?thesis by (cases k) (auto simp: kcp_go_def)
next
  case (StopCall as)
  with assms show ?thesis by (cases as) (auto simp: kcp_go_def)
qed (use assms in \<open>auto simp: kcp_goroutines split: option.splits if_splits io.splits list.splits\<close>)

definition kcp_plain :: "kcp_state \<Rightarrow> bool" where
  "kcp_plain s \<longleftrightarrow> (\<forall>g\<in>#snd s. \<not> upgrade_part g)"

lemma kcp_plain_step: "kcp_step allowed s t \<Longrightarrow> kcp_plain s \<Longrightarrow> kcp_plain t"
  by (induction rule: kcp_step.induct)
    (auto simp: kcp_plain_def kcp_call_def split: call.splits option.splits if_splits prod.splits dest: kcp_go_upgrade)

interpretation kcp_up: step_invariant "kcp_step allowed" kcp_plain for allowed
  by unfold_locales (rule kcp_plain_step)

text \<open>Once no goroutine is left and none will be started, only calls from outside move.\<close>

fun caller :: "goroutine \<Rightarrow> bool" where
  "caller (Closing pc a AfterCall) \<longleftrightarrow> True"
| "caller (Closing pc a (AfterStop as)) \<longleftrightarrow> True"
| "caller (SendCall a d) \<longleftrightarrow> True"
| "caller CallReturn \<longleftrightarrow> True"
| "caller (StopCall as) \<longleftrightarrow> True"
| "caller StopWait \<longleftrightarrow> True"
| "caller _ \<longleftrightarrow> False"

lemma caller_uncounted: "caller g \<Longrightarrow> counted g = 0"
  by (cases g rule: caller.cases) simp_all

lemma uncounted_caller: "counted g = 0 \<Longrightarrow> \<not> upgrade_part g \<Longrightarrow> (\<And>c. g \<noteq> StartSpawn c) \<Longrightarrow> caller g"
  by (cases g rule: caller.cases) auto

definition kcp_quiet :: "(string \<times> bytes) list \<Rightarrow> kcp_state \<Rightarrow> bool" where
  "kcp_quiet d s \<longleftrightarrow> \<not> sv_running (fst s) \<and> sv_dispatched (fst s) = d \<and> (\<forall>g\<in>#snd s. caller g)"

lemma kcp_go_quiet:
  assumes "kcp_go io g s = Some (s', M)" "caller g"
  shows "sv_running s' = sv_running s \<and> sv_dispatched s' = sv_dispatched s \<and> (\<forall>h\<in>set M. caller h)"
proof (cases g)
  case (Closing pc a k)
  with assms kcp_close_cases [of pc a k s s' M] show ?thesis by (cases k) (auto simp: kcp_go_def)
next
  case (StopCall as)
  with assms show ?thesis by (cases as) (auto simp: kcp_go_def)
qed (use assms in \<open>auto simp: kcp_go_def split: option.splits if_splits\<close>)

lemma kcp_quiet_step: "kcp_step no_start s t \<Longrightarrow> kcp_quiet d s \<Longrightarrow> kcp_quiet d t"
proof (induction rule: kcp_step.induct)
  case (goes io g s s' M G)
  then show ?case using kcp_go_quiet [OF goes(1)] by (auto simp: kcp_quiet_def)
next
  case (called c s s' M G)
  then show ?case
    by (auto simp: kcp_quiet_def kcp_call_def kcp_Stop_def no_start_def split: call.splits option.splits if_splits)
qed

interpretation kcp_idle: step_invariant "kcp_step no_start" "kcp_quiet d" for d
  by unfold_locales (rule kcp_quiet_step)

lemma kcp_step_mono: "kcp_step allowed s t \<Longrightarrow> kcp_step (\<lambda>_. True) s t"
  by (induction rule: kcp_step.induct) (auto intro: kcp_step.intros)

lemma kcp_steps_mono: "(kcp_step allowed)\<^sup>*\<^sup>* s t \<Longrightarrow> (kcp_step (\<lambda>_. True))\<^sup>*\<^sup>* s t"
  by (induction rule: rtranclp_induct) (auto dest: kcp_step_mono)

lemma kcp_reachable_plain: "(kcp_step allowed)\<^sup>*\<^sup>* (kcp_new n cfg, {#}) (s, G) \<Longrightarrow> g \<in># G \<Longrightarrow> \<not> upgrade_part g"
  using kcp_up.along [of allowed "(kcp_new n cfg, {#})" "(s, G)"] by (simp add: kcp_plain_def)

lemma kcp_drained:
  assumes "(kcp_step allowed)\<^sup>*\<^sup>* (kcp_new n cfg, {#}) (s, G)" "sv_wg s = 0"
  shows "sv_sessions s = fmempty" and "fmlookup (sv_heap s) a = Some x \<Longrightarrow> ts_closed x" and "g \<in># G \<Longrightarrow> counted g = 0"
proof -
  have no: "UpgradeSpawn a \<notin># G" "Closing pc a AfterHandler \<notin># G" for pc a
    using kcp_reachable_plain [OF assms(1)] by fastforce+
  have v: "kcp_view (s, G) = (pool.truncate s, G)" by (simp add: kcp_view_def)
  show "sv_sessions s = fmempty" using kcp.idle_sessions(1) [OF assms(1) _ v] assms(2) no by auto
  show "ts_closed x" if "fmlookup (sv_heap s) a = Some x" using kcp.idle_sessions(2) [OF assms(1) _ v] assms(2) no that by auto
  show "counted g = 0" if "g \<in># G" using kcp.wait_group(2) [OF assms(1) _ v] assms(2) that by auto
qed

lemma kcp_script_steps:
  "run_script kcp_go kcp_call as (s, gs) = Some (t, hs) \<Longrightarrow> (kcp_step (\<lambda>_. True))\<^sup>*\<^sup>* (s, mset gs) (t, mset hs)"
  by (rule run_script_steps [where go = kcp_go and call = kcp_call]) (auto intro: kcp_step.intros)

lemma kcp_script_reachable:
  "run_script kcp_go kcp_call as (kcp_new n cfg, []) = Some (s, gs) \<Longrightarrow> (kcp_step (\<lambda>_. True))\<^sup>*\<^sup>* (kcp_new n cfg, {#}) (s, mset gs)"
  using kcp_script_steps [of as "kcp_new n cfg" "[]"] by simp

text \<open>One client connects and is sent two packets, one of which is written; then it says something and the server stops.\<close>

definition kcp_demo_cfg :: kcp_ServerConfig where
  "kcp_demo_cfg = \<lparr>kc_ListenAddr = '':9000'', kc_MaxPacketSize = 0, kc_ReadTimeout = 0, kc_WriteTimeout = 0, kc_SendQueueSize = 0\<rparr>"

definition kcp_talk :: "action list" where
  "kcp_talk = [Call (StartCall True), Go 0 Ok, Go 0 Ok, Go 0 Ok, Go 1 Ok, Call (SendNow 0 [1]), Go 3 Ok,
     Call (SendNow 0 [2]), Go 3 Ok, Go 2 PickData, Go 2 Ok]"

definition kcp_stop_run :: "action list" where
  "kcp_stop_run = kcp_talk @ [Go 1 Ok, Go 1 (Arrive [7]), Call (StopNow sorted_order), Go 3 Ok, Go 3 Ok, Go 3 Ok, Go 3 Ok,
     Go 0 IOFail, Go 0 Ok, Go 0 Ok, Go 0 Ok, Go 0 Ok, Go 0 PickClosed, Go 0 Ok]"



text \<open>
  C22: Ordered delivery. What was written to the connection of a session is always a prefix of what \<^verbatim>\<open>Send\<close>
  has accepted for it, the queue stays within its capacity, and as long as the write loop is
  waiting for data, the accepted packets are exactly those written and those in the queue.
\<close>

theorem kcp_delivery:
  assumes "(kcp_step (\<lambda>_. True))\<^sup>*\<^sup>* (kcp_new n cfg, {#}) (s, G)" and "fmlookup (sv_heap s) a = Some x"
  shows "prefix (ts_written x) (ts_accepted x) \<and> length (ts_sendCh x) \<le> ts_cap x
    \<and> (WriteLoop c a \<in># G \<longrightarrow> ts_accepted x = ts_written x @ ts_sendCh x)"
proof -
  have "WriteLoop c a \<in># G \<Longrightarrow> (a, []) \<in># writers G" by (auto dest: multi_member_split)
  moreover have "kcp_view (s, G) = (pool.truncate s, G)" by (simp add: kcp_view_def)
  then have "prefix (ts_written x) (ts_accepted x) \<and> length (ts_sendCh x) \<le> ts_cap x
      \<and> (\<forall>w. (a, w) \<in># writers G \<longrightarrow> ts_accepted x = ts_written x @ w @ ts_sendCh x)"
    using assms(2) by (intro kcp.in_order [OF assms(1)]) auto
  ultimately show ?thesis by auto
qed

theorem kcp_delivery_witness:
  "prefix [[1 :: 8 word]] [[1], [2]] \<and>
   (case run_script kcp_go kcp_call kcp_talk (kcp_new 0 kcp_demo_cfg, []) of
      Some (s, gs) \<Rightarrow> WriteLoop 0 0 \<in> set gs \<and> map_option ts_accepted (fmlookup (sv_heap s) 0) = Some [[1], [2]]
    | None \<Rightarrow> False)"
proof -
  have "map_option snd (run_script kcp_go kcp_call kcp_talk (kcp_new 0 kcp_demo_cfg, [])) = Some [AcceptLoop 0, ReadLoop 0 0, WriteLoop 0 0]"
    by code_simp
  then obtain s where s: "run_script kcp_go kcp_call kcp_talk (kcp_new 0 kcp_demo_cfg, []) = Some (s, [AcceptLoop 0, ReadLoop 0 0, WriteLoop 0 0])"
    by auto
  have "map_option (\<lambda>r. map_option (\<lambda>x. (ts_accepted x, ts_written x)) (fmlookup (sv_heap (fst r)) 0))
      (run_script kcp_go kcp_call kcp_talk (kcp_new 0 kcp_demo_cfg, [])) = Some (Some ([[1], [2]], [[1]]))"
    by code_simp
  with s obtain x where x: "fmlookup (sv_heap s) 0 = Some x" "ts_accepted x = [[1], [2]]" "ts_written x = [[1]]" by auto
  from kcp_delivery [OF kcp_script_reachable [OF s] x(1), of 0] x s show ?thesis by simp
qed

end
