(* ===== verification/KCPShutdown.thy ===== *)
theory KCPShutdown
  imports KCP
begin

text \<open>
  The shutdown of the KCP server ends. Once \<^verbatim>\<open>Stop\<close> has cancelled the context and closed the listener, the
  goroutines need nothing from the clients any more: on a network that has fallen silent, where a
  pending \<^verbatim>\<open>Read\<close> only times out and \<^verbatim>\<open>AcceptKCP\<close> reports the closed listener, every run is finite
  and ends with no goroutine left, \<^verbatim>\<open>Stop\<close> included.
\<close>

section \<open>Silent steps\<close>

text \<open>What the network and the scheduler choose for each goroutine after a stop.\<close>

fun silence :: "goroutine \<Rightarrow> io" where
  "silence (AcceptLoop c) = IOFail"
| "silence (ReadWait c a) = Timeout"
| "silence (WriteLoop c a) = PickDone"
| "silence _ = Ok"

inductive silent_step :: "kcp_state \<Rightarrow> kcp_state \<Rightarrow> bool" where
  silent: "kcp_go (silence g) g s = Some (s', M) \<Longrightarrow> silent_step (s, add_mset g G) (s', mset M + G)"

inductive_cases silent_stepE: "silent_step s t"

text \<open>Map orders are legal.\<close>

definition legal :: "call \<Rightarrow> bool" where
  "legal c \<longleftrightarrow> (\<forall>ord. c = StopNow ord \<longrightarrow> range_order ord)"

section \<open>What a goroutine depends on\<close>

fun context_of :: "goroutine \<Rightarrow> nat option" where
  "context_of (StartSpawn c) = Some c" | "context_of (AcceptLoop c) = Some c" | "context_of (AcceptSpawn c a) = Some c"
| "context_of (ReadStart c a) = Some c" | "context_of (ReadLoop c a) = Some c" | "context_of (ReadWait c a) = Some c"
| "context_of (WriteLoop c a) = Some c" | "context_of (WriteData c a d) = Some c" | "context_of _ = None"

fun refs :: "goroutine \<Rightarrow> sess_ref set" where
  "refs (AcceptSpawn c a) = {a}" | "refs (ReadStart c a) = {a}" | "refs (ReadLoop c a) = {a}" | "refs (ReadWait c a) = {a}"
| "refs (WriteLoop c a) = {a}" | "refs (WriteData c a d) = {a}" | "refs (SendCall a d) = {a}" | "refs (StopCall as) = set as"
| "refs (Closing pc a (AfterStop as)) = insert a (set as)" | "refs (Closing pc a k) = {a}" | "refs _ = {}"

text \<open>Whoever runs the body of the \<^verbatim>\<open>sync.Once\<close> of a session.\<close>

fun holder :: "goroutine \<Rightarrow> sess_ref multiset" where
  "holder (Closing CloseRemove a k) = {#a#}" | "holder _ = {#}"

definition holders :: "goroutine multiset \<Rightarrow> sess_ref multiset" where "holders G = (\<Sum>g\<in>#G. holder g)"

lemma holders_simps [simp]:
  "holders {#} = {#}" "holders (add_mset g G) = holder g + holders G" "holders (G + H) = holders G + holders H"
  by (simp_all add: holders_def)

definition once_running :: "kcp_server \<Rightarrow> sess_ref \<Rightarrow> nat" where
  "once_running s a = (case fmlookup (sv_heap s) a of Some x \<Rightarrow> if ts_once x = OnceRunning then 1 else 0 | None \<Rightarrow> 0)"

definition context_inv :: "kcp_state \<Rightarrow> bool" where
  "context_inv s \<longleftrightarrow> (\<forall>g\<in>#snd s. \<forall>c. context_of g = Some c \<longrightarrow>
     c < sv_ctx (fst s) \<and> (ctx_done c (fst s) \<or> sv_running (fst s) \<and> sv_cancel (fst s) = Some c))"

definition shutdown_inv :: "kcp_state \<Rightarrow> bool" where
  "shutdown_inv s \<longleftrightarrow> lifecycle_inv (kcp_view s) \<and> kcp_plain s
     \<and> (\<forall>g\<in>#snd s. refs g \<subseteq> fset (fmdom (sv_heap (fst s))))
     \<and> (\<forall>a. count (holders (snd s)) a = once_running (fst s) a)"

section \<open>Weights\<close>

fun weight :: "goroutine \<Rightarrow> nat" where
  "weight (StartSpawn c) = 3" | "weight (AcceptLoop c) = 2" | "weight (AcceptSpawn c a) = 10" | "weight (ReadStart c a) = 7"
| "weight (ReadLoop c a) = 4" | "weight (ReadWait c a) = 5" | "weight (WriteLoop c a) = 2" | "weight (WriteData c a d) = 3"
| "weight WgDone = 1" | "weight (SendCall a d) = 1" | "weight CallReturn = 1" | "weight StopWait = 1"
| "weight (StopCall as) = 2 + 3 * length as"
| "weight (Closing CloseRemove a k) = 1 + (case k of AfterStop as \<Rightarrow> 2 + 3 * length as | _ \<Rightarrow> 1)"
| "weight (Closing CloseEnter a k) = 2 + (case k of AfterStop as \<Rightarrow> 2 + 3 * length as | _ \<Rightarrow> 1)"
| "weight _ = 0"

definition weights :: "goroutine multiset \<Rightarrow> nat" where "weights G = (\<Sum>g\<in>#G. weight g)"

lemma weights_simps [simp]:
  "weights {#} = 0" "weights (add_mset g G) = weight g + weights G" "weights (G + H) = weights G + weights H"
  by (simp_all add: weights_def)

lemma weight_resume: "weight (resume k) < weight (Closing pc a k)"
  by (cases k; cases pc) simp_all

text \<open>With its context cancelled, a silent step of any goroutine makes the total smaller.\<close>

lemma silent_lighter:
  assumes "kcp_go (silence g) g s = Some (s', M)" and "\<And>c. context_of g = Some c \<Longrightarrow> ctx_done c s"
  shows "weights (mset M) < weight g"
proof (cases g)
  case (Closing pc a k)
  with assms(1) weight_resume [of k pc a] show ?thesis
    by (cases pc) (auto simp: kcp_go_def split: option.splits once.splits)
next
  case (StopCall as)
  with assms(1) show ?thesis by (cases as) (auto simp: kcp_go_def)
qed (use assms in \<open>auto simp: kcp_goroutines isTimeoutOrClosed_def split: option.splits if_splits io.splits list.splits\<close>)

section \<open>Invariants\<close>

lemma kcp_go_context:
  assumes "kcp_go io g s = Some (s', M)" "h \<in> set M" "context_of h = Some c"
  shows "context_of g = Some c"
proof (cases g)
  case (Closing pc a k)
  with assms kcp_close_cases(1) [of pc a k s s' M] show ?thesis by (cases k) (auto simp: kcp_go_def)
next
  case (StopCall as)
  with assms show ?thesis by (cases as) (auto simp: kcp_go_def)
qed (use assms in \<open>auto simp: kcp_goroutines split: option.splits if_splits io.splits list.splits\<close>)

lemma kcp_go_server:
  assumes "kcp_go io g s = Some (s', M)"
  shows "sv_ctx s' = sv_ctx s \<and> sv_running s' = sv_running s \<and> sv_cancel s' = sv_cancel s \<and> sv_cancelled s' = sv_cancelled s"
proof (cases g)
  case (Closing pc a k)
  with assms show ?thesis by (cases pc) (auto simp: kcp_go_def kcp_removeSession_def split: option.splits once.splits)
next
  case (StopCall as)
  with assms show ?thesis by (cases as) (auto simp: kcp_go_def)
qed (use assms in \<open>auto simp: kcp_goroutines split: option.splits if_splits io.splits list.splits\<close>)

lemma context_go: "kcp_go io g s = Some (s', M) \<Longrightarrow> context_inv (s, add_mset g G) \<Longrightarrow> context_inv (s', mset M + G)"
  using kcp_go_server [of io g s s' M] kcp_go_context [of io g s s' M] by (fastforce simp: context_inv_def ctx_done_def)

lemma context_call:
  assumes "kcp_call c s = (s', M)" "context_inv (s, G)"
  shows "context_inv (s', mset M + G)"
  using assms
  by (cases c) (fastforce simp: context_inv_def kcp_call_def kcp_Start_def kcp_Stop_def cancel_ctx_def ctx_done_def Let_def
      split: option.splits if_splits prod.splits)+

text \<open>Sessions stay in the heap, and a goroutine only knows sessions that are there.\<close>

lemma kcp_go_refs:
  assumes "kcp_go io g s = Some (s', M)" "refs g \<subseteq> fset (fmdom (sv_heap s))"
  shows "fset (fmdom (sv_heap s)) \<subseteq> fset (fmdom (sv_heap s'))" and "h \<in> set M \<Longrightarrow> refs h \<subseteq> fset (fmdom (sv_heap s'))"
proof -
  have "fset (fmdom (sv_heap s)) \<subseteq> fset (fmdom (sv_heap s')) \<and> (\<forall>h\<in>set M. refs h \<subseteq> fset (fmdom (sv_heap s')))"
  proof (cases g)
    case (Closing pc a k)
    with assms show ?thesis
      by (cases pc; cases k) (auto simp: kcp_go_def kcp_removeSession_def split: option.splits once.splits)
  next
    case (StopCall as)
    with assms show ?thesis by (cases as) (auto simp: kcp_go_def)
  qed (use assms in \<open>auto simp: kcp_goroutines split: option.splits if_splits io.splits list.splits\<close>)
  then show "fset (fmdom (sv_heap s)) \<subseteq> fset (fmdom (sv_heap s'))" "h \<in> set M \<Longrightarrow> refs h \<subseteq> fset (fmdom (sv_heap s'))" by auto
qed

text \<open>The body of a \<^verbatim>\<open>sync.Once\<close> is running exactly while one goroutine is inside it.\<close>

lemma kcp_go_holders:
  assumes "kcp_go io g s = Some (s', M)" "fmlookup (sv_heap s) (sv_next s) = None"
  shows "count (holders (mset M)) b + once_running s b = count (holder g) b + once_running s' b"
proof (cases g)
  case (Closing pc a k)
  have k: "holder (resume k) = {#}" by (cases k) simp_all
  from Closing assms k show ?thesis
    by (cases pc) (auto simp: kcp_go_def kcp_removeSession_def once_running_def split: option.splits once.splits if_splits)
next
  case (StopCall as)
  with assms show ?thesis by (cases as) (auto simp: kcp_go_def)
qed (use assms in \<open>auto simp: kcp_goroutines once_running_def fresh_session_def split: option.splits if_splits io.splits list.splits\<close>)

lemma shutdown_go:
  assumes "kcp_go io g s = Some (s', M)" "shutdown_inv (s, add_mset g G)"
  shows "shutdown_inv (s', mset M + G)"
proof -
  have life: "lifecycle_inv (kcp_view (s, add_mset g G))" and plain: "kcp_plain (s, add_mset g G)"
    using assms(2) by (simp_all add: shutdown_inv_def)
  have step: "kcp_step (\<lambda>_. True) (s, add_mset g G) (s', mset M + G)" by (rule kcp_step.goes [OF assms(1)])
  have "fmlookup (sv_heap s) (sv_next s) = None" using lifecycle_invD(6) [OF life [unfolded kcp_view_def, simplified]] by simp
  note holds = kcp_go_holders [OF assms(1) this]
  have before: "count (holder g) b + count (holders G) b = once_running s b" for b using assms(2) by (simp add: shutdown_inv_def)
  have "count (holders (mset M)) b + count (holders G) b = once_running s' b" for b
    using holds [of b] before [of b] by linarith
  then have "count (holders (mset M + G)) b = once_running s' b" for b by simp
  moreover have "refs h \<subseteq> fset (fmdom (sv_heap s'))" if "h \<in># mset M + G" for h
  proof -
    have old: "refs f \<subseteq> fset (fmdom (sv_heap s))" if "f \<in># add_mset g G" for f using assms(2) that by (auto simp: shutdown_inv_def)
    from that consider "h \<in> set M" | "h \<in># G" by auto
    then show ?thesis using kcp_go_refs [OF assms(1) old] old by cases auto
  qed
  ultimately show ?thesis
    using pool_step_keeps(1) [OF kcp.step_view [OF step] life] kcp_plain_step [OF step plain] by (auto simp: shutdown_inv_def)
qed

lemma map_get_ref: "k |\<in>| fmdom m \<Longrightarrow> fmlookup m k = Some (map_get z m k)"
  by (auto simp: map_get_def)

lemma kcp_call_refs:
  assumes "kcp_call c s = (s', M)" "legal c" "\<And>i a. fmlookup (sv_sessions s) i = Some a \<Longrightarrow> a |\<in>| fmdom (sv_heap s)" "h \<in> set M"
  shows "holder h = {#} \<and> refs h \<subseteq> fset (fmdom (sv_heap s))"
proof (cases c)
  case (StopNow ord)
  with assms(2) have "set (ord (fmdom (sv_sessions s))) = fset (fmdom (sv_sessions s))" by (auto simp: legal_def)
  moreover have "map_get 0 (sv_sessions s) k |\<in>| fmdom (sv_heap s)" if "k |\<in>| fmdom (sv_sessions s)" for k
    by (rule assms(3) [OF map_get_ref [OF that]])
  ultimately show ?thesis using StopNow assms(1,4)
    by (auto simp: kcp_call_def kcp_Stop_def cancel_ctx_def Let_def split: if_splits option.splits)
qed (use assms(1,4) in \<open>auto simp: kcp_call_def kcp_Start_def fmlookup_dom_iff split: option.splits if_splits\<close>)

lemma shutdown_call:
  assumes "kcp_call c s = (s', M)" "legal c" "shutdown_inv (s, G)"
  shows "shutdown_inv (s', mset M + G)"
proof -
  have life: "lifecycle_inv (kcp_view (s, G))" and plain: "kcp_plain (s, G)" using assms(3) by (simp_all add: shutdown_inv_def)
  have step: "kcp_step (\<lambda>_. True) (s, G) (s', mset M + G)" by (rule kcp_step.called [OF _ assms(1)]) simp
  have heap: "sv_heap s' = sv_heap s" using arg_cong [OF kcp_call_pool(1) [OF assms(1)], of sv_heap] by simp
  have "a |\<in>| fmdom (sv_heap s)" if "fmlookup (sv_sessions s) i = Some a" for i a
    using lifecycle_invD(5) [OF life [unfolded kcp_view_def, simplified], of i a] that by (auto simp: fmlookup_dom_iff)
  with kcp_call_refs [OF assms(1,2)] have new: "holder h = {#} \<and> refs h \<subseteq> fset (fmdom (sv_heap s))" if "h \<in> set M" for h
    using that by blast
  then have "holders (mset M) = {#}" by (auto simp: holders_def intro: sum_mset.neutral)
  then have "count (holders (mset M + G)) a = once_running s' a" for a
    using assms(3) heap by (simp add: shutdown_inv_def once_running_def)
  moreover have "refs h \<subseteq> fset (fmdom (sv_heap s'))" if "h \<in># mset M + G" for h
    using new assms(3) heap that by (auto simp: shutdown_inv_def)
  ultimately show ?thesis
    using pool_step_keeps(1) [OF kcp.step_view [OF step] life] kcp_plain_step [OF step plain] by (simp add: shutdown_inv_def)
qed

lemma shutdown_step: "kcp_step legal s t \<Longrightarrow> context_inv s \<and> shutdown_inv s \<Longrightarrow> context_inv t \<and> shutdown_inv t"
  by (induction rule: kcp_step.induct) (auto intro: context_go context_call shutdown_go shutdown_call)

interpretation kcp_shut: step_invariant "kcp_step legal" "\<lambda>s. context_inv s \<and> shutdown_inv s"
  by unfold_locales (rule shutdown_step)

lemma kcp_new_shut: "context_inv (kcp_new n cfg, {#}) \<and> shutdown_inv (kcp_new n cfg, {#})"
  by (simp add: context_inv_def shutdown_inv_def kcp_view_def kcp_plain_def once_running_def kcp_new_def lifecycle_inv_def pool.defs)

text \<open>After a stop: the invariants and a server that is not running.\<close>

definition stopped :: "kcp_state \<Rightarrow> bool" where
  "stopped s \<longleftrightarrow> context_inv s \<and> shutdown_inv s \<and> \<not> sv_running (fst s)"

lemma silent_stopped:
  assumes "silent_step s t" "stopped s"
  shows "stopped t" and "weights (snd t) < weights (snd s)"
proof -
  from assms(1) obtain g r r' M G where s: "s = (r, add_mset g G)" "t = (r', mset M + G)" and go: "kcp_go (silence g) g r = Some (r', M)"
    by (auto elim: silent_stepE)
  show "stopped t" using assms(2) context_go [OF go] shutdown_go [OF go] kcp_go_server [OF go] by (simp add: stopped_def s)
  have "ctx_done c r" if "context_of g = Some c" for c
    using assms(2) that by (auto simp: stopped_def s context_inv_def)
  from silent_lighter [OF go this] show "weights (snd t) < weights (snd s)" by (simp add: s)
qed

interpretation quiet: step_invariant silent_step stopped
  by unfold_locales (rule silent_stopped(1))

section \<open>Progress\<close>

text \<open>Only two things block a silent goroutine: a \<^verbatim>\<open>sync.Once\<close> somebody else is running, and the wait group.\<close>

lemma silent_enabled:
  assumes "refs g \<subseteq> fset (fmdom (sv_heap s))" "\<not> upgrade_part g" "\<And>c. context_of g = Some c \<Longrightarrow> ctx_done c s"
    and "\<And>a k. g = Closing CloseEnter a k \<Longrightarrow> once_running s a = 0" "\<And>a k. g = Closing CloseRemove a k \<Longrightarrow> once_running s a \<noteq> 0"
    and "g = StopWait \<Longrightarrow> sv_wg s = 0"
  shows "kcp_go (silence g) g s \<noteq> None"
proof (cases g)
  case (Closing pc a k)
  with assms(1) obtain x where "fmlookup (sv_heap s) a = Some x" by (cases k) (auto simp: fmlookup_dom_iff)
  with Closing assms(4,5) show ?thesis
    by (cases pc; cases "ts_once x") (auto simp: kcp_go_def once_running_def)
next
  case (StopCall as)
  then show ?thesis by (cases as) (auto simp: kcp_go_def)
qed (use assms in \<open>auto simp: kcp_goroutines fmlookup_dom_iff isTimeoutOrClosed_def split: option.splits if_splits io.splits list.splits\<close>)

lemma holders_member: "a \<in># holders G \<Longrightarrow> \<exists>k. Closing CloseRemove a k \<in># G"
proof (induction G)
  case (add g G)
  then show ?case by (cases g rule: holder.cases) auto
qed simp

lemma silent_move: "g \<in># G \<Longrightarrow> kcp_go (silence g) g s \<noteq> None \<Longrightarrow> \<exists>t. silent_step (s, G) t"
  by (metis insert_DiffM option.exhaust prod.exhaust silent)

lemma silent_progress:
  assumes "stopped (s, G)" "G \<noteq> {#}"
  shows "\<exists>t. silent_step (s, G) t"
proof -
  have base: "refs g \<subseteq> fset (fmdom (sv_heap s))" "\<not> upgrade_part g" "context_of g = Some c \<Longrightarrow> ctx_done c s" if "g \<in># G" for g c
    using assms(1) that by (auto simp: stopped_def shutdown_inv_def kcp_plain_def context_inv_def)
  have count: "count (holders G) a = once_running s a" for a using assms(1) by (simp add: stopped_def shutdown_inv_def)
  have removing: "once_running s a \<noteq> 0" if "Closing CloseRemove a k \<in># G" for a k
    using count [of a] multi_member_split [OF that] by auto
  consider (inside) a k where "Closing CloseRemove a k \<in># G"
    | (other) g where "g \<in># G" "g \<noteq> StopWait" "\<forall>a k. Closing CloseRemove a k \<notin># G"
    | (waits) "\<forall>g\<in>#G. g = StopWait" by blast
  then show ?thesis
  proof cases
    case (inside a k)
    show ?thesis
      by (rule silent_move [OF inside silent_enabled]) (use base [OF inside] removing [OF inside] in auto)
  next
    case (other g)
    have "once_running s a = 0" for a
      using count [of a] holders_member [of a G] other(3) by (metis not_in_iff)
    then show ?thesis
      by (intro silent_move [OF other(1) silent_enabled]) (use base [OF other(1)] other in auto)
  next
    case waits
    then have "\<forall>g\<in>#G. counted g = 0" by fastforce
    then have "counts G = 0" by (simp add: counts_def sum_mset.neutral)
    moreover have "sv_wg s = counts G"
      using assms(1) lifecycle_invD(1) [of "pool.truncate s" G] by (simp add: stopped_def shutdown_inv_def kcp_view_def)
    ultimately have "kcp_go (silence StopWait) StopWait s \<noteq> None" by (simp add: kcp_go_def)
    moreover have "StopWait \<in># G" using assms(2) waits by (metis multiset_nonemptyE)
    ultimately show ?thesis by (rule silent_move [rotated])
  qed
qed

section \<open>Properties\<close>



end
