(* ===== verification/WebSocket.thy ===== *)
theory WebSocket
  imports KCP
begin

text \<open>
  The WebSocket adapter (\<^verbatim>\<open>internal/transport/websocket\<close>). Its sessions run the same code as those of the
  KCP adapter, except for what the read loop makes of a frame; its server is an HTTP server whose
  handler goroutines upgrade requests to sessions. The upgrader, the connection and
  \<^verbatim>\<open>net/http\<close> are outside: what they return is chosen by the \<open>io\<close> argument.
\<close>

section \<open>Configuration\<close>

record wss_ServerConfig =
  wc_ListenAddr :: string
  wc_TLSCertFile :: string
  wc_TLSKeyFile :: string
  wc_AllowedOrigins :: "string list"
  wc_MaxPayloadSize :: int
  wc_ReadTimeout :: duration
  wc_WriteTimeout :: duration
  wc_SendQueueSize :: int
  wc_DevMode :: bool

text \<open>HTTP servers are numbered like the contexts of the calls of \<^verbatim>\<open>Start\<close> that make them.\<close>

record wss_server = "wss_ServerConfig server" +
  sv_httpSrv :: "nat option"
  sv_shut :: "nat fset"

type_synonym wss_state = "wss_server \<times> goroutine multiset"

definition defaultReadTimeout :: duration where "defaultReadTimeout = 10 * 10 ^ 9"
definition defaultWriteTimeout :: duration where "defaultWriteTimeout = 5 * 10 ^ 9"
definition wss_defaultSendQueueSize :: int where "wss_defaultSendQueueSize = 256"
definition defaultMaxPayloadSize :: int where "defaultMaxPayloadSize = 60 * 1024"

definition wss_Validate :: "(string \<Rightarrow> bool) \<Rightarrow> wss_ServerConfig \<Rightarrow> net_err option" where
  "wss_Validate resolves c =
     (if wc_ListenAddr c = [] then Some ListenAddrRequired
      else if \<not> resolves (wc_ListenAddr c) then Some (InvalidListenAddr (wc_ListenAddr c)) else None)"

definition maxPayloadSize :: "wss_ServerConfig \<Rightarrow> int" where
  "maxPayloadSize c = (if wc_MaxPayloadSize c \<le> 0 then defaultMaxPayloadSize else wc_MaxPayloadSize c)"

definition wss_readTimeout :: "wss_ServerConfig \<Rightarrow> duration" where
  "wss_readTimeout c = (if wc_ReadTimeout c \<le> 0 then defaultReadTimeout else wc_ReadTimeout c)"

definition wss_writeTimeout :: "wss_ServerConfig \<Rightarrow> duration" where
  "wss_writeTimeout c = (if wc_WriteTimeout c \<le> 0 then defaultWriteTimeout else wc_WriteTimeout c)"

definition wss_sendQueueSize :: "wss_ServerConfig \<Rightarrow> int" where
  "wss_sendQueueSize c = (if wc_SendQueueSize c \<le> 0 then wss_defaultSendQueueSize else wc_SendQueueSize c)"

definition wss_new :: "u64 \<Rightarrow> wss_ServerConfig \<Rightarrow> wss_server" where
  "wss_new n c = \<lparr>sv_heap = fmempty, sv_next = 0, sv_sessions = fmempty, sv_wg = 0, sv_cfg = c, sv_running = False,
     sv_listener = None, sv_ctx = 0, sv_cancel = None, sv_cancelled = {||}, sv_count = n, sv_dispatched = [],
     sv_httpSrv = None, sv_shut = {||}\<rparr>"

definition wss_NewServer :: "(string \<Rightarrow> bool) \<Rightarrow> u64 \<Rightarrow> wss_ServerConfig \<Rightarrow> bool \<Rightarrow> net_err + wss_server" where
  "wss_NewServer resolves n c has_handler =
     (case wss_Validate resolves c of
        Some e \<Rightarrow> Inl e
      | None \<Rightarrow> if \<not> has_handler then Inl HandlerRequired else Inr (wss_new n c))"

definition checkOrigin :: "wss_ServerConfig \<Rightarrow> string \<Rightarrow> bool" where
  "checkOrigin c origin =
     (if wc_DevMode c \<or> wc_AllowedOrigins c = [] then True else list_ex (\<lambda>allowed. origin = allowed) (wc_AllowedOrigins c))"

section \<open>Sessions\<close>

definition nextWSSSessionID :: "wss_server \<Rightarrow> string \<times> wss_server" where
  "nextWSSSessionID s = (let n = sv_count s + 1 in (''wss-'' @ print_d (unat n), s\<lparr>sv_count := n\<rparr>))"

definition wss_newSession :: "wss_server \<Rightarrow> net_session \<times> wss_server" where
  "wss_newSession s =
     (case nextWSSSessionID s of (i, s) \<Rightarrow> (fresh_session i (nat (wss_sendQueueSize (sv_cfg s))), s))"

definition wss_IsClosed :: "net_session \<Rightarrow> bool" where
  "wss_IsClosed x = ts_closed x"

definition wss_Send_select :: "bytes \<Rightarrow> net_session \<Rightarrow> net_err option \<times> net_session" where
  "wss_Send_select d x =
     (if length (ts_sendCh x) < ts_cap x
      then (None, x\<lparr>ts_sendCh := ts_sendCh x @ [d], ts_accepted := ts_accepted x @ [d]\<rparr>)
      else (Some ErrClosed, x))"

definition wss_Send :: "bytes \<Rightarrow> net_session \<Rightarrow> net_err option \<times> net_session" where
  "wss_Send d x = (if wss_IsClosed x then (Some ErrClosed, x) else wss_Send_select d x)"

definition wss_removeSession :: "string \<Rightarrow> wss_server \<Rightarrow> wss_server" where
  "wss_removeSession i s = s\<lparr>sv_sessions := fmdrop i (sv_sessions s)\<rparr>"

fun wss_close :: "closing \<Rightarrow> sess_ref \<Rightarrow> after \<Rightarrow> wss_server \<Rightarrow> (wss_server \<times> goroutine list) option" where
  "wss_close CloseEnter a k s =
     (case fmlookup (sv_heap s) a of
        None \<Rightarrow> None
      | Some x \<Rightarrow>
          (case ts_once x of
             OnceNew \<Rightarrow> Some (s\<lparr>sv_heap := fmupd a (x\<lparr>ts_closed := True, ts_once := OnceRunning\<rparr>) (sv_heap s)\<rparr>,
                              [Closing CloseRemove a k])
           | OnceRunning \<Rightarrow> None
           | OnceDone \<Rightarrow> Some (s, [resume k])))"
| "wss_close CloseRemove a k s =
     (case fmlookup (sv_heap s) a of
        None \<Rightarrow> None
      | Some x \<Rightarrow>
          (case ts_once x of
             OnceRunning \<Rightarrow> Some (wss_removeSession (ts_id x) (s\<lparr>sv_heap := fmupd a (x\<lparr>ts_once := OnceDone\<rparr>) (sv_heap s)\<rparr>), [resume k])
           | _ \<Rightarrow> None))"

definition wss_readStart :: "nat \<Rightarrow> sess_ref \<Rightarrow> wss_server \<Rightarrow> wss_server \<times> goroutine list" where
  "wss_readStart c a s = (s\<lparr>sv_wg := sv_wg s + 1\<rparr>, [ReadLoop c a, WriteLoop c a])"

definition wss_readLoop :: "io \<Rightarrow> nat \<Rightarrow> sess_ref \<Rightarrow> wss_server \<Rightarrow> (wss_server \<times> goroutine list) option" where
  "wss_readLoop io c a s =
     (case fmlookup (sv_heap s) a of
        None \<Rightarrow> None
      | Some x \<Rightarrow>
          if ctx_done c s \<or> ts_closed x then Some (s, [Closing CloseEnter a AfterLoop])
          else if io = IOFail then Some (s, [Closing CloseEnter a AfterLoop])
          else Some (s, [ReadWait c a]))"

text \<open>
  Any error of \<^verbatim>\<open>ReadMessage\<close>, the deadline included, and a text frame end the loop. The read limit makes
  \<^verbatim>\<open>ReadMessage\<close> fail for longer messages.
\<close>

definition wss_readWait :: "io \<Rightarrow> nat \<Rightarrow> sess_ref \<Rightarrow> wss_server \<Rightarrow> (wss_server \<times> goroutine list) option" where
  "wss_readWait io c a s =
     (case fmlookup (sv_heap s) a of
        None \<Rightarrow> None
      | Some x \<Rightarrow>
          (case io of
             IOFail \<Rightarrow> Some (s, [Closing CloseEnter a AfterLoop])
           | Timeout \<Rightarrow> Some (s, [Closing CloseEnter a AfterLoop])
           | Frame msgType d \<Rightarrow>
               if int (length d) > maxPayloadSize (sv_cfg s) then None
               else if msgType = TextMessage then Some (s, [Closing CloseEnter a AfterLoop])
               else if msgType \<noteq> BinaryMessage then Some (s, [ReadLoop c a])
               else if d \<noteq> [] then Some (s\<lparr>sv_dispatched := sv_dispatched s @ [(ts_id x, d)]\<rparr>, [ReadLoop c a])
               else Some (s, [ReadLoop c a])
           | _ \<Rightarrow> None))"

fun wss_drainSendCh :: "bytes list \<Rightarrow> bytes list" where
  "wss_drainSendCh (d # ch) = wss_drainSendCh ch"
| "wss_drainSendCh [] = []"

definition wss_writeLoop :: "io \<Rightarrow> nat \<Rightarrow> sess_ref \<Rightarrow> wss_server \<Rightarrow> (wss_server \<times> goroutine list) option" where
  "wss_writeLoop io c a s =
     (case fmlookup (sv_heap s) a of
        None \<Rightarrow> None
      | Some x \<Rightarrow>
          (case io of
             PickDone \<Rightarrow> if ctx_done c s then Some (s, [WgDone]) else None
           | PickClosed \<Rightarrow>
               if ts_closed x
               then Some (s\<lparr>sv_heap := fmupd a (x\<lparr>ts_sendCh := wss_drainSendCh (ts_sendCh x)\<rparr>) (sv_heap s)\<rparr>, [WgDone])
               else None
           | PickData \<Rightarrow>
               (case ts_sendCh x of
                  [] \<Rightarrow> None
                | d # q \<Rightarrow> Some (s\<lparr>sv_heap := fmupd a (x\<lparr>ts_sendCh := q\<rparr>) (sv_heap s)\<rparr>, [WriteData c a d]))
           | _ \<Rightarrow> None))"

definition wss_writeData :: "io \<Rightarrow> nat \<Rightarrow> sess_ref \<Rightarrow> bytes \<Rightarrow> wss_server \<Rightarrow> (wss_server \<times> goroutine list) option" where
  "wss_writeData io c a d s =
     (case fmlookup (sv_heap s) a of
        None \<Rightarrow> None
      | Some x \<Rightarrow>
          if io = IOFail then Some (s, [WgDone])
          else Some (s\<lparr>sv_heap := fmupd a (x\<lparr>ts_written := ts_written x @ [d]\<rparr>) (sv_heap s)\<rparr>, [WriteLoop c a]))"

section \<open>The server\<close>

text \<open>
  \<^verbatim>\<open>Start\<close>: the critical section; then the HTTP server is made and stored; then its goroutine is counted
  and started.
\<close>

definition wss_Start :: "bool \<Rightarrow> wss_server \<Rightarrow> net_err option \<times> wss_server" where
  "wss_Start listen_ok s =
     (if sv_running s then (Some AlreadyRunning, s)
      else if \<not> listen_ok then (Some (ListenFailed (wc_ListenAddr (sv_cfg s))), s)
      else (None, s\<lparr>sv_listener := Some True, sv_running := True, sv_cancel := Some (sv_ctx s), sv_ctx := sv_ctx s + 1\<rparr>))"

definition wss_Start_http :: "nat \<Rightarrow> wss_server \<Rightarrow> wss_server \<times> goroutine list" where
  "wss_Start_http c s = (s\<lparr>sv_httpSrv := Some c\<rparr>, [ServeSpawn c])"

definition wss_Start_go :: "nat \<Rightarrow> wss_server \<Rightarrow> wss_server \<times> goroutine list" where
  "wss_Start_go c s = (s\<lparr>sv_wg := sv_wg s + 1\<rparr>, [Serve c])"

definition wss_serve :: "io \<Rightarrow> nat \<Rightarrow> wss_server \<Rightarrow> (wss_server \<times> goroutine list) option" where
  "wss_serve io c s =
     (case io of
        IOFail \<Rightarrow> Some (s, [WgDone])
      | Ok \<Rightarrow> if c |\<in>| sv_shut s then Some (s, [WgDone]) else None
      | _ \<Rightarrow> None)"

definition wss_Stop :: "map_order \<Rightarrow> wss_server \<Rightarrow> sess_ref list option \<times> wss_server" where
  "wss_Stop ord s =
     (if \<not> sv_running s then (None, s)
      else let s = cancel_ctx (s\<lparr>sv_running := False\<rparr>)
           in (Some (map (map_get 0 (sv_sessions s)) (ord (fmdom (sv_sessions s)))), s))"

text \<open>
  The rest of \<^verbatim>\<open>Stop\<close> once the sessions are closed: \<^verbatim>\<open>Shutdown\<close> stops the listener and the \<^verbatim>\<open>Serve\<close> of that
  server; it does not wait for connections that were upgraded, and at most five seconds for
  others.
\<close>

definition wss_Stop_http :: "wss_server \<Rightarrow> wss_server" where
  "wss_Stop_http s = (case sv_httpSrv s of None \<Rightarrow> s | Some c \<Rightarrow> s\<lparr>sv_shut := finsert c (sv_shut s)\<rparr>)"

definition wss_SessionCount :: "wss_server \<Rightarrow> nat" where
  "wss_SessionCount s = map_len (sv_sessions s)"

definition handleUpgrade :: "io \<Rightarrow> string \<Rightarrow> wss_server \<Rightarrow> (wss_server \<times> goroutine list) option" where
  "handleUpgrade io origin s =
     (case io of
        IOFail \<Rightarrow> Some (s, [HandlerReturn])
      | Ok \<Rightarrow>
          if \<not> checkOrigin (sv_cfg s) origin then Some (s, [HandlerReturn])
          else (case wss_newSession s of (sess, s) \<Rightarrow>
             let a = sv_next s;
                 s = s\<lparr>sv_heap := fmupd a sess (sv_heap s), sv_next := a + 1\<rparr>
             in if \<not> sv_running s then Some (s, [Closing CloseEnter a AfterHandler])
                else Some (s\<lparr>sv_sessions := fmupd (ts_id sess) a (sv_sessions s)\<rparr>, [UpgradeSpawn a]))
      | _ \<Rightarrow> None)"

text \<open>After the critical section of the handler: the session is given the context the server has now.\<close>

definition handleUpgrade_go :: "sess_ref \<Rightarrow> wss_server \<Rightarrow> (wss_server \<times> goroutine list) option" where
  "handleUpgrade_go a s =
     (case sv_cancel s of
        None \<Rightarrow> None
      | Some c \<Rightarrow> Some (s\<lparr>sv_wg := sv_wg s + 1\<rparr>, [ReadStart c a, HandlerReturn]))"

section \<open>Interleaving\<close>

definition wss_go :: "io \<Rightarrow> goroutine \<Rightarrow> wss_server \<Rightarrow> (wss_server \<times> goroutine list) option" where
  "wss_go io g s =
     (case g of
        StartSpawn c \<Rightarrow> Some (wss_Start_http c s)
      | ServeSpawn c \<Rightarrow> Some (wss_Start_go c s)
      | Serve c \<Rightarrow> wss_serve io c s
      | Upgrade origin \<Rightarrow> handleUpgrade io origin s
      | UpgradeSpawn a \<Rightarrow> handleUpgrade_go a s
      | HandlerReturn \<Rightarrow> Some (s, [])
      | ReadStart c a \<Rightarrow> Some (wss_readStart c a s)
      | ReadLoop c a \<Rightarrow> wss_readLoop io c a s
      | ReadWait c a \<Rightarrow> wss_readWait io c a s
      | WriteLoop c a \<Rightarrow> wss_writeLoop io c a s
      | WriteData c a d \<Rightarrow> wss_writeData io c a d s
      | Closing pc a k \<Rightarrow> wss_close pc a k s
      | WgDone \<Rightarrow> Some (s\<lparr>sv_wg := sv_wg s - 1\<rparr>, [])
      | SendCall a d \<Rightarrow>
          (case fmlookup (sv_heap s) a of
             None \<Rightarrow> None
           | Some x \<Rightarrow> Some (s\<lparr>sv_heap := fmupd a (snd (wss_Send_select d x)) (sv_heap s)\<rparr>, []))
      | CallReturn \<Rightarrow> Some (s, [])
      | StopCall [] \<Rightarrow> Some (wss_Stop_http s, [StopWait])
      | StopCall (a # as) \<Rightarrow> Some (s, [Closing CloseEnter a (AfterStop as)])
      | StopWait \<Rightarrow> if sv_wg s = 0 then Some (s, []) else None
      | _ \<Rightarrow> None)"

text \<open>A request to \<^verbatim>\<open>/realtime\<close> reaches the handler while the server serves.\<close>

definition wss_call :: "call \<Rightarrow> wss_server \<Rightarrow> wss_server \<times> goroutine list" where
  "wss_call c s =
     (case c of
        StartCall ok \<Rightarrow> (case wss_Start ok s of (Some e, s') \<Rightarrow> (s', []) | (None, s') \<Rightarrow> (s', [StartSpawn (sv_ctx s)]))
      | StopNow ord \<Rightarrow> (case wss_Stop ord s of (None, s') \<Rightarrow> (s', []) | (Some as, s') \<Rightarrow> (s', [StopCall as]))
      | SendNow a d \<Rightarrow>
          (case fmlookup (sv_heap s) a of
             None \<Rightarrow> (s, [])
           | Some x \<Rightarrow> if wss_IsClosed x then (s, []) else (s, [SendCall a d]))
      | CloseNow a \<Rightarrow> (case fmlookup (sv_heap s) a of None \<Rightarrow> (s, []) | Some x \<Rightarrow> (s, [Closing CloseEnter a AfterCall]))
      | CancelParent n \<Rightarrow> (s\<lparr>sv_cancelled := finsert n (sv_cancelled s)\<rparr>, [])
      | Request origin \<Rightarrow>
          (case sv_httpSrv s of
             None \<Rightarrow> (s, [])
           | Some n \<Rightarrow> if n |\<in>| sv_shut s then (s, []) else (s, [Upgrade origin])))"

inductive wss_step :: "wss_state \<Rightarrow> wss_state \<Rightarrow> bool" where
  goes: "wss_go io g s = Some (s', M) \<Longrightarrow> wss_step (s, add_mset g G) (s', mset M + G)"
| called: "wss_call c s = (s', M) \<Longrightarrow> wss_step (s, G) (s', mset M + G)"

section \<open>The sessions are those of the KCP adapter\<close>

lemma wss_drain [simp]: "wss_drainSendCh ch = []"
  by (induction ch) simp_all

lemma wss_session_code:
  "wss_IsClosed = kcp_IsClosed" "wss_Send_select = kcp_Send_select" "wss_removeSession = kcp_removeSession" "wss_close = kcp_close"
  "wss_readStart = kcp_readStart" "wss_readLoop = kcp_readLoop" "wss_writeLoop = kcp_writeLoop" "wss_writeData = kcp_writeData"
proof -
  show rm: "wss_removeSession = kcp_removeSession" by (simp add: fun_eq_iff wss_removeSession_def kcp_removeSession_def)
  have "wss_close pc a k s = kcp_close pc a k s" for pc a k s
    by (cases pc) (simp_all add: rm split: option.split once.split)
  then show "wss_close = kcp_close" by (simp add: fun_eq_iff)
  show "wss_writeLoop = kcp_writeLoop"
    by (simp add: fun_eq_iff wss_writeLoop_def kcp_writeLoop_def split: option.split io.split list.split)
qed (simp_all add: fun_eq_iff wss_IsClosed_def kcp_IsClosed_def wss_Send_select_def kcp_Send_select_def wss_readStart_def kcp_readStart_def
    wss_readLoop_def kcp_readLoop_def wss_writeData_def kcp_writeData_def)

section \<open>The adapter keeps the contract\<close>

definition wss_view :: "wss_state \<Rightarrow> pool \<times> goroutine multiset" where
  "wss_view s = (pool.truncate (fst s), snd s)"

lemma truncate_wss [simp]:
  "pool.truncate (s\<lparr>sv_httpSrv := h\<rparr>) = pool.truncate s" "pool.truncate (s\<lparr>sv_shut := c\<rparr>) = pool.truncate s"
  by (simp_all add: pool.defs)

lemma handleUpgrade_effect:
  assumes "handleUpgrade io origin s = Some (s', M)"
  shows "effect (pool.truncate s) (Upgrade origin) (pool.truncate s') (mset M)"
proof (cases "io = Ok \<and> checkOrigin (sv_cfg s) origin")
  case True
  let ?i = "fst (nextWSSSessionID s)" and ?cap = "nat (wss_sendQueueSize (sv_cfg s))"
  show ?thesis
  proof (cases "sv_running s")
    case True
    with assms \<open>io = Ok \<and> _\<close> show ?thesis
      by (intro opens [where i = ?i and cap = ?cap]) (auto simp: handleUpgrade_def wss_newSession_def nextWSSSessionID_def put_def Let_def fresh_session_def)
  next
    case False
    with assms \<open>io = Ok \<and> _\<close> show ?thesis
      by (intro refuses [where i = ?i and cap = ?cap]) (auto simp: handleUpgrade_def wss_newSession_def nextWSSSessionID_def put_def Let_def fresh_session_def)
  qed
qed (use assms in \<open>auto intro!: move simp: handleUpgrade_def split: io.splits if_splits\<close>)

lemma wss_readWait_effect:
  "wss_readWait io c a s = Some (s', M) \<Longrightarrow> effect (pool.truncate s) (ReadWait c a) (pool.truncate s') (mset M)"
  by (rule move; auto simp: wss_readWait_def split: option.splits if_splits io.splits)

lemma wss_go_effect:
  assumes "wss_go io g s = Some (s', M)"
  shows "effect (pool.truncate s) g (pool.truncate s') (mset M)"
proof (cases g)
  case (SendCall a d)
  with assms show ?thesis by (auto simp: wss_go_def wss_session_code send_effect split: option.splits)
next
  case (StopCall as)
  with assms show ?thesis by (cases as) (auto intro!: move simp: wss_go_def wss_Stop_http_def split: option.splits)
qed (use assms in \<open>auto simp: wss_go_def wss_session_code kcp_readStart_def wss_Start_http_def wss_Start_go_def wss_serve_def handleUpgrade_go_def
    intro: kcp_effects handleUpgrade_effect wss_readWait_effect move split: if_splits io.splits option.splits\<close>)

lemma wss_call_pool:
  assumes "wss_call c s = (s', M)"
  shows "pool.truncate s' = pool.truncate s" and "M = [] \<or> (\<exists>g. M = [g] \<and> owner g = {#} \<and> writer g = {#} \<and> counted g = 0)"
  using assms
  by (auto simp: wss_call_def wss_Start_def wss_Stop_def cancel_ctx_def Let_def split: call.splits if_splits option.splits)

interpretation wss: transport_adapter wss_step wss_view "\<lambda>s. \<exists>n cfg. s = (wss_new n cfg, {#})"
proof
  show "wss_view s = (empty_pool, {#})" if "\<exists>n cfg. s = (wss_new n cfg, {#})" for s
    using that by (auto simp: wss_view_def wss_new_def empty_pool_def pool.defs)
next
  fix s t :: wss_state
  assume "wss_step s t"
  then show "pool_step (wss_view s) (wss_view t)"
  proof cases
    case (goes io g s s' M G)
    then show ?thesis by (auto simp: wss_view_def intro: pool_step.runs wss_go_effect)
  next
    case (called c s s' M G)
    with wss_call_pool [OF called(3)] show ?thesis by (auto simp: wss_view_def intro: pool_step.intros)
  qed
qed

section \<open>Properties\<close>

lemma wss_script_reachable:
  assumes "run_script wss_go wss_call as (wss_new n cfg, []) = Some (s, gs)"
  shows "wss_step\<^sup>*\<^sup>* (wss_new n cfg, {#}) (s, mset gs)"
  using run_script_steps [where step = wss_step, OF _ _ assms] by (auto intro: wss_step.intros)

lemma wss_script_steps:
  "run_script wss_go wss_call as (s, gs) = Some (t, hs) \<Longrightarrow> wss_step\<^sup>*\<^sup>* (s, mset gs) (t, mset hs)"
  by (rule run_script_steps [where go = wss_go and call = wss_call]) (auto intro: wss_step.intros)

text \<open>Ordered delivery, as for the KCP adapter.\<close>

lemma wss_delivery:
  assumes "wss_step\<^sup>*\<^sup>* (wss_new n cfg, {#}) (s, G)" and "fmlookup (sv_heap s) a = Some x"
  shows "prefix (ts_written x) (ts_accepted x) \<and> length (ts_sendCh x) \<le> ts_cap x
    \<and> (WriteLoop c a \<in># G \<longrightarrow> ts_accepted x = ts_written x @ ts_sendCh x)"
proof -
  have "WriteLoop c a \<in># G \<Longrightarrow> (a, []) \<in># writers G" by (auto dest: multi_member_split)
  moreover have "wss_view (s, G) = (pool.truncate s, G)" by (simp add: wss_view_def)
  then have "prefix (ts_written x) (ts_accepted x) \<and> length (ts_sendCh x) \<le> ts_cap x
      \<and> (\<forall>w. (a, w) \<in># writers G \<longrightarrow> ts_accepted x = ts_written x @ w @ ts_sendCh x)"
    using assms(2) by (intro wss.in_order [OF assms(1)]) auto
  ultimately show ?thesis by auto
qed

text \<open>
  What \<^verbatim>\<open>Stop\<close> guarantees: when it returns no serve, read or write loop is running, and if no
  upgrade is being handled at that moment the session map is empty and every session is closed.
\<close>

lemma wss_Stop_return:
  assumes "wss_step\<^sup>*\<^sup>* (wss_new n cfg, {#}) (s, G)" and "wss_go io StopWait s \<noteq> None"
  shows "g \<in># G \<Longrightarrow> counted g = 0"
    and "(\<And>a. UpgradeSpawn a \<notin># G) \<Longrightarrow> (\<And>pc a. Closing pc a AfterHandler \<notin># G) \<Longrightarrow>
      sv_sessions s = fmempty \<and> (\<forall>a x. fmlookup (sv_heap s) a = Some x \<longrightarrow> ts_closed x)"
proof -
  have wg: "sv_wg (pool.truncate s) = 0" using assms(2) by (auto simp: wss_go_def split: if_splits)
  have v: "wss_view (s, G) = (pool.truncate s, G)" by (simp add: wss_view_def)
  show "counted g = 0" if "g \<in># G" using wss.wait_group(2) [OF assms(1) _ v wg that] by auto
  assume h: "\<And>a. UpgradeSpawn a \<notin># G" "\<And>pc a. Closing pc a AfterHandler \<notin># G"
  have "sv_sessions s = fmempty" using wss.idle_sessions(1) [OF assms(1) _ v wg h] by auto
  moreover have "ts_closed x" if "fmlookup (sv_heap s) a = Some x" for a x
    using wss.idle_sessions(2) [OF assms(1) _ v wg h, of a x] that by auto
  ultimately show "sv_sessions s = fmempty \<and> (\<forall>a x. fmlookup (sv_heap s) a = Some x \<longrightarrow> ts_closed x)" by blast
qed

definition wss_demo_cfg :: wss_ServerConfig where
  "wss_demo_cfg = \<lparr>wc_ListenAddr = '':9001'', wc_TLSCertFile = [], wc_TLSKeyFile = [], wc_AllowedOrigins = [''https://a''],
     wc_MaxPayloadSize = 0, wc_ReadTimeout = 0, wc_WriteTimeout = 0, wc_SendQueueSize = 0, wc_DevMode = False\<rparr>"

definition wss_overtake :: "action list" where
  "wss_overtake = [Call (StartCall True), Go 0 Ok, Go 0 Ok, Call (Request ''https://a''), Go 1 Ok,
     Call (StopNow sorted_order), Go 2 Ok, Go 2 Ok, Go 2 Ok, Go 2 Ok, Go 0 Ok, Go 0 Ok]"

text \<open>
  C39: \<^verbatim>\<open>Stop\<close> of the WebSocket server does not wait for an upgrade that has entered its session and not
  yet started the read loop. There is a run in which \<^verbatim>\<open>Stop\<close> is about to return, with the wait group at
  zero, and after it has returned the handler adds to the wait group and starts the two loops.
\<close>

theorem wss_Stop_overtaken:
  "\<exists>s t. wss_step\<^sup>*\<^sup>* (wss_new 0 wss_demo_cfg, {#}) (s, {#UpgradeSpawn 0, StopWait#})
     \<and> wss_go Ok StopWait s = Some (s, [])
     \<and> wss_step\<^sup>*\<^sup>* (s, {#UpgradeSpawn 0#}) (t, {#ReadLoop 0 0, WriteLoop 0 0, HandlerReturn#}) \<and> sv_wg t = 2"
proof -
  let ?run = "\<lambda>as. run_script wss_go wss_call as (wss_new 0 wss_demo_cfg, [])"
  have "map_option (\<lambda>r. (sv_wg (fst r), sv_cancel (fst r), snd r)) (?run wss_overtake) = Some (0, Some 0, [UpgradeSpawn 0, StopWait])"
    by code_simp
  then obtain s where s: "?run wss_overtake = Some (s, [UpgradeSpawn 0, StopWait])" "sv_wg s = 0" "sv_cancel s = Some 0" by auto
  have "run_script wss_go wss_call [Go 0 Ok, Go 0 Ok] (s, [UpgradeSpawn 0]) =
      Some (s\<lparr>sv_wg := 2\<rparr>, [ReadLoop 0 0, WriteLoop 0 0, HandlerReturn])"
    using s by (simp add: wss_go_def handleUpgrade_go_def wss_readStart_def)
  from wss_script_steps [OF this] wss_script_reachable [OF s(1)] s(2) show ?thesis
    by (intro exI [of _ s] exI [of _ "s\<lparr>sv_wg := 2\<rparr>"]) (simp add: wss_go_def)
qed

text \<open>
  \<^verbatim>\<open>Start\<close> stores the HTTP server after it has left its critical section. A \<^verbatim>\<open>Stop\<close> in between finds none,
  shuts nothing down and returns; the server then serves although it is not running, and a
  second \<^verbatim>\<open>Stop\<close> changes nothing.
\<close>

lemma wss_Stop_before_serve:
  "\<exists>s. wss_step\<^sup>*\<^sup>* (wss_new 0 wss_demo_cfg, {#}) (s, {#Serve 0#}) \<and> \<not> sv_running s \<and> wss_go Ok (Serve 0) s = None
     \<and> wss_call (StopNow ord) s = (s, [])"
proof -
  let ?run = "run_script wss_go wss_call [Call (StartCall True), Call (StopNow sorted_order), Go 1 Ok, Go 1 Ok, Go 0 Ok, Go 0 Ok]
    (wss_new 0 wss_demo_cfg, [])"
  have "map_option (\<lambda>r. (sv_running (fst r), sv_shut (fst r), snd r)) ?run = Some (False, {||}, [Serve 0])" by code_simp
  then obtain s where s: "?run = Some (s, [Serve 0])" "\<not> sv_running s" "sv_shut s = {||}" by auto
  from wss_script_reachable [OF s(1)] s(2,3) show ?thesis
    by (intro exI [of _ s]) (simp add: wss_go_def wss_serve_def wss_call_def wss_Stop_def)
qed

end
