(* ===== verification/Config.thy ===== *)
theory Config
  imports GoFloat
begin

text \<open>
  Package \<^verbatim>\<open>internal/config\<close>: the configuration file and its validation. Reading the file, the
  environment and the YAML parser are arguments. An error is named after the message it has.
\<close>

section \<open>Data\<close>

record DeploymentConfig = dep_Mode :: string

record GatewayConfig = gw_HTTPAddr :: string

record GameConfig =
  gc_KCPAddr :: string
  gc_WebSocketAddr :: string
  gc_TickRateHz :: int
  gc_BroadcastRateHz :: int
  gc_MaxPlayersPerRoom :: int

record ProtocolConfig =
  prc_Version :: int
  prc_Serialization :: string
  prc_Transport :: string

record ResolverConfig =
  res_Type :: string
  res_SingleNodeAddr :: string
  res_SingleNodeWebSocketURL :: string
  res_RedisAddr :: string

record RegistryConfig =
  reg_Type :: string
  reg_RedisAddr :: string

record SpatialConfig = spc_CellSizeM :: gofloat

record InterestSection =
  is_VisualRadiusM :: gofloat
  is_ObjectRadiusM :: gofloat
  is_VoiceRadiusM :: gofloat
  is_FullAvatarRadiusM :: gofloat
  is_LowLodRadiusM :: gofloat

record VoiceConfig =
  vc_Allocator :: string
  vc_MaxParticipantsPerGroup :: int
  vc_RecomputeIntervalMs :: int

record ObjectLockConfig =
  ol_LeaseTTLMs :: int
  ol_RefreshIntervalMs :: int
  ol_MaxLocksPerUser :: int

record MetricsConfig = met_Type :: string

record AppConfig =
  cfg_Deployment :: DeploymentConfig
  cfg_Gateway :: GatewayConfig
  cfg_Game :: GameConfig
  cfg_Protocol :: ProtocolConfig
  cfg_Resolver :: ResolverConfig
  cfg_Registry :: RegistryConfig
  cfg_Spatial :: SpatialConfig
  cfg_Interest :: InterestSection
  cfg_Voice :: VoiceConfig
  cfg_ObjectLock :: ObjectLockConfig
  cfg_Metrics :: MetricsConfig

definition ModeDev :: string where "ModeDev = ''dev''"
definition ModeSingleVPS :: string where "ModeSingleVPS = ''single-vps''"
definition ModeDistributedK3s :: string where "ModeDistributedK3s = ''distributed-k3s''"
definition ResolverSingleNode :: string where "ResolverSingleNode = ''single-node''"
definition ResolverRedis :: string where "ResolverRedis = ''redis''"
definition RegistryMemory :: string where "RegistryMemory = ''memory''"
definition RegistryRedis :: string where "RegistryRedis = ''redis''"
definition MetricsLog :: string where "MetricsLog = ''log''"
definition MetricsPrometheus :: string where "MetricsPrometheus = ''prometheus''"

text \<open>A map to \<^verbatim>\<open>true\<close> read with a missing key gives \<^verbatim>\<open>false\<close>: a list of the keys.\<close>

definition validModes :: "string list" where "validModes = [ModeDev, ModeSingleVPS, ModeDistributedK3s]"
definition validResolverTypes :: "string list" where "validResolverTypes = [ResolverSingleNode, ResolverRedis]"
definition validRegistryTypes :: "string list" where "validRegistryTypes = [RegistryMemory, RegistryRedis]"
definition validMetricsTypes :: "string list" where "validMetricsTypes = [MetricsLog, MetricsPrometheus]"

datatype config_err =
  InvalidMode string | Required string | NotListenAddr string string | NotPositive string
| BroadcastExceedsTick int int | InvalidResolverType string | InvalidRegistryType string
| InvalidMetricsType string | InvalidVoiceAllocator string | ModeForbids string
| ReadFailed string string | ParseFailed string string | EnvNotSet

section \<open>Validation\<close>

definition HasPrefix :: "string \<Rightarrow> string \<Rightarrow> bool" where
  "HasPrefix s p \<longleftrightarrow> take (length p) s = p"

text \<open>\<^verbatim>\<open>strings.Contains\<close> with a string of one character.\<close>

definition ContainsChar :: "string \<Rightarrow> char \<Rightarrow> bool" where
  "ContainsChar s c \<longleftrightarrow> c \<in> set s"

definition bad_listen_addr :: "string \<Rightarrow> bool" where
  "bad_listen_addr a \<longleftrightarrow> \<not> HasPrefix a '':'' \<and> \<not> ContainsChar a (CHR '':'')"

definition validateDeployment :: "AppConfig \<Rightarrow> config_err option" where
  "validateDeployment cfg =
     (let mode = dep_Mode (cfg_Deployment cfg) in if mode \<notin> set validModes then Some (InvalidMode mode) else None)"

definition validateGateway :: "AppConfig \<Rightarrow> config_err option" where
  "validateGateway cfg =
     (let a = gw_HTTPAddr (cfg_Gateway cfg)
      in if a = [] then Some (Required ''gateway.http_addr'')
         else if bad_listen_addr a then Some (NotListenAddr ''gateway.http_addr'' a) else None)"

definition validateGame :: "AppConfig \<Rightarrow> config_err option" where
  "validateGame cfg =
     (let g = cfg_Game cfg
      in if gc_KCPAddr g = [] then Some (Required ''game.kcp_addr'')
         else if bad_listen_addr (gc_KCPAddr g) then Some (NotListenAddr ''game.kcp_addr'' (gc_KCPAddr g))
         else if gc_WebSocketAddr g \<noteq> [] \<and> bad_listen_addr (gc_WebSocketAddr g)
              then Some (NotListenAddr ''game.websocket_addr'' (gc_WebSocketAddr g))
         else if gc_TickRateHz g \<le> 0 then Some (NotPositive ''game.tick_rate_hz'')
         else if gc_BroadcastRateHz g \<le> 0 then Some (NotPositive ''game.broadcast_rate_hz'')
         else if gc_BroadcastRateHz g > gc_TickRateHz g
              then Some (BroadcastExceedsTick (gc_BroadcastRateHz g) (gc_TickRateHz g))
         else if gc_MaxPlayersPerRoom g \<le> 0 then Some (NotPositive ''game.max_players_per_room'')
         else None)"

definition validateResolver :: "AppConfig \<Rightarrow> config_err option" where
  "validateResolver cfg =
     (let r = cfg_Resolver cfg
      in if res_Type r \<notin> set validResolverTypes then Some (InvalidResolverType (res_Type r))
         else if res_Type r = ResolverSingleNode
              then (if dep_Mode (cfg_Deployment cfg) \<noteq> ModeDev \<and> res_SingleNodeAddr r = []
                    then Some (Required ''resolver.single_node_addr'') else None)
         else if res_Type r = ResolverRedis
              then (if res_RedisAddr r = [] then Some (Required ''resolver.redis_addr'') else None)
         else None)"

definition validateRegistry :: "AppConfig \<Rightarrow> config_err option" where
  "validateRegistry cfg =
     (let r = cfg_Registry cfg
      in if reg_Type r \<notin> set validRegistryTypes then Some (InvalidRegistryType (reg_Type r))
         else if reg_Type r = RegistryRedis \<and> reg_RedisAddr r = [] then Some (Required ''registry.redis_addr'')
         else None)"

definition validateMetrics :: "AppConfig \<Rightarrow> config_err option" where
  "validateMetrics cfg =
     (if met_Type (cfg_Metrics cfg) \<notin> set validMetricsTypes then Some (InvalidMetricsType (met_Type (cfg_Metrics cfg))) else None)"

definition validateSpatial :: "AppConfig \<Rightarrow> config_err option" where
  "validateSpatial cfg =
     (if fle (spc_CellSizeM (cfg_Spatial cfg)) (FNum 0) then Some (NotPositive ''spatial.cell_size_m'') else None)"

definition validateInterest :: "AppConfig \<Rightarrow> config_err option" where
  "validateInterest cfg =
     (let i = cfg_Interest cfg
      in if fle (is_VisualRadiusM i) (FNum 0) then Some (NotPositive ''interest.visual_radius_m'')
         else if fle (is_ObjectRadiusM i) (FNum 0) then Some (NotPositive ''interest.object_radius_m'')
         else if fle (is_VoiceRadiusM i) (FNum 0) then Some (NotPositive ''interest.voice_radius_m'')
         else if fle (is_FullAvatarRadiusM i) (FNum 0) then Some (NotPositive ''interest.full_avatar_radius_m'')
         else if fle (is_LowLodRadiusM i) (FNum 0) then Some (NotPositive ''interest.low_lod_radius_m'')
         else None)"

definition validateVoice :: "AppConfig \<Rightarrow> config_err option" where
  "validateVoice cfg =
     (let v = cfg_Voice cfg
      in if vc_Allocator v \<noteq> ''proximity'' \<and> vc_Allocator v \<noteq> ''kmeans'' then Some (InvalidVoiceAllocator (vc_Allocator v))
         else if vc_MaxParticipantsPerGroup v \<le> 0 then Some (NotPositive ''voice.max_participants_per_group'')
         else if vc_RecomputeIntervalMs v \<le> 0 then Some (NotPositive ''voice.recompute_interval_ms'')
         else None)"

definition validateObjectLock :: "AppConfig \<Rightarrow> config_err option" where
  "validateObjectLock cfg =
     (let l = cfg_ObjectLock cfg
      in if ol_LeaseTTLMs l \<le> 0 then Some (NotPositive ''object_lock.lease_ttl_ms'')
         else if ol_RefreshIntervalMs l \<le> 0 then Some (NotPositive ''object_lock.refresh_interval_ms'')
         else if ol_MaxLocksPerUser l \<le> 0 then Some (NotPositive ''object_lock.max_locks_per_user'')
         else None)"

text \<open>The first check that fails decides.\<close>

definition Validate :: "AppConfig \<Rightarrow> config_err option" where
  "Validate cfg =
     (case validateDeployment cfg of Some e \<Rightarrow> Some e | None \<Rightarrow>
      case validateGateway cfg of Some e \<Rightarrow> Some e | None \<Rightarrow>
      case validateGame cfg of Some e \<Rightarrow> Some e | None \<Rightarrow>
      case validateResolver cfg of Some e \<Rightarrow> Some e | None \<Rightarrow>
      case validateRegistry cfg of Some e \<Rightarrow> Some e | None \<Rightarrow>
      case validateMetrics cfg of Some e \<Rightarrow> Some e | None \<Rightarrow>
      case validateSpatial cfg of Some e \<Rightarrow> Some e | None \<Rightarrow>
      case validateInterest cfg of Some e \<Rightarrow> Some e | None \<Rightarrow>
      case validateVoice cfg of Some e \<Rightarrow> Some e | None \<Rightarrow> validateObjectLock cfg)"

definition ValidateModeConstraints :: "AppConfig \<Rightarrow> config_err option" where
  "ValidateModeConstraints cfg =
     (if dep_Mode (cfg_Deployment cfg) = ModeSingleVPS then
        (if res_Type (cfg_Resolver cfg) = ResolverRedis then Some (ModeForbids ''redis resolver'')
         else if reg_Type (cfg_Registry cfg) = RegistryRedis then Some (ModeForbids ''redis registry'') else None)
      else if dep_Mode (cfg_Deployment cfg) = ModeDistributedK3s then
        (if res_Type (cfg_Resolver cfg) \<noteq> ResolverRedis then Some (ModeForbids ''other resolver'')
         else if reg_Type (cfg_Registry cfg) \<noteq> RegistryRedis then Some (ModeForbids ''other registry'') else None)
      else None)"

section \<open>Loading\<close>

definition Load :: "(string \<Rightarrow> string + bytes) \<Rightarrow> (bytes \<Rightarrow> string + AppConfig) \<Rightarrow> string \<Rightarrow> config_err + AppConfig" where
  "Load read_file unmarshal path =
     (case read_file path of
        Inl e \<Rightarrow> Inl (ReadFailed path e)
      | Inr data \<Rightarrow>
          (case unmarshal data of
             Inl e \<Rightarrow> Inl (ParseFailed path e)
           | Inr cfg \<Rightarrow> (case Validate cfg of Some e \<Rightarrow> Inl e | None \<Rightarrow> Inr cfg)))"

definition LoadFromEnv :: "(string \<Rightarrow> string) \<Rightarrow> (string \<Rightarrow> string + bytes) \<Rightarrow> (bytes \<Rightarrow> string + AppConfig)
    \<Rightarrow> config_err + AppConfig" where
  "LoadFromEnv getenv read_file unmarshal =
     (let path = getenv ''CONFIG_PATH'' in if path = [] then Inl EnvNotSet else Load read_file unmarshal path)"

text \<open>The choice of the two server programs.\<close>

definition loadConfig :: "(string \<Rightarrow> string) \<Rightarrow> (string \<Rightarrow> string + bytes) \<Rightarrow> (bytes \<Rightarrow> string + AppConfig) \<Rightarrow> string
    \<Rightarrow> config_err + AppConfig" where
  "loadConfig getenv read_file unmarshal path =
     (if path \<noteq> [] then Load read_file unmarshal path else LoadFromEnv getenv read_file unmarshal)"

section \<open>Lemmas\<close>

lemma not_fle_0: "\<not> fle x (FNum 0) \<longleftrightarrow> x = FNaN \<or> flt (FNum 0) x"
  by (cases x) (auto simp: fle_def)

lemma first_failure: "(case a of None \<Rightarrow> b | Some e \<Rightarrow> Some e) = None \<longleftrightarrow> a = None \<and> b = None"
  by (cases a) auto

lemma bad_listen_addr_iff: "bad_listen_addr a \<longleftrightarrow> CHR '':'' \<notin> set a"
  by (cases a) (auto simp: bad_listen_addr_def HasPrefix_def ContainsChar_def)

lemma Validate_None: "Validate cfg = None \<longleftrightarrow>
    validateDeployment cfg = None \<and> validateGateway cfg = None \<and> validateGame cfg = None
    \<and> validateResolver cfg = None \<and> validateRegistry cfg = None \<and> validateMetrics cfg = None
    \<and> validateSpatial cfg = None \<and> validateInterest cfg = None \<and> validateVoice cfg = None \<and> validateObjectLock cfg = None"
  by (simp add: Validate_def first_failure)

text \<open>What each section must satisfy; a radius that is not a number passes.\<close>

definition game_ok :: "GameConfig \<Rightarrow> bool" where
  "game_ok g \<longleftrightarrow> CHR '':'' \<in> set (gc_KCPAddr g) \<and> (gc_WebSocketAddr g = [] \<or> CHR '':'' \<in> set (gc_WebSocketAddr g))
     \<and> 0 < gc_BroadcastRateHz g \<and> gc_BroadcastRateHz g \<le> gc_TickRateHz g \<and> 0 < gc_MaxPlayersPerRoom g"

definition radius_ok :: "gofloat \<Rightarrow> bool" where
  "radius_ok x \<longleftrightarrow> x = FNaN \<or> flt (FNum 0) x"

lemma validateGame_None: "validateGame cfg = None \<longleftrightarrow> game_ok (cfg_Game cfg)"
  by (auto simp: validateGame_def game_ok_def Let_def bad_listen_addr_iff)

lemma validateInterest_None: "validateInterest cfg = None \<longleftrightarrow>
    (\<forall>x\<in>{is_VisualRadiusM (cfg_Interest cfg), is_ObjectRadiusM (cfg_Interest cfg), is_VoiceRadiusM (cfg_Interest cfg),
       is_FullAvatarRadiusM (cfg_Interest cfg), is_LowLodRadiusM (cfg_Interest cfg)}. radius_ok x)"
  by (auto simp: validateInterest_def Let_def radius_ok_def not_fle_0 [symmetric])

definition demo_config :: AppConfig where
  "demo_config =
     \<lparr>cfg_Deployment = \<lparr>dep_Mode = ''dev''\<rparr>, cfg_Gateway = \<lparr>gw_HTTPAddr = '':8080''\<rparr>,
      cfg_Game = \<lparr>gc_KCPAddr = '':9000'', gc_WebSocketAddr = [], gc_TickRateHz = 20, gc_BroadcastRateHz = 10,
                  gc_MaxPlayersPerRoom = 200\<rparr>,
      cfg_Protocol = \<lparr>prc_Version = 1, prc_Serialization = ''msgpack'', prc_Transport = ''kcp''\<rparr>,
      cfg_Resolver = \<lparr>res_Type = ''single-node'', res_SingleNodeAddr = [], res_SingleNodeWebSocketURL = [], res_RedisAddr = []\<rparr>,
      cfg_Registry = \<lparr>reg_Type = ''memory'', reg_RedisAddr = []\<rparr>,
      cfg_Spatial = \<lparr>spc_CellSizeM = FNum 10\<rparr>,
      cfg_Interest = \<lparr>is_VisualRadiusM = FNum 30, is_ObjectRadiusM = FNum 30, is_VoiceRadiusM = FNum 10,
                      is_FullAvatarRadiusM = FNum 15, is_LowLodRadiusM = FNum 30\<rparr>,
      cfg_Voice = \<lparr>vc_Allocator = ''proximity'', vc_MaxParticipantsPerGroup = 8, vc_RecomputeIntervalMs = 500\<rparr>,
      cfg_ObjectLock = \<lparr>ol_LeaseTTLMs = 5000, ol_RefreshIntervalMs = 1000, ol_MaxLocksPerUser = 3\<rparr>,
      cfg_Metrics = \<lparr>met_Type = ''log''\<rparr>\<rparr>"

lemmas config_consts = ModeDev_def ModeSingleVPS_def ModeDistributedK3s_def ResolverSingleNode_def ResolverRedis_def
  RegistryMemory_def RegistryRedis_def MetricsLog_def MetricsPrometheus_def validModes_def validResolverTypes_def
  validRegistryTypes_def validMetricsTypes_def

lemmas validate_simps = Validate_None validateDeployment_def validateGateway_def validateGame_None game_ok_def
  validateResolver_def validateRegistry_def validateMetrics_def validateSpatial_def validateInterest_None radius_ok_def
  validateVoice_def validateObjectLock_def Let_def bad_listen_addr_iff config_consts

lemma demo_config_valid: "Validate demo_config = None"
  by (simp add: validate_simps demo_config_def)

section \<open>Properties\<close>

text \<open>
  A configuration that loads is usable. Whatever the file holds, if the server obtains a
  configuration from it then the mode and the resolver, registry and metrics types are known ones
  with the addresses they need, all listen addresses have a port separator, the broadcast rate is
  positive and at most the tick rate, and all limits and intervals are positive. Cell size and
  radii are positive or not a number, which the comparisons let through.
\<close>

theorem loaded_config_valid:
  assumes "loadConfig getenv read_file unmarshal path = Inr cfg"
  shows "dep_Mode (cfg_Deployment cfg) \<in> {''dev'', ''single-vps'', ''distributed-k3s''}
    \<and> CHR '':'' \<in> set (gw_HTTPAddr (cfg_Gateway cfg)) \<and> CHR '':'' \<in> set (gc_KCPAddr (cfg_Game cfg))
    \<and> (gc_WebSocketAddr (cfg_Game cfg) = [] \<or> CHR '':'' \<in> set (gc_WebSocketAddr (cfg_Game cfg)))
    \<and> 0 < gc_BroadcastRateHz (cfg_Game cfg) \<and> gc_BroadcastRateHz (cfg_Game cfg) \<le> gc_TickRateHz (cfg_Game cfg)
    \<and> 0 < gc_MaxPlayersPerRoom (cfg_Game cfg)
    \<and> (res_Type (cfg_Resolver cfg) = ''single-node'' \<and> (dep_Mode (cfg_Deployment cfg) = ''dev'' \<or> res_SingleNodeAddr (cfg_Resolver cfg) \<noteq> [])
       \<or> res_Type (cfg_Resolver cfg) = ''redis'' \<and> res_RedisAddr (cfg_Resolver cfg) \<noteq> [])
    \<and> (reg_Type (cfg_Registry cfg) = ''memory'' \<or> reg_Type (cfg_Registry cfg) = ''redis'' \<and> reg_RedisAddr (cfg_Registry cfg) \<noteq> [])
    \<and> met_Type (cfg_Metrics cfg) \<in> {''log'', ''prometheus''}
    \<and> (spc_CellSizeM (cfg_Spatial cfg) = FNaN \<or> flt (FNum 0) (spc_CellSizeM (cfg_Spatial cfg)))
    \<and> 0 < vc_MaxParticipantsPerGroup (cfg_Voice cfg) \<and> 0 < vc_RecomputeIntervalMs (cfg_Voice cfg)
    \<and> 0 < ol_LeaseTTLMs (cfg_ObjectLock cfg) \<and> 0 < ol_RefreshIntervalMs (cfg_ObjectLock cfg)
    \<and> 0 < ol_MaxLocksPerUser (cfg_ObjectLock cfg)"
proof -
  have "Load read_file unmarshal p = Inr cfg \<Longrightarrow> Validate cfg = None" for p
    by (auto simp: Load_def split: sum.splits option.splits)
  then have v: "Validate cfg = None"
    using assms by (auto simp: loadConfig_def LoadFromEnv_def Let_def split: if_splits)
  note d = v [unfolded Validate_None validateGame_None game_ok_def]
  have "dep_Mode (cfg_Deployment cfg) \<in> {''dev'', ''single-vps'', ''distributed-k3s''}"
    using d by (auto simp: validateDeployment_def config_consts Let_def split: if_splits)
  moreover have "CHR '':'' \<in> set (gw_HTTPAddr (cfg_Gateway cfg))"
    using d by (auto simp: validateGateway_def bad_listen_addr_iff Let_def split: if_splits)
  moreover have "res_Type (cfg_Resolver cfg) = ''single-node'' \<and> (dep_Mode (cfg_Deployment cfg) = ''dev'' \<or> res_SingleNodeAddr (cfg_Resolver cfg) \<noteq> [])
       \<or> res_Type (cfg_Resolver cfg) = ''redis'' \<and> res_RedisAddr (cfg_Resolver cfg) \<noteq> []"
    using d by (auto simp: validateResolver_def config_consts Let_def split: if_splits)
  moreover have "reg_Type (cfg_Registry cfg) = ''memory'' \<or> reg_Type (cfg_Registry cfg) = ''redis'' \<and> reg_RedisAddr (cfg_Registry cfg) \<noteq> []"
    using d by (auto simp: validateRegistry_def config_consts Let_def split: if_splits)
  moreover have "met_Type (cfg_Metrics cfg) \<in> {''log'', ''prometheus''}"
    using d by (auto simp: validateMetrics_def config_consts split: if_splits)
  moreover have "spc_CellSizeM (cfg_Spatial cfg) = FNaN \<or> flt (FNum 0) (spc_CellSizeM (cfg_Spatial cfg))"
    using d by (simp add: validateSpatial_def not_fle_0 split: if_splits)
  moreover have "0 < vc_MaxParticipantsPerGroup (cfg_Voice cfg)" "0 < vc_RecomputeIntervalMs (cfg_Voice cfg)"
    using d by (auto simp: validateVoice_def Let_def split: if_splits)
  moreover have "0 < ol_LeaseTTLMs (cfg_ObjectLock cfg)" "0 < ol_RefreshIntervalMs (cfg_ObjectLock cfg)" "0 < ol_MaxLocksPerUser (cfg_ObjectLock cfg)"
    using d by (auto simp: validateObjectLock_def Let_def split: if_splits)
  ultimately show ?thesis using d by blast
qed

theorem loaded_config_valid_witness: "gc_BroadcastRateHz (cfg_Game demo_config) \<le> gc_TickRateHz (cfg_Game demo_config)"
proof -
  have "loadConfig (\<lambda>_. []) (\<lambda>_. Inr [1]) (\<lambda>_. Inr demo_config) ''a.yaml'' = Inr demo_config"
    by (simp add: loadConfig_def Load_def demo_config_valid)
  from loaded_config_valid [OF this] show ?thesis by simp
qed

text \<open>A cell size that is not a number is accepted, although the message says it must be positive.\<close>

lemma nan_cell_size_accepted:
  "Validate (demo_config\<lparr>cfg_Spatial := \<lparr>spc_CellSizeM = FNaN\<rparr>\<rparr>) = None"
  by (simp add: validate_simps not_fle_0 demo_config_def)

text \<open>
  The mode constraints are not part of loading: a distributed deployment with a single-node
  resolver loads, although \<^verbatim>\<open>ValidateModeConstraints\<close> refuses it.
\<close>

lemma mode_constraints_not_loaded:
  "\<exists>cfg. Validate cfg = None \<and> ValidateModeConstraints cfg \<noteq> None"
proof -
  let ?c = "demo_config\<lparr>cfg_Deployment := \<lparr>dep_Mode = ''distributed-k3s''\<rparr>,
    cfg_Resolver := (cfg_Resolver demo_config)\<lparr>res_SingleNodeAddr := ''10.0.0.1:9000''\<rparr>\<rparr>"
  have "Validate ?c = None"
    by (simp add: validate_simps demo_config_def)
  moreover have "ValidateModeConstraints ?c \<noteq> None"
    by (simp add: ValidateModeConstraints_def demo_config_def config_consts)
  ultimately show ?thesis by blast
qed

end
