(* ===== verification/Gateway.thy ===== *)
theory Gateway
  imports Protocol Session
begin

text \<open>
  The gateway (\<^verbatim>\<open>internal/gateway\<close>): assignment of a node to a logical room, session tokens and the
  \<^verbatim>\<open>/join\<close> endpoint. The JSON decoder and the random source are arguments: a failed read of
  randomness is \<open>None\<close>. \<^verbatim>\<open>net/http\<close> routing and JSON output are not modelled; a handler returns the
  status and the value it encodes.
\<close>

section \<open>Resolver\<close>

record NodeAssignment =
  na_RoomInstanceID :: string
  na_GameNodeAddr :: string
  na_KCPAddr :: string
  na_WebSocketURL :: string
  na_ProtocolVersion :: u16
  na_ExpiresAt :: time

record SingleNodeResolver =
  snr_kcpAddr :: string
  snr_websocketURL :: string
  snr_protocolVersion :: u16
  snr_tokenTTL :: duration

definition NewSingleNodeResolver :: "string \<Rightarrow> string \<Rightarrow> int \<Rightarrow> SingleNodeResolver" where
  "NewSingleNodeResolver kcpAddr websocketURL protocolVersion =
     \<lparr>snr_kcpAddr = kcpAddr, snr_websocketURL = websocketURL, snr_protocolVersion = word_of_int protocolVersion,
      snr_tokenTTL = 5 * 60 * 1000000000\<rparr>"

text \<open>A number below 10000, or a nil \<^verbatim>\<open>big.Int\<close> when the random source fails, since the error is dropped.\<close>

definition gateway_instance_id :: "nat option \<Rightarrow> string \<Rightarrow> string" where
  "gateway_instance_id random logicalRoomID =
     logicalRoomID @ ''-'' @ (case random of Some n \<Rightarrow> print_0d 4 n | None \<Rightarrow> ''<nil>'')"

definition ResolveRoom :: "nat option \<Rightarrow> time \<Rightarrow> string \<Rightarrow> SingleNodeResolver \<Rightarrow> NodeAssignment" where
  "ResolveRoom random now logicalRoomID r =
     \<lparr>na_RoomInstanceID = gateway_instance_id random logicalRoomID, na_GameNodeAddr = snr_kcpAddr r,
      na_KCPAddr = snr_kcpAddr r, na_WebSocketURL = snr_websocketURL r, na_ProtocolVersion = snr_protocolVersion r,
      na_ExpiresAt = now + snr_tokenTTL r\<rparr>"

section \<open>Tokens\<close>

definition tokenBytes :: nat where "tokenBytes = 32"

definition hex_digit :: "nat \<Rightarrow> char" where
  "hex_digit n = (if n < 10 then char_of (48 + n) else char_of (87 + n))"

definition EncodeToString :: "bytes \<Rightarrow> string" where
  "EncodeToString bs = concat (map (\<lambda>b. [hex_digit (unat b div 16), hex_digit (unat b mod 16)]) bs)"

text \<open>The argument is the slice of \<^verbatim>\<open>tokenBytes\<close> random bytes.\<close>

definition Generate :: "bytes option \<Rightarrow> string + string" where
  "Generate random = (case random of None \<Rightarrow> Inl ''random source failed'' | Some b \<Rightarrow> Inr (EncodeToString b))"

section \<open>The join endpoint\<close>

definition platformNative :: string where "platformNative = ''native''"
definition platformWebGL :: string where "platformWebGL = ''webgl''"
definition transportKCP :: string where "transportKCP = ''kcp''"
definition transportWSS :: string where "transportWSS = ''websocket''"

record JoinRequest =
  jq_UserID :: string
  jq_LogicalRoomID :: string
  jq_ClientProtocolVersion :: u16
  jq_ClientPlatform :: string
  jq_RequestedTransport :: string

record JoinResponse =
  jp_RoomInstanceID :: string
  jp_GameNodeAddr :: string
  jp_ProtocolVersion :: u16
  jp_SessionToken :: string
  jp_Transport :: string
  jp_KCPAddr :: string
  jp_WebSocketURL :: string
  jp_ExpiresAt :: time

record ErrorResponse =
  er_Error :: string
  er_Code :: string

datatype http_reply = JoinOK JoinResponse | StatusReply nat string | ErrorReply nat ErrorResponse

definition writeError :: "nat \<Rightarrow> string \<Rightarrow> string \<Rightarrow> http_reply" where
  "writeError st msg code = ErrorReply st \<lparr>er_Error = msg, er_Code = code\<rparr>"

definition handleHealthz :: http_reply where "handleHealthz = StatusReply 200 ''ok''"
definition handleReadyz :: http_reply where "handleReadyz = StatusReply 200 ''ready''"

definition supportedVersionRange :: "u16 \<times> u16" where
  "supportedVersionRange = (MinVersion, MaxVersion)"

datatype transport_err = UnsupportedRequested string | WebGLWithKCP | UnknownPlatform string

fun transport_err_text :: "transport_err \<Rightarrow> string" where
  "transport_err_text (UnsupportedRequested t) = ''unsupported requested_transport '' @ t"
| "transport_err_text WebGLWithKCP = ''webgl clients cannot use kcp transport''"
| "transport_err_text (UnknownPlatform p) = ''unknown platform '' @ p"

definition resolveTransport :: "string \<Rightarrow> string \<Rightarrow> transport_err + string" where
  "resolveTransport platform requested =
     (if requested \<noteq> [] then
        (if requested \<noteq> transportKCP \<and> requested \<noteq> transportWSS then Inl (UnsupportedRequested requested)
         else if platform = platformWebGL \<and> requested = transportKCP then Inl WebGLWithKCP
         else Inr requested)
      else if platform = platformNative then Inr transportKCP
      else if platform = platformWebGL then Inr transportWSS
      else Inl (UnknownPlatform platform))"

definition join_response :: "string \<Rightarrow> NodeAssignment \<Rightarrow> string \<Rightarrow> JoinResponse" where
  "join_response transport assignment tok =
     (let resp = \<lparr>jp_RoomInstanceID = na_RoomInstanceID assignment, jp_GameNodeAddr = na_GameNodeAddr assignment,
                  jp_ProtocolVersion = na_ProtocolVersion assignment, jp_SessionToken = tok,
                  jp_Transport = transport, jp_KCPAddr = [], jp_WebSocketURL = [], jp_ExpiresAt = na_ExpiresAt assignment\<rparr>
      in if transport = transportKCP then resp\<lparr>jp_KCPAddr := na_KCPAddr assignment\<rparr>
         else if transport = transportWSS then resp\<lparr>jp_WebSocketURL := na_WebSocketURL assignment\<rparr>
         else resp)"

text \<open>
  The resolver behind the interface is an argument; \<open>body\<close> is the decoded request, \<open>None\<close> when it is
  not valid JSON.
\<close>

definition handleJoin :: "(string \<Rightarrow> string + NodeAssignment) \<Rightarrow> bytes option \<Rightarrow> JoinRequest option \<Rightarrow> http_reply" where
  "handleJoin resolve random body =
     (case body of
        None \<Rightarrow> writeError 400 ''invalid request body'' ''bad_request''
      | Some req \<Rightarrow>
          if jq_UserID req = [] then writeError 400 ''user_id is required'' ''missing_user_id''
          else if jq_LogicalRoomID req = [] then writeError 400 ''logical_room_id is required'' ''missing_logical_room_id''
          else if jq_ClientProtocolVersion req < fst supportedVersionRange \<or> jq_ClientProtocolVersion req > snd supportedVersionRange
               then writeError 400 ''unsupported protocol version'' ''unsupported_version''
          else if jq_ClientPlatform req = [] then writeError 400 ''client_platform is required'' ''missing_client_platform''
          else if jq_ClientPlatform req \<noteq> platformNative \<and> jq_ClientPlatform req \<noteq> platformWebGL
               then writeError 400 ''unsupported client platform'' ''unsupported_platform''
          else (case resolveTransport (jq_ClientPlatform req) (jq_RequestedTransport req) of
                  Inl e \<Rightarrow> writeError 400 (transport_err_text e) ''unsupported_transport''
                | Inr transport \<Rightarrow>
                    (case resolve (jq_LogicalRoomID req) of
                       Inl _ \<Rightarrow> writeError 500 ''internal resolver error'' ''resolver_error''
                     | Inr assignment \<Rightarrow>
                         if transport = transportWSS \<and> na_WebSocketURL assignment = []
                         then writeError 400 ''websocket transport not available'' ''unsupported_transport''
                         else (case Generate random of
                                 Inl _ \<Rightarrow> writeError 500 ''internal token error'' ''token_error''
                               | Inr tok \<Rightarrow> JoinOK (join_response transport assignment tok)))))"

section \<open>Lemmas\<close>

lemma hex_digit_inj:
  assumes "m < 16" "n < 16" "hex_digit m = hex_digit n"
  shows "m = n"
proof -
  have code: "k < 16 \<Longrightarrow> of_char (hex_digit k) = (if k < 10 then 48 + k else 87 + k)" for k
    by (simp add: hex_digit_def)
  have "(if m < 10 then 48 + m else 87 + m) = (if n < 10 then 48 + n else 87 + n)"
    using code [OF assms(1)] code [OF assms(2)] assms(3) by simp
  then show ?thesis by (auto split: if_splits)
qed

lemma length_EncodeToString: "length (EncodeToString bs) = 2 * length bs"
  by (induction bs) (simp_all add: EncodeToString_def)

lemma EncodeToString_inj: "EncodeToString a = EncodeToString b \<Longrightarrow> a = b"
proof (induction a arbitrary: b)
  case Nil
  then have "length (EncodeToString b) = 0" by (simp add: EncodeToString_def)
  then show ?case by (simp add: length_EncodeToString)
next
  case (Cons x xs)
  have "length b = Suc (length xs)"
    using arg_cong [OF Cons.prems, of length] by (simp add: length_EncodeToString)
  then obtain y ys where b: "b = y # ys" by (cases b) auto
  have lt: "unat (z::8 word) div 16 < 16" "unat z mod 16 < 16" for z using unsigned_less [of z, where ?'a = nat] by auto
  have "unat x div 16 = unat y div 16" "unat x mod 16 = unat y mod 16"
    using Cons.prems b hex_digit_inj lt by (auto simp: EncodeToString_def)
  then have "unat x = unat y" by (metis div_mult_mod_eq)
  moreover have "xs = ys" using Cons.IH [of ys] Cons.prems b by (simp add: EncodeToString_def)
  ultimately show ?case using b by (simp add: word_unat_eq_iff)
qed

lemma version_range:
  "v < fst supportedVersionRange \<or> v > snd supportedVersionRange \<longleftrightarrow> v \<noteq> 1"
  by (auto simp: supportedVersionRange_def MinVersion_def MaxVersion_def linorder_neq_iff)

text \<open>The transport a client asks for, and when it can have it.\<close>

definition wanted_transport :: "JoinRequest \<Rightarrow> string" where
  "wanted_transport req =
     (if jq_RequestedTransport req \<noteq> [] then jq_RequestedTransport req
      else if jq_ClientPlatform req = ''webgl'' then ''websocket'' else ''kcp'')"

definition transport_ok :: "JoinRequest \<Rightarrow> bool" where
  "transport_ok req \<longleftrightarrow> wanted_transport req = ''websocket''
     \<or> wanted_transport req = ''kcp'' \<and> jq_ClientPlatform req \<noteq> ''webgl''"

lemma resolveTransport_spec:
  assumes "jq_ClientPlatform req \<in> {''native'', ''webgl''}"
  shows "resolveTransport (jq_ClientPlatform req) (jq_RequestedTransport req) = Inr t \<longleftrightarrow> transport_ok req \<and> t = wanted_transport req"
  using assms by (auto simp: resolveTransport_def transport_ok_def wanted_transport_def platformNative_def platformWebGL_def
      transportKCP_def transportWSS_def)

definition join_guards :: "JoinRequest \<Rightarrow> bool" where
  "join_guards req \<longleftrightarrow> jq_UserID req \<noteq> [] \<and> jq_LogicalRoomID req \<noteq> [] \<and> jq_ClientProtocolVersion req = 1
     \<and> jq_ClientPlatform req \<in> {''native'', ''webgl''}"

lemma handleJoin_guarded:
  "handleJoin resolve random (Some req) = JoinOK resp \<longleftrightarrow> join_guards req \<and>
    (case resolveTransport (jq_ClientPlatform req) (jq_RequestedTransport req) of
       Inl e \<Rightarrow> False
     | Inr t \<Rightarrow> (case resolve (jq_LogicalRoomID req) of
         Inl _ \<Rightarrow> False
       | Inr a \<Rightarrow> \<not> (t = transportWSS \<and> na_WebSocketURL a = []) \<and>
           (case Generate random of Inl _ \<Rightarrow> False | Inr tok \<Rightarrow> resp = join_response t a tok)))"
proof (cases "join_guards req")
  case True
  then show ?thesis
    unfolding handleJoin_def join_guards_def version_range option.case platformNative_def platformWebGL_def
    by (cases "resolveTransport (jq_ClientPlatform req) (jq_RequestedTransport req)";
        cases "resolve (jq_LogicalRoomID req)"; cases "Generate random") (auto simp: writeError_def)
next
  case False
  then consider "jq_UserID req = []" | "jq_LogicalRoomID req = []" | "jq_ClientProtocolVersion req \<noteq> 1"
    | "jq_ClientPlatform req \<notin> {''native'', ''webgl''}" by (auto simp: join_guards_def)
  then have "handleJoin resolve random (Some req) \<noteq> JoinOK resp"
    unfolding handleJoin_def version_range option.case platformNative_def platformWebGL_def
    by cases (simp_all add: writeError_def)
  with False show ?thesis by simp
qed

lemma handleJoin_iff:
  "handleJoin resolve random (Some req) = JoinOK resp \<longleftrightarrow> join_guards req \<and> transport_ok req \<and>
    (\<exists>a b. resolve (jq_LogicalRoomID req) = Inr a \<and> (wanted_transport req = ''websocket'' \<longrightarrow> na_WebSocketURL a \<noteq> [])
       \<and> random = Some b \<and> resp = join_response (wanted_transport req) a (EncodeToString b))"
proof (cases "join_guards req")
  case True
  then have "jq_ClientPlatform req \<in> {''native'', ''webgl''}" by (simp add: join_guards_def)
  note t = resolveTransport_spec [OF this]
  show ?thesis
  proof (cases "resolveTransport (jq_ClientPlatform req) (jq_RequestedTransport req)")
    case (Inl e)
    then have "\<not> transport_ok req" using t by auto
    then show ?thesis using Inl by (simp add: handleJoin_guarded)
  next
    case (Inr tr)
    then have "transport_ok req" "tr = wanted_transport req" using t by simp_all
    then show ?thesis using Inr True
      by (cases "resolve (jq_LogicalRoomID req)"; cases random) (simp_all add: handleJoin_guarded Generate_def transportWSS_def)
  qed
qed (simp add: handleJoin_guarded)

section \<open>Properties\<close>

text \<open>
  C35: What the join endpoint hands out. With the single-node resolver a request succeeds exactly if
  it names a user and a logical room, speaks protocol version 1 and comes from a known platform
  with a transport that platform can use, and the server has a websocket address if that is
  the transport. The reply then names an instance of the requested room, exactly the address of
  that transport, a token of 64 characters that determines the random bytes, and an expiry five
  minutes ahead; a browser is never sent to KCP.
\<close>

theorem join_exact:
  assumes "length b = tokenBytes" and "r = NewSingleNodeResolver kcp ws v"
    and "reply = handleJoin (\<lambda>l. Inr (ResolveRoom (Some n) now l r)) (Some b) (Some req)"
  shows "((\<exists>resp. reply = JoinOK resp) \<longleftrightarrow>
      jq_UserID req \<noteq> [] \<and> jq_LogicalRoomID req \<noteq> [] \<and> jq_ClientProtocolVersion req = 1
      \<and> jq_ClientPlatform req \<in> {''native'', ''webgl''}
      \<and> (wanted_transport req = ''websocket'' \<and> ws \<noteq> [] \<or> wanted_transport req = ''kcp'' \<and> jq_ClientPlatform req = ''native''))
    \<and> (\<forall>resp. reply = JoinOK resp \<longrightarrow>
        jp_Transport resp = wanted_transport req
        \<and> jp_KCPAddr resp = (if wanted_transport req = ''kcp'' then kcp else [])
        \<and> jp_WebSocketURL resp = (if wanted_transport req = ''websocket'' then ws else [])
        \<and> jp_RoomInstanceID resp = jq_LogicalRoomID req @ ''-'' @ print_0d 4 n
        \<and> jp_ProtocolVersion resp = word_of_int v \<and> jp_ExpiresAt resp = now + 300000000000
        \<and> length (jp_SessionToken resp) = 64 \<and> (\<forall>b'. jp_SessionToken resp = EncodeToString b' \<longleftrightarrow> b' = b))"
proof -
  let ?a = "ResolveRoom (Some n) now (jq_LogicalRoomID req) r"
  have ok: "reply = JoinOK resp \<longleftrightarrow> join_guards req \<and> transport_ok req \<and> (wanted_transport req = ''websocket'' \<longrightarrow> ws \<noteq> [])
      \<and> resp = join_response (wanted_transport req) ?a (EncodeToString b)" for resp
    by (simp add: assms(2,3) handleJoin_iff ResolveRoom_def NewSingleNodeResolver_def)
  have "(\<exists>resp. reply = JoinOK resp) \<longleftrightarrow> join_guards req \<and> transport_ok req \<and> (wanted_transport req = ''websocket'' \<longrightarrow> ws \<noteq> [])"
    unfolding ok by blast
  then have "(\<exists>resp. reply = JoinOK resp) \<longleftrightarrow> join_guards req
      \<and> (wanted_transport req = ''websocket'' \<and> ws \<noteq> [] \<or> wanted_transport req = ''kcp'' \<and> jq_ClientPlatform req = ''native'')"
    by (auto simp: transport_ok_def join_guards_def)
  moreover have "jp_SessionToken (join_response t ?a k) = k" "jp_Transport (join_response t ?a k) = t"
      "jp_KCPAddr (join_response t ?a k) = (if t = ''kcp'' then kcp else [])"
      "jp_WebSocketURL (join_response t ?a k) = (if t = ''websocket'' then ws else [])"
      "jp_RoomInstanceID (join_response t ?a k) = jq_LogicalRoomID req @ ''-'' @ print_0d 4 n"
      "jp_ProtocolVersion (join_response t ?a k) = word_of_int v" "jp_ExpiresAt (join_response t ?a k) = now + 300000000000" for t k
    by (simp_all add: join_response_def ResolveRoom_def gateway_instance_id_def assms(2) NewSingleNodeResolver_def
        transportKCP_def transportWSS_def Let_def)
  moreover have "length (EncodeToString b) = 64" "\<And>b'. EncodeToString b = EncodeToString b' \<longleftrightarrow> b' = b"
    using assms(1) EncodeToString_inj by (auto simp: length_EncodeToString tokenBytes_def)
  ultimately show ?thesis by (simp add: ok join_guards_def)
qed

theorem join_exact_witness:
  "\<exists>resp. handleJoin (\<lambda>l. Inr (ResolveRoom (Some 7) 0 l (NewSingleNodeResolver ''h:9000'' [] 1))) (Some (replicate 32 0))
     (Some \<lparr>jq_UserID = ''u1'', jq_LogicalRoomID = ''expo'', jq_ClientProtocolVersion = 1, jq_ClientPlatform = ''native'',
            jq_RequestedTransport = []\<rparr>) = JoinOK resp"
  by (rule join_exact [OF _ refl refl, THEN conjunct1, THEN iffD2]) (simp_all add: tokenBytes_def wanted_transport_def)

text \<open>
  Two players who join the same logical room are sent to the same instance only if the random numbers
  happen to agree: the resolver keeps no record of the instances it has assigned.
\<close>

lemma joins_are_scattered:
  "na_RoomInstanceID (ResolveRoom (Some m) now l r) = na_RoomInstanceID (ResolveRoom (Some n) now' l r) \<longleftrightarrow> m = n"
  using dashed_inj [of l 4 m l n] by (auto simp: ResolveRoom_def gateway_instance_id_def)

end
