(* ===== verification/Programs.thy ===== *)
theory Programs
  imports WebSocket Config Gateway
begin

text \<open>
  The three programs (\<^verbatim>\<open>cmd/\<close>), the gateway's HTTP server and the logger's level
  (\<^verbatim>\<open>internal/gateway/http/server.go\<close>, \<^verbatim>\<open>internal/observability\<close>): how the packages are put together, what
  a program refuses to start with, and its exit status. Flags are parsed, files read, sockets
  opened and signals delivered outside; their outcomes are arguments.
\<close>

section \<open>Logger\<close>

datatype Level = LevelDebug | LevelInfo | LevelWarn | LevelError

definition parseLevel :: "string \<Rightarrow> Level \<times> bool" where
  "parseLevel s =
     (if s = ''debug'' then (LevelDebug, True)
      else if s = ''info'' then (LevelInfo, True)
      else if s = ''warn'' then (LevelWarn, True)
      else if s = ''error'' then (LevelError, True)
      else (LevelInfo, False))"

definition InitLogger_level :: "string \<Rightarrow> Level" where
  "InitLogger_level levelStr =
     (case parseLevel levelStr of (level, ok) \<Rightarrow> if \<not> ok then LevelInfo else level)"

section \<open>config-check\<close>

datatype check_line = FailLoad string config_err | FailMode string config_err | OkLine string string string string

definition default_paths :: "string list" where
  "default_paths =
     [''config/dev.example.yaml'', ''config/single-vps.example.yaml'', ''config/distributed-k3s.example.yaml'',
      ''deployments/dev/config/dev.yaml'', ''deployments/single-vps/config/production.single-vps.yaml'',
      ''deployments/distributed-k3s/config/production.distributed-k3s.yaml'']"

text \<open>One round of the loop: the status so far and the lines printed so far.\<close>

definition check_path :: "(string \<Rightarrow> string + bytes) \<Rightarrow> (bytes \<Rightarrow> string + AppConfig) \<Rightarrow> string
    \<Rightarrow> bool \<times> check_line list \<Rightarrow> bool \<times> check_line list" where
  "check_path read_file unmarshal p st =
     (case st of (ok, out) \<Rightarrow>
       (case Load read_file unmarshal p of
          Inl e \<Rightarrow> (False, out @ [FailLoad p e])
        | Inr cfg \<Rightarrow>
            (case ValidateModeConstraints cfg of
               Some e \<Rightarrow> (False, out @ [FailMode p e])
             | None \<Rightarrow> (ok, out @ [OkLine p (dep_Mode (cfg_Deployment cfg)) (res_Type (cfg_Resolver cfg)) (reg_Type (cfg_Registry cfg))]))))"

definition checked_paths :: "string list \<Rightarrow> string list" where
  "checked_paths args = (if length args > 1 then tl args else default_paths)"

definition config_check_main :: "(string \<Rightarrow> string + bytes) \<Rightarrow> (bytes \<Rightarrow> string + AppConfig) \<Rightarrow> string list
    \<Rightarrow> check_line list \<times> nat" where
  "config_check_main read_file unmarshal args =
     (let paths = checked_paths args
      in case fold (check_path read_file unmarshal) paths (True, []) of (ok, out) \<Rightarrow> (out, if \<not> ok then 1 else 0))"

section \<open>game-server\<close>

datatype start_err = ConfigError config_err | KCPInit net_err | KCPStart net_err | WSSInit net_err | WSSStart net_err

text \<open>What the network does at start-up: which addresses resolve, and whether the sockets open.\<close>

record start_env =
  se_udp :: "string \<Rightarrow> bool"
  se_tcp :: "string \<Rightarrow> bool"
  se_udp_listens :: bool
  se_tcp_listens :: bool

text \<open>\<^verbatim>\<open>Start\<close> as a whole: the critical section and the goroutine it starts.\<close>

definition kcp_Start_call :: "bool \<Rightarrow> kcp_server \<Rightarrow> net_err + kcp_server \<times> goroutine list" where
  "kcp_Start_call listens s =
     (case kcp_Start listens s of
        (Some e, _) \<Rightarrow> Inl e
      | (None, s') \<Rightarrow> Inr (s'\<lparr>sv_wg := sv_wg s' + 1\<rparr>, [AcceptLoop (sv_ctx s)]))"

definition wss_Start_call :: "bool \<Rightarrow> wss_server \<Rightarrow> net_err + wss_server \<times> goroutine list" where
  "wss_Start_call listens s =
     (case wss_Start listens s of
        (Some e, _) \<Rightarrow> Inl e
      | (None, s') \<Rightarrow> Inr (fst (wss_Start_go (sv_ctx s) (fst (wss_Start_http (sv_ctx s) s'))), [Serve (sv_ctx s)]))"

definition game_kcp_config :: "AppConfig \<Rightarrow> kcp_ServerConfig" where
  "game_kcp_config cfg = \<lparr>kc_ListenAddr = gc_KCPAddr (cfg_Game cfg), kc_MaxPacketSize = 0, kc_ReadTimeout = 0,
     kc_WriteTimeout = 0, kc_SendQueueSize = 0\<rparr>"

definition game_wss_config :: "AppConfig \<Rightarrow> wss_ServerConfig" where
  "game_wss_config cfg = \<lparr>wc_ListenAddr = gc_WebSocketAddr (cfg_Game cfg), wc_TLSCertFile = [], wc_TLSKeyFile = [],
     wc_AllowedOrigins = [], wc_MaxPayloadSize = 0, wc_ReadTimeout = 0, wc_WriteTimeout = 0, wc_SendQueueSize = 0,
     wc_DevMode = (dep_Mode (cfg_Deployment cfg) = ModeDev)\<rparr>"

definition start_kcp :: "start_env \<Rightarrow> AppConfig \<Rightarrow> start_err + kcp_server \<times> goroutine list" where
  "start_kcp env cfg =
     (case kcp_NewServer (se_udp env) 0 (game_kcp_config cfg) True of
        Inl e \<Rightarrow> Inl (KCPInit e)
      | Inr s \<Rightarrow> (case kcp_Start_call (se_udp_listens env) s of Inl e \<Rightarrow> Inl (KCPStart e) | Inr r \<Rightarrow> Inr r))"

definition start_wss :: "start_env \<Rightarrow> AppConfig \<Rightarrow> start_err + (wss_server \<times> goroutine list) option" where
  "start_wss env cfg =
     (if gc_WebSocketAddr (cfg_Game cfg) \<noteq> [] then
        (case wss_NewServer (se_tcp env) 0 (game_wss_config cfg) True of
           Inl e \<Rightarrow> Inl (WSSInit e)
         | Inr s \<Rightarrow> (case wss_Start_call (se_tcp_listens env) s of Inl e \<Rightarrow> Inl (WSSStart e) | Inr r \<Rightarrow> Inr (Some r)))
      else Inr None)"

definition game_server_start :: "(string \<Rightarrow> string) \<Rightarrow> (string \<Rightarrow> string + bytes) \<Rightarrow> (bytes \<Rightarrow> string + AppConfig) \<Rightarrow> start_env
    \<Rightarrow> string \<Rightarrow> start_err + (kcp_server \<times> goroutine list) \<times> (wss_server \<times> goroutine list) option" where
  "game_server_start getenv read_file unmarshal env configPath =
     (case loadConfig getenv read_file unmarshal configPath of
        Inl e \<Rightarrow> Inl (ConfigError e)
      | Inr cfg \<Rightarrow>
          (case start_kcp env cfg of
             Inl e \<Rightarrow> Inl e
           | Inr k \<Rightarrow> (case start_wss env cfg of Inl e \<Rightarrow> Inl e | Inr w \<Rightarrow> Inr (k, w))))"

section \<open>gateway\<close>

datatype endpoint = Healthz | Readyz | Join

definition gateway_routes :: "(string \<times> endpoint) list" where
  "gateway_routes = [(''GET /healthz'', Healthz), (''GET /readyz'', Readyz), (''POST /join'', Join)]"

definition gateway_handle :: "(string \<Rightarrow> string + NodeAssignment) \<Rightarrow> endpoint \<Rightarrow> bytes option \<Rightarrow> JoinRequest option \<Rightarrow> http_reply" where
  "gateway_handle resolve e random body =
     (case e of Healthz \<Rightarrow> handleHealthz | Readyz \<Rightarrow> handleReadyz | Join \<Rightarrow> handleJoin resolve random body)"

text \<open>\<^verbatim>\<open>ListenAndServe\<close> always returns an error, \<^verbatim>\<open>ErrServerClosed\<close> after \<^verbatim>\<open>Shutdown\<close>.\<close>

datatype serve_err = ErrServerClosed | ServeError string

definition gateway_Start :: "serve_err \<Rightarrow> string option" where
  "gateway_Start e = (case e of ErrServerClosed \<Rightarrow> None | ServeError m \<Rightarrow> Some m)"

datatype gateway_err = GatewayConfigError config_err | UnsupportedResolver string

record gateway_server =
  gs_addr :: string
  gs_resolver :: SingleNodeResolver

definition gateway_setup :: "(string \<Rightarrow> string) \<Rightarrow> (string \<Rightarrow> string + bytes) \<Rightarrow> (bytes \<Rightarrow> string + AppConfig) \<Rightarrow> string
    \<Rightarrow> gateway_err + gateway_server" where
  "gateway_setup getenv read_file unmarshal configPath =
     (case loadConfig getenv read_file unmarshal configPath of
        Inl e \<Rightarrow> Inl (GatewayConfigError e)
      | Inr cfg \<Rightarrow>
          if res_Type (cfg_Resolver cfg) = ResolverSingleNode then
            Inr \<lparr>gs_addr = gw_HTTPAddr (cfg_Gateway cfg),
                 gs_resolver = NewSingleNodeResolver (res_SingleNodeAddr (cfg_Resolver cfg))
                   (res_SingleNodeWebSocketURL (cfg_Resolver cfg)) (prc_Version (cfg_Protocol cfg))\<rparr>
          else Inl (UnsupportedResolver (res_Type (cfg_Resolver cfg))))"

text \<open>What ends the running program: the serve goroutine reports, or a signal and the result of \<^verbatim>\<open>Shutdown\<close>.\<close>

datatype gateway_event = Served serve_err | Signalled "string option"

text \<open>
  The goroutine sends only a non-nil error, so a report of \<^verbatim>\<open>ErrServerClosed\<close> does not end the program:
  it has no exit status.
\<close>

definition gateway_exit :: "gateway_event \<Rightarrow> nat option" where
  "gateway_exit ev =
     (case ev of
        Served e \<Rightarrow> (case gateway_Start e of None \<Rightarrow> None | Some m \<Rightarrow> Some 1)
      | Signalled (Some m) \<Rightarrow> Some 1
      | Signalled None \<Rightarrow> Some 0)"

section \<open>Lemmas\<close>

text \<open>What is said about one file, and when it passes.\<close>

definition verdict :: "(string \<Rightarrow> string + bytes) \<Rightarrow> (bytes \<Rightarrow> string + AppConfig) \<Rightarrow> string \<Rightarrow> check_line" where
  "verdict rf um p =
     (case Load rf um p of
        Inl e \<Rightarrow> FailLoad p e
      | Inr cfg \<Rightarrow>
          (case ValidateModeConstraints cfg of
             Some e \<Rightarrow> FailMode p e
           | None \<Rightarrow> OkLine p (dep_Mode (cfg_Deployment cfg)) (res_Type (cfg_Resolver cfg)) (reg_Type (cfg_Registry cfg))))"

definition passes :: "(string \<Rightarrow> string + bytes) \<Rightarrow> (bytes \<Rightarrow> string + AppConfig) \<Rightarrow> string \<Rightarrow> bool" where
  "passes rf um p \<longleftrightarrow> (\<exists>cfg. Load rf um p = Inr cfg \<and> ValidateModeConstraints cfg = None)"

lemma check_path_verdict: "check_path rf um p (ok, out) = (ok \<and> passes rf um p, out @ [verdict rf um p])"
  by (auto simp: check_path_def verdict_def passes_def split: sum.split option.split)

lemma check_fold: "fold (check_path rf um) ps (ok, out) = (ok \<and> (\<forall>p\<in>set ps. passes rf um p), out @ map (verdict rf um) ps)"
  by (induction ps arbitrary: ok out) (auto simp: check_path_verdict)

lemma kcp_Start_call_script:
  "kcp_Start_call listens s = Inr r \<Longrightarrow> run_script kcp_go kcp_call [Call (StartCall listens), Go 0 Ok] (s, []) = Some r"
  by (auto simp: kcp_Start_call_def kcp_call_def kcp_go_def kcp_Start_def split: if_splits)

lemma wss_Start_call_script:
  "wss_Start_call listens s = Inr r \<Longrightarrow> run_script wss_go wss_call [Call (StartCall listens), Go 0 Ok, Go 0 Ok] (s, []) = Some r"
  by (auto simp: wss_Start_call_def wss_call_def wss_go_def wss_Start_def wss_Start_go_def wss_Start_http_def split: if_splits)

text \<open>A game server that starts has made these two calls.\<close>

lemma game_server_calls:
  assumes "game_server_start getenv rf um env path = Inr (k, w)"
  obtains cfg where "loadConfig getenv rf um path = Inr cfg"
    and "kcp_Start_call (se_udp_listens env) (kcp_new 0 (game_kcp_config cfg)) = Inr k"
    and "w = None \<longleftrightarrow> gc_WebSocketAddr (cfg_Game cfg) = []"
    and "\<And>v. w = Some v \<Longrightarrow> wss_Start_call (se_tcp_listens env) (wss_new 0 (game_wss_config cfg)) = Inr v"
proof -
  obtain cfg where cfg: "loadConfig getenv rf um path = Inr cfg" "start_kcp env cfg = Inr k" "start_wss env cfg = Inr w"
    using assms by (auto simp: game_server_start_def split: sum.splits)
  show thesis
  proof (rule that [OF cfg(1)])
    show "kcp_Start_call (se_udp_listens env) (kcp_new 0 (game_kcp_config cfg)) = Inr k"
      using cfg(2) by (auto simp: start_kcp_def kcp_NewServer_def split: sum.splits option.splits)
    show "w = None \<longleftrightarrow> gc_WebSocketAddr (cfg_Game cfg) = []"
      using cfg(3) by (auto simp: start_wss_def split: sum.splits if_splits)
    show "wss_Start_call (se_tcp_listens env) (wss_new 0 (game_wss_config cfg)) = Inr v" if "w = Some v" for v
      using cfg(3) that by (auto simp: start_wss_def wss_NewServer_def split: sum.splits option.splits if_splits)
  qed
qed

section \<open>Properties\<close>

text \<open>
  \<^verbatim>\<open>config-check\<close> succeeds exactly when every file it is given (or, without arguments, every one of
  its default list) loads and satisfies the constraints of its mode, and it prints one line per
  file, in order, that says which.
\<close>

theorem config_check_exact:
  "fst (config_check_main rf um args) = map (verdict rf um) (checked_paths args)
   \<and> (snd (config_check_main rf um args) = 0 \<longleftrightarrow>
        list_all (\<lambda>p. \<exists>cfg. Load rf um p = Inr cfg \<and> ValidateModeConstraints cfg = None) (checked_paths args))"
  by (simp add: config_check_main_def check_fold passes_def list_all_iff Let_def)


definition start_demo_env :: start_env where
  "start_demo_env = \<lparr>se_udp = (\<lambda>_. True), se_tcp = (\<lambda>_. True), se_udp_listens = True, se_tcp_listens = True\<rparr>"

lemma demo_server_starts:
  "\<exists>k ks. game_server_start (\<lambda>_. []) (\<lambda>_. Inr [1]) (\<lambda>_. Inr demo_config) start_demo_env ''a.yaml'' = Inr ((k, ks), None)"
proof -
  have "loadConfig (\<lambda>_. []) (\<lambda>_. Inr [1]) (\<lambda>_. Inr demo_config) ''a.yaml'' = Inr demo_config"
    by (simp add: loadConfig_def Load_def demo_config_valid)
  then show ?thesis
    by (simp add: game_server_start_def start_kcp_def start_wss_def kcp_NewServer_def kcp_Validate_def game_kcp_config_def
        kcp_Start_call_def kcp_Start_def kcp_new_def start_demo_env_def demo_config_def)
qed


text \<open>The gateway only starts with the single-node resolver, although the configuration may name another.\<close>

lemma gateway_refuses_redis:
  "loadConfig getenv rf um path = Inr cfg \<Longrightarrow>
   gateway_setup getenv rf um path = Inl (UnsupportedResolver ''redis'') \<longleftrightarrow> res_Type (cfg_Resolver cfg) = ''redis''"
  by (auto simp: gateway_setup_def ResolverSingleNode_def)

end
