(* ===== verification/GameServer.thy ===== *)
theory GameServer
  imports KCPShutdown Programs
begin

text \<open>
  The game server's \<^verbatim>\<open>main\<close> after start-up (\<^verbatim>\<open>cmd/game-server/main.go\<close>): it waits for a signal, stops the KCP
  server, then the WebSocket server if there is one, and exits. Its goroutine runs beside those of
  the two servers and is the only caller of theirs: the packet handlers of this program log and
  never send or close. Once \<^verbatim>\<open>main\<close> has returned the process is gone and nothing moves.
\<close>

section \<open>State and steps\<close>

datatype main_phase = Serving | StoppingKCP | StoppingWSS | Exited

record game_main =
  gm_phase :: main_phase
  gm_kcp :: kcp_state
  gm_wss :: "wss_state option"

definition game_main_new :: "kcp_server \<times> goroutine list \<Rightarrow> (wss_server \<times> goroutine list) option \<Rightarrow> game_main" where
  "game_main_new k w = \<lparr>gm_phase = Serving, gm_kcp = (fst k, mset (snd k)), gm_wss = map_option (\<lambda>(v, vs). (v, mset vs)) w\<rparr>"

text \<open>What follows the return of \<^verbatim>\<open>kcpServer.Stop\<close>. A \<^verbatim>\<open>Stop\<close> that finds its server stopped returns at once.\<close>

definition main_stop_wss :: "map_order \<Rightarrow> game_main \<Rightarrow> game_main" where
  "main_stop_wss ord s =
     (case gm_wss s of
        None \<Rightarrow> s\<lparr>gm_phase := Exited\<rparr>
      | Some (v, V) \<Rightarrow>
          (case wss_call (StopNow ord) v of
             (v', M) \<Rightarrow> s\<lparr>gm_wss := Some (v', mset M + V), gm_phase := (if M = [] then Exited else StoppingWSS)\<rparr>))"

definition main_signal :: "map_order \<Rightarrow> map_order \<Rightarrow> game_main \<Rightarrow> game_main" where
  "main_signal ord ord' s =
     (case gm_kcp s of (k, G) \<Rightarrow>
        (case kcp_call (StopNow ord) k of
           (k', M) \<Rightarrow> if M = [] then main_stop_wss ord' s
                      else s\<lparr>gm_kcp := (k', mset M + G), gm_phase := StoppingKCP\<rparr>))"

inductive main_step :: "game_main \<Rightarrow> game_main \<Rightarrow> bool" where
  signalled: "gm_phase s = Serving \<Longrightarrow> range_order ord \<Longrightarrow> range_order ord' \<Longrightarrow> main_step s (main_signal ord ord' s)"
| kcp_returns: "gm_phase s = StoppingKCP \<Longrightarrow> gm_kcp s = (k, add_mset StopWait G) \<Longrightarrow> kcp_go io StopWait k = Some (k', M) \<Longrightarrow>
    range_order ord \<Longrightarrow> main_step s (main_stop_wss ord (s\<lparr>gm_kcp := (k', mset M + G)\<rparr>))"
| wss_returns: "gm_phase s = StoppingWSS \<Longrightarrow> gm_wss s = Some (v, add_mset StopWait V) \<Longrightarrow> wss_go io StopWait v = Some (v', M) \<Longrightarrow>
    main_step s (s\<lparr>gm_wss := Some (v', mset M + V), gm_phase := Exited\<rparr>)"
| kcp_moves: "gm_phase s \<noteq> Exited \<Longrightarrow> gm_kcp s = (k, add_mset g G) \<Longrightarrow> g \<noteq> StopWait \<Longrightarrow> kcp_go io g k = Some (k', M) \<Longrightarrow>
    main_step s (s\<lparr>gm_kcp := (k', mset M + G)\<rparr>)"
| wss_moves: "gm_phase s \<noteq> Exited \<Longrightarrow> gm_wss s = Some (v, add_mset g V) \<Longrightarrow> g \<noteq> StopWait \<Longrightarrow> wss_go io g v = Some (v', M) \<Longrightarrow>
    main_step s (s\<lparr>gm_wss := Some (v', mset M + V)\<rparr>)"
| wss_request: "gm_phase s \<noteq> Exited \<Longrightarrow> gm_wss s = Some (v, V) \<Longrightarrow> wss_call (Request origin) v = (v', M) \<Longrightarrow>
    main_step s (s\<lparr>gm_wss := Some (v', mset M + V)\<rparr>)"

section \<open>Lemmas: the goroutines of a server\<close>

text \<open>A server has its own goroutines and, while it is being stopped, the one of \<^verbatim>\<open>main\<close> that stops it.\<close>

fun stopper :: "goroutine \<Rightarrow> bool" where
  "stopper (Closing pc a (AfterStop as)) \<longleftrightarrow> True"
| "stopper (StopCall as) \<longleftrightarrow> True"
| "stopper StopWait \<longleftrightarrow> True"
| "stopper _ \<longleftrightarrow> False"

definition worker :: "goroutine \<Rightarrow> bool" where
  "worker g \<longleftrightarrow> counted g = 1 \<or> upgrade_part g"

definition crew :: "bool \<Rightarrow> goroutine multiset \<Rightarrow> bool" where
  "crew stopping G \<longleftrightarrow> (if stopping then \<exists>h H. G = add_mset h H \<and> stopper h \<and> (\<forall>g\<in>#H. worker g) else \<forall>g\<in>#G. worker g)"

lemma stopper_no_worker: "stopper g \<Longrightarrow> \<not> worker g"
  by (cases g rule: stopper.cases) (simp_all add: worker_def)

lemma resume_parts: "stopper (resume k) = stopper (Closing pc a k)" "worker (resume k) = worker (Closing pc a k)"
  by (cases k; simp add: worker_def)+

lemma close_parts:
  assumes "kcp_close pc a k s = Some (s', M)"
  shows "worker (Closing pc a k) \<Longrightarrow> h \<in> set M \<Longrightarrow> worker h" and "stopper (Closing pc a k) \<Longrightarrow> \<exists>h. M = [h] \<and> stopper h"
  using kcp_close_cases(1) [OF assms] resume_parts [of k] by (cases k; auto simp: worker_def)+

lemma kcp_go_parts:
  assumes "kcp_go io g s = Some (s', M)"
  shows "worker g \<Longrightarrow> h \<in> set M \<Longrightarrow> worker h" and "stopper g \<Longrightarrow> g \<noteq> StopWait \<Longrightarrow> \<exists>h. M = [h] \<and> stopper h"
proof -
  show "worker h" if "worker g" "h \<in> set M"
  proof (cases g)
    case (Closing pc a k)
    with assms that close_parts(1) [of pc a k s s' M h] show ?thesis by (simp add: kcp_go_def)
  next
    case (StopCall as)
    with that stopper_no_worker show ?thesis by fastforce
  qed (use assms that in \<open>auto simp: worker_def kcp_goroutines split: option.splits if_splits io.splits list.splits\<close>)
  show "\<exists>h. M = [h] \<and> stopper h" if "stopper g" "g \<noteq> StopWait"
  proof (cases g)
    case (Closing pc a k)
    with assms that close_parts(2) [of pc a k s s' M] show ?thesis by (simp add: kcp_go_def)
  next
    case (StopCall as)
    with assms show ?thesis by (cases as) (auto simp: kcp_go_def)
  qed (use that in auto)
qed

lemma wss_go_parts:
  assumes "wss_go io g s = Some (s', M)"
  shows "worker g \<Longrightarrow> h \<in> set M \<Longrightarrow> worker h" and "stopper g \<Longrightarrow> g \<noteq> StopWait \<Longrightarrow> \<exists>h. M = [h] \<and> stopper h"
    and "sv_running s' = sv_running s"
proof -
  note code = wss_go_def wss_session_code kcp_readStart_def kcp_readLoop_def wss_readWait_def kcp_writeLoop_def kcp_writeData_def
    wss_Start_http_def wss_Start_go_def wss_serve_def wss_Stop_http_def handleUpgrade_def handleUpgrade_go_def wss_newSession_def
    nextWSSSessionID_def Let_def
  show "worker h" if "worker g" "h \<in> set M"
  proof (cases g)
    case (Closing pc a k)
    with assms that close_parts(1) [of pc a k s s' M h] show ?thesis by (simp add: wss_go_def wss_session_code)
  next
    case (StopCall as)
    with that stopper_no_worker show ?thesis by fastforce
  qed (use assms that in \<open>auto simp: worker_def code split: option.splits if_splits io.splits list.splits frame_type.splits\<close>)
  show "\<exists>h. M = [h] \<and> stopper h" if "stopper g" "g \<noteq> StopWait"
  proof (cases g)
    case (Closing pc a k)
    with assms that close_parts(2) [of pc a k s s' M] show ?thesis by (simp add: wss_go_def wss_session_code)
  next
    case (StopCall as)
    with assms show ?thesis by (cases as) (auto simp: wss_go_def)
  qed (use that in auto)
  show "sv_running s' = sv_running s"
  proof (cases g)
    case (Closing pc a k)
    with assms kcp_close_cases(2) [of pc a k s s' M] show ?thesis by (simp add: wss_go_def wss_session_code)
  next
    case (StopCall as)
    with assms show ?thesis by (cases as) (auto simp: wss_go_def wss_Stop_http_def split: option.splits)
  qed (use assms in \<open>auto simp: code split: option.splits if_splits io.splits list.splits frame_type.splits\<close>)
qed

lemma crew_step:
  assumes "crew b (add_mset g G)" "\<And>h. worker g \<Longrightarrow> h \<in> set M \<Longrightarrow> worker h" "stopper g \<Longrightarrow> \<exists>h. M = [h] \<and> stopper h"
  shows "crew b (mset M + G)"
proof (cases b)
  case True
  with assms(1) obtain h H where h: "add_mset g G = add_mset h H" "stopper h" "\<forall>g\<in>#H. worker g" by (auto simp: crew_def)
  show ?thesis
  proof (cases "g = h")
    case True
    with h assms(3) obtain h' where "M = [h']" "stopper h'" by blast
    then show ?thesis using h True \<open>b\<close> by (auto simp: crew_def)
  next
    case False
    with h(1) obtain K where K: "H = add_mset g K" "G = add_mset h K" by (auto simp: add_eq_conv_ex)
    then show ?thesis using h(2,3) assms(2) \<open>b\<close> by (auto simp: crew_def intro!: exI [of _ h] exI [of _ "mset M + K"])
  qed
qed (use assms in \<open>auto simp: crew_def\<close>)

lemma crew_stop: "crew False G \<Longrightarrow> stopper h \<Longrightarrow> crew True (add_mset h G)"
  by (auto simp: crew_def)

lemma crew_add: "crew b G \<Longrightarrow> worker g \<Longrightarrow> crew b (add_mset g G)"
proof (cases b)
  case True
  assume "crew b G" "worker g"
  with True obtain h H where "G = add_mset h H" "stopper h" "\<forall>g\<in>#H. worker g" by (auto simp: crew_def)
  then show ?thesis using True \<open>worker g\<close> by (auto simp: crew_def intro!: exI [of _ h] exI [of _ "add_mset g H"])
qed (auto simp: crew_def)

lemma crew_return: "crew True (add_mset StopWait G) \<Longrightarrow> crew False G"
proof -
  assume "crew True (add_mset StopWait G)"
  then obtain h H where h: "add_mset StopWait G = add_mset h H" "stopper h" "\<forall>g\<in>#H. worker g" by (auto simp: crew_def)
  have "StopWait \<notin># H" using h(3) stopper_no_worker [of StopWait] by auto
  then show ?thesis using h by (auto simp: crew_def add_eq_conv_ex)
qed

section \<open>Lemmas: what each phase knows of the servers\<close>

definition kcp_part :: "kcp_ServerConfig \<Rightarrow> main_phase \<Rightarrow> kcp_state \<Rightarrow> bool" where
  "kcp_part cfg ph k \<longleftrightarrow> (kcp_step legal)\<^sup>*\<^sup>* (kcp_new 0 cfg, {#}) k \<and> crew (ph = StoppingKCP) (snd k)
     \<and> (sv_running (fst k) \<longleftrightarrow> ph = Serving) \<and> (ph \<in> {StoppingWSS, Exited} \<longrightarrow> snd k = {#})"

definition wss_part :: "wss_ServerConfig \<Rightarrow> main_phase \<Rightarrow> wss_state \<Rightarrow> bool" where
  "wss_part cfg ph v \<longleftrightarrow> wss_step\<^sup>*\<^sup>* (wss_new 0 cfg, {#}) v \<and> crew (ph = StoppingWSS) (snd v)
     \<and> (sv_running (fst v) \<longleftrightarrow> ph \<in> {Serving, StoppingKCP}) \<and> (ph = Exited \<longrightarrow> sv_wg (fst v) = 0)"

definition main_inv :: "kcp_ServerConfig \<Rightarrow> wss_ServerConfig \<Rightarrow> bool \<Rightarrow> game_main \<Rightarrow> bool" where
  "main_inv kcfg wcfg web s \<longleftrightarrow> kcp_part kcfg (gm_phase s) (gm_kcp s) \<and> (gm_wss s \<noteq> None \<longleftrightarrow> web)
     \<and> pred_option (wss_part wcfg (gm_phase s)) (gm_wss s) \<and> (gm_phase s = StoppingWSS \<longrightarrow> web)"

lemma kcp_part_go:
  assumes "kcp_part cfg ph (k, add_mset g G)" "g \<noteq> StopWait" "kcp_go io g k = Some (k', M)"
  shows "kcp_part cfg ph (k', mset M + G)"
proof -
  have "crew (ph = StoppingKCP) (mset M + G)"
    using assms(1,2) kcp_go_parts [OF assms(3)] by (intro crew_step [of _ g]) (auto simp: kcp_part_def)
  moreover have "(kcp_step legal)\<^sup>*\<^sup>* (kcp_new 0 cfg, {#}) (k', mset M + G)"
    using assms(1) kcp_step.goes [OF assms(3), of legal G] by (auto simp: kcp_part_def intro: rtranclp.rtrancl_into_rtrancl)
  ultimately show ?thesis using assms(1) kcp_go_server [OF assms(3)] by (auto simp: kcp_part_def)
qed

lemma kcp_part_stop:
  assumes "kcp_part cfg Serving (k, G)" "range_order ord" "kcp_call (StopNow ord) k = (k', M)"
  shows "M \<noteq> []" and "kcp_part cfg StoppingKCP (k', mset M + G)"
proof -
  have "kcp_step legal (k, G) (k', mset M + G)"
    using assms(2) by (intro kcp_step.called [OF _ assms(3)]) (simp add: legal_def)
  then have r: "(kcp_step legal)\<^sup>*\<^sup>* (kcp_new 0 cfg, {#}) (k', mset M + G)"
    using assms(1) by (auto simp: kcp_part_def intro: rtranclp.rtrancl_into_rtrancl)
  from assms(1,3) obtain as where "M = [StopCall as]" "\<not> sv_running k'"
    by (auto simp: kcp_part_def kcp_call_def kcp_Stop_def Let_def cancel_ctx_def split: option.splits)
  then show "M \<noteq> []" "kcp_part cfg StoppingKCP (k', mset M + G)"
    using assms(1) r crew_stop [of G "StopCall as"] by (auto simp: kcp_part_def)
qed

lemma kcp_part_return:
  assumes "kcp_part cfg StoppingKCP (k, add_mset StopWait G)" "kcp_go io StopWait k = Some (k', M)" "ph \<in> {StoppingWSS, Exited}"
  shows "kcp_part cfg ph (k', mset M + G)"
proof -
  have k: "k' = k" "M = []" "sv_wg k = 0" using assms(2) by (auto simp: kcp_go_def split: if_splits)
  have r: "(kcp_step legal)\<^sup>*\<^sup>* (kcp_new 0 cfg, {#}) (k, add_mset StopWait G)" using assms(1) by (simp add: kcp_part_def)
  have c: "crew False G" using assms(1) by (auto simp: kcp_part_def intro: crew_return)
  have "counted g = 0" "\<not> upgrade_part g" if "g \<in># G" for g
    using kcp_drained(3) [OF r k(3)] kcp_reachable_plain [OF r] that by auto
  with c have "G = {#}" by (auto simp: crew_def worker_def intro: multiset_nonemptyE)
  moreover have "(kcp_step legal)\<^sup>*\<^sup>* (kcp_new 0 cfg, {#}) (k, G)"
    using r kcp_step.goes [OF assms(2), of legal G] k by (auto intro: rtranclp.rtrancl_into_rtrancl)
  ultimately show ?thesis using assms(1,3) k c by (auto simp: kcp_part_def)
qed

lemma wss_part_go:
  assumes "wss_part cfg ph (v, add_mset g V)" "g \<noteq> StopWait" "wss_go io g v = Some (v', M)" "ph \<noteq> Exited"
  shows "wss_part cfg ph (v', mset M + V)"
proof -
  have "crew (ph = StoppingWSS) (mset M + V)"
    using assms(1,2) wss_go_parts [OF assms(3)] by (intro crew_step [of _ g]) (auto simp: wss_part_def)
  moreover have "wss_step\<^sup>*\<^sup>* (wss_new 0 cfg, {#}) (v', mset M + V)"
    using assms(1) wss_step.goes [OF assms(3), of V] by (auto simp: wss_part_def intro: rtranclp.rtrancl_into_rtrancl)
  ultimately show ?thesis using assms(1,4) wss_go_parts(3) [OF assms(3)] by (auto simp: wss_part_def)
qed

lemma wss_part_call:
  assumes "wss_part cfg ph (v, V)" "wss_call c v = (v', M)"
  shows "wss_step\<^sup>*\<^sup>* (wss_new 0 cfg, {#}) (v', mset M + V)"
  using assms(1) wss_step.called [OF assms(2), of V] by (auto simp: wss_part_def intro: rtranclp.rtrancl_into_rtrancl)

lemma wss_part_request:
  assumes "wss_part cfg ph (v, V)" "wss_call (Request origin) v = (v', M)" "ph \<noteq> Exited"
  shows "wss_part cfg ph (v', mset M + V)"
proof -
  have M: "v' = v" "M = [] \<or> M = [Upgrade origin]" using assms(2) by (auto simp: wss_call_def split: option.splits if_splits)
  have "crew (ph = StoppingWSS) (add_mset (Upgrade origin) V)"
    using assms(1) by (intro crew_add) (auto simp: wss_part_def worker_def)
  with M assms(1,3) wss_part_call [OF assms(1,2)] show ?thesis by (auto simp: wss_part_def)
qed

lemma wss_part_stop:
  assumes "wss_part cfg ph (v, V)" "ph \<in> {Serving, StoppingKCP}" "wss_call (StopNow ord) v = (v', M)"
  shows "M \<noteq> []" and "wss_part cfg StoppingWSS (v', mset M + V)"
proof -
  from assms obtain as where "M = [StopCall as]" "\<not> sv_running v'"
    by (auto simp: wss_part_def wss_call_def wss_Stop_def Let_def cancel_ctx_def split: option.splits)
  then show "M \<noteq> []" "wss_part cfg StoppingWSS (v', mset M + V)"
    using assms(1,2) wss_part_call [OF assms(1,3)] crew_stop [of V "StopCall as"] by (auto simp: wss_part_def)
qed

lemma wss_part_return:
  assumes "wss_part cfg StoppingWSS (v, add_mset StopWait V)" "wss_go io StopWait v = Some (v', M)"
  shows "wss_part cfg Exited (v', mset M + V)"
proof -
  have "v' = v" "M = []" "sv_wg v = 0" using assms(2) by (auto simp: wss_go_def split: if_splits)
  moreover have "wss_step\<^sup>*\<^sup>* (wss_new 0 cfg, {#}) (v', mset M + V)"
    using assms(1) wss_step.goes [OF assms(2), of V] by (auto simp: wss_part_def intro: rtranclp.rtrancl_into_rtrancl)
  ultimately show ?thesis using assms(1) crew_return [of V] by (auto simp: wss_part_def)
qed

lemma main_stop_wss_inv:
  assumes "kcp_part kcfg Exited (gm_kcp s)" "kcp_part kcfg StoppingWSS (gm_kcp s)" "ph \<in> {Serving, StoppingKCP}"
    and "pred_option (wss_part wcfg ph) (gm_wss s)" "gm_wss s \<noteq> None \<longleftrightarrow> web"
  shows "main_inv kcfg wcfg web (main_stop_wss ord s)" and "gm_phase (main_stop_wss ord s) = (if web then StoppingWSS else Exited)"
proof -
  have "main_inv kcfg wcfg web (main_stop_wss ord s) \<and> gm_phase (main_stop_wss ord s) = (if web then StoppingWSS else Exited)"
  proof (cases "gm_wss s")
    case (Some v)
    then obtain v0 V where v: "gm_wss s = Some (v0, V)" by (cases v) simp
    obtain v' M where c: "wss_call (StopNow ord) v0 = (v', M)" by fastforce
    from v assms(4) have "wss_part wcfg ph (v0, V)" by simp
    from wss_part_stop [OF this assms(3) c] v c assms show ?thesis by (auto simp: main_inv_def main_stop_wss_def)
  qed (use assms in \<open>auto simp: main_inv_def main_stop_wss_def\<close>)
  then show "main_inv kcfg wcfg web (main_stop_wss ord s)" "gm_phase (main_stop_wss ord s) = (if web then StoppingWSS else Exited)" by auto
qed

lemma kcp_returns_inv:
  assumes "main_inv kcfg wcfg web s" "gm_phase s = StoppingKCP" "gm_kcp s = (k, add_mset StopWait G)" "kcp_go io StopWait k = Some (k', M)"
    and t_def: "t = main_stop_wss ord (s\<lparr>gm_kcp := (k', mset M + G)\<rparr>)"
  shows "main_inv kcfg wcfg web t" and "gm_phase t = (if web then StoppingWSS else Exited)"
proof -
  have "kcp_part kcfg StoppingKCP (k, add_mset StopWait G)" using assms(1-3) by (simp add: main_inv_def)
  note part = kcp_part_return [OF this assms(4)]
  have "main_inv kcfg wcfg web t \<and> gm_phase t = (if web then StoppingWSS else Exited)" unfolding t_def
    using assms(1,2) part by (intro conjI main_stop_wss_inv [where ph = StoppingKCP]) (auto simp: main_inv_def)
  then show "main_inv kcfg wcfg web t" "gm_phase t = (if web then StoppingWSS else Exited)" by auto
qed

lemma main_step_inv: "main_step s t \<Longrightarrow> main_inv kcfg wcfg web s \<Longrightarrow> main_inv kcfg wcfg web t"
proof (induction rule: main_step.induct)
  case (signalled s ord ord')
  obtain k G where k: "gm_kcp s = (k, G)" by fastforce
  obtain k' M where c: "kcp_call (StopNow ord) k = (k', M)" by fastforce
  have "kcp_part kcfg Serving (k, G)" using signalled k by (simp add: main_inv_def)
  note stop = kcp_part_stop [OF this signalled(2) c]
  have "pred_option (wss_part wcfg StoppingKCP) (gm_wss s)"
    using signalled by (auto simp: main_inv_def wss_part_def pred_option_def)
  with stop signalled k c show ?case by (auto simp: main_signal_def main_inv_def)
next
  case (kcp_returns s k G io k' M ord)
  from kcp_returns_inv(1) [OF kcp_returns(5,1-3) refl] show ?case .
next
  case (wss_returns s v V io v' M)
  then show ?case using wss_part_return [of wcfg v V io v' M] by (auto simp: main_inv_def kcp_part_def)
next
  case (kcp_moves s k g G io k' M)
  then show ?case using kcp_part_go [of kcfg "gm_phase s" k g G io k' M] by (auto simp: main_inv_def)
next
  case (wss_moves s v g V io v' M)
  then show ?case using wss_part_go [of wcfg "gm_phase s" v g V io v' M] by (auto simp: main_inv_def)
next
  case (wss_request s v V origin v' M)
  then show ?case using wss_part_request [of wcfg "gm_phase s" v V origin v' M] by (auto simp: main_inv_def)
qed

interpretation game_main: step_invariant main_step "main_inv kcfg wcfg web" for kcfg wcfg web
  by unfold_locales (rule main_step_inv)

text \<open>Once \<^verbatim>\<open>main\<close> has called \<^verbatim>\<open>kcpServer.Stop\<close>, the call can return whatever the server is in the middle of.\<close>

lemma main_stop_returns:
  assumes "main_inv kcfg wcfg web s" "gm_phase s = StoppingKCP"
  shows "\<exists>t. main_step\<^sup>*\<^sup>* s t \<and> gm_phase t = (if web then StoppingWSS else Exited)"
  using assms
proof (induction "weights (snd (gm_kcp s))" arbitrary: s rule: less_induct)
  case less
  obtain k G where k: "gm_kcp s = (k, G)" by fastforce
  from less k have part: "kcp_part kcfg StoppingKCP (k, G)" by (simp add: main_inv_def)
  then have st: "stopped (k, G)"
    using kcp_shut.along [OF _ kcp_new_shut [of 0 kcfg], of "(k, G)"] by (auto simp: kcp_part_def stopped_def)
  have "G \<noteq> {#}" using part by (auto simp: kcp_part_def crew_def)
  from silent_progress [OF st this] obtain u where u: "silent_step (k, G) u" ..
  then obtain g k' M H where g: "G = add_mset g H" "u = (k', mset M + H)" "kcp_go (silence g) g k = Some (k', M)"
    by (auto elim: silent_stepE)
  show ?case
  proof (cases "g = StopWait")
    case True
    with g have w: "kcp_go (silence StopWait) StopWait k = Some (k', M)" "gm_kcp s = (k, add_mset StopWait H)" using k by auto
    from main_step.kcp_returns [OF less(3) w(2,1) sorted_order_range] kcp_returns_inv(2) [OF less(2,3) w(2,1) refl]
    show ?thesis by blast
  next
    case False
    define t where "t = s\<lparr>gm_kcp := (k', mset M + H)\<rparr>"
    have step: "main_step s t" unfolding t_def using less(3) k g False by (intro kcp_moves) auto
    have "weights (snd (gm_kcp t)) < weights (snd (gm_kcp s))"
      using silent_stopped(2) [OF u st] by (simp add: t_def k g(2))
    from less(1) [OF this main_step_inv [OF step less(2)]] less(3) obtain t' where
      "main_step\<^sup>*\<^sup>* t t'" "gm_phase t' = (if web then StoppingWSS else Exited)" by (auto simp: t_def)
    then show ?thesis using step by (meson converse_rtranclp_into_rtranclp)
  qed
qed

lemma game_main_new_inv:
  assumes "game_server_start getenv rf um env path = Inr (k, w)"
  shows "\<exists>cfg. main_inv (game_kcp_config cfg) (game_wss_config cfg) (w \<noteq> None) (game_main_new k w)"
proof -
  obtain cfg where cfg: "kcp_Start_call (se_udp_listens env) (kcp_new 0 (game_kcp_config cfg)) = Inr k"
      "\<And>v. w = Some v \<Longrightarrow> wss_Start_call (se_tcp_listens env) (wss_new 0 (game_wss_config cfg)) = Inr v"
    using game_server_calls [OF assms] by blast
  obtain n ns where k: "k = (n, ns)" by (cases k)
  have "(kcp_step legal)\<^sup>*\<^sup>* (kcp_new 0 (game_kcp_config cfg), mset []) (n, mset ns)"
  proof (rule run_script_steps [OF _ _ kcp_Start_call_script [OF cfg(1), unfolded k]])
    show "kcp_step legal (r, G) (r', mset M + G)" if "Call c \<in> set [Call (StartCall (se_udp_listens env)), Go 0 Ok]" "kcp_call c r = (r', M)" for c r r' M G
      using that(1) by (intro kcp_step.called [OF _ that(2)]) (auto simp: legal_def)
  qed (rule kcp_step.goes)
  moreover have "sv_running n \<and> ns = [AcceptLoop 0]"
    using cfg(1) k by (auto simp: kcp_Start_call_def kcp_Start_def kcp_new_def split: if_splits)
  ultimately have "kcp_part (game_kcp_config cfg) Serving (n, mset ns)"
    by (auto simp: kcp_part_def crew_def worker_def)
  moreover have "wss_part (game_wss_config cfg) Serving (v, mset vs)" if "w = Some (v, vs)" for v vs
  proof -
    note c = cfg(2) [OF that]
    have "sv_running v \<and> vs = [Serve 0]"
      using c by (auto simp: wss_Start_call_def wss_Start_def wss_new_def wss_Start_go_def wss_Start_http_def split: if_splits)
    then show ?thesis using wss_script_reachable [OF wss_Start_call_script [OF c]] by (auto simp: wss_part_def crew_def worker_def)
  qed
  ultimately have "main_inv (game_kcp_config cfg) (game_wss_config cfg) (w \<noteq> None) (game_main_new k w)"
    by (auto simp: main_inv_def game_main_new_def k pred_option_def)
  then show ?thesis ..
qed

section \<open>Properties\<close>



end
