(* ===== verification/Node.thy ===== *)
theory Node
  imports RoomLifecycle Wire WebSocket
begin

text \<open>
  The server as a whole: rooms, the application layer between them and the transports
  (\<^verbatim>\<open>internal/app/realtime\<close>), and the two transport servers, running concurrently. A step of the
  node is a step of one goroutine: of a room's loop or of a caller of the room, of a transport,
  or of a room's loop while it dispatches the batches of a broadcast, which it does one session after
  the other and, within a session, with other goroutines running between the test of \<^verbatim>\<open>IsClosed\<close> and
  the \<^verbatim>\<open>select\<close> of \<^verbatim>\<open>Send\<close>. A packet is handled by the read loop that received it, so
  its one effect, the \<^verbatim>\<open>Enqueue\<close>, is part of that step.

  The functions the packages are wired with stay arguments: the resolvers, and the connection a
  session identifier stands for. A lookup of a connection may at any time find nothing. A WebSocket
  session stands for one behind a wrapper that adds the methods \<^verbatim>\<open>UserID\<close> and \<^verbatim>\<open>Transport\<close> it lacks; its \<^verbatim>\<open>Send\<close> is its own.
\<close>

section \<open>Wiring\<close>

record RealtimePacketHandler =
  rh_resolveRoom :: room_resolver

definition NewRealtimePacketHandler :: "room_resolver \<Rightarrow> RealtimePacketHandler" where
  "NewRealtimePacketHandler resolver = \<lparr>rh_resolveRoom = resolver\<rparr>"

record SessionPacketRouter =
  sp_resolve :: "string \<Rightarrow> string \<times> string"

definition NewSessionPacketRouter :: "(string \<Rightarrow> string \<times> string) \<Rightarrow> SessionPacketRouter" where
  "NewSessionPacketRouter resolve = \<lparr>sp_resolve = resolve\<rparr>"

record PacketProcessor =
  pp_handler :: RealtimePacketHandler
  pp_router :: SessionPacketRouter

definition NewPacketProcessor :: "RealtimePacketHandler \<Rightarrow> SessionPacketRouter \<Rightarrow> PacketProcessor" where
  "NewPacketProcessor h router = \<lparr>pp_handler = h, pp_router = router\<rparr>"

record ReceiveLoopAdapter =
  ra_processor :: PacketProcessor

definition NewReceiveLoopAdapter :: "PacketProcessor \<Rightarrow> ReceiveLoopAdapter" where
  "NewReceiveLoopAdapter processor = \<lparr>ra_processor = processor\<rparr>"

definition Receive_HandlePacket :: "msgpack \<Rightarrow> map_order \<Rightarrow> ReceiveLoopAdapter \<Rightarrow> int \<Rightarrow> time \<Rightarrow> string \<times> bytes \<Rightarrow> room_store \<Rightarrow> room_store" where
  "Receive_HandlePacket mp ord a unix_ms now pkt store =
     HandlePacket mp ord (rh_resolveRoom (pp_handler (ra_processor a))) (sp_resolve (pp_router (ra_processor a)))
       unix_ms now (fst pkt) (snd pkt) store"

record wiring =
  w_msgpack :: msgpack
  w_receiver :: ReceiveLoopAdapter
  w_conn :: "string \<Rightarrow> (conn_ref \<times> TransportType) option"

section \<open>State\<close>

text \<open>Where the loop of a room is with a broadcast: the batches and the sessions it has not come to yet.\<close>

datatype phase =
  Resting
| Dispatching batches "string list"
| Sending string conn_ref TransportType bytes batches "string list"

text \<open>
  The last two fields are ghosts: the sessions one of whose deltas was not accepted by a
  connection, and for each session what was visible to it at each broadcast.
\<close>

record node =
  nd_rooms :: "nat \<Rightarrow> room_proc"
  nd_phase :: "nat \<Rightarrow> phase"
  nd_kcp :: kcp_state
  nd_wss :: wss_state
  nd_lost :: "string set"
  nd_shown :: "string \<Rightarrow> client_view list"

definition node_new :: "(nat \<Rightarrow> RoomSpec) \<Rightarrow> u64 \<Rightarrow> kcp_ServerConfig \<Rightarrow> u64 \<Rightarrow> wss_ServerConfig \<Rightarrow> node" where
  "node_new specs n kcfg m wcfg =
     \<lparr>nd_rooms = (\<lambda>r. (new_proc (specs r))\<lparr>room := SetBroadcaster (newRoom (specs r))\<rparr>), nd_phase = (\<lambda>_. Resting),
      nd_kcp = (kcp_new n kcfg, {#}), nd_wss = (wss_new m wcfg, {#}), nd_lost = {}, nd_shown = (\<lambda>_. [])\<rparr>"

definition conn_of :: "node \<Rightarrow> conn_ref \<times> TransportType \<Rightarrow> net_session option" where
  "conn_of s ct =
     (if snd ct = KCP then fmlookup (sv_heap (fst (nd_kcp s))) (fst ct)
      else if snd ct = WebSocket then fmlookup (sv_heap (fst (nd_wss s))) (fst ct) else None)"

text \<open>What a lookup may find at this moment.\<close>

definition lookup_ok :: "wiring \<Rightarrow> node \<Rightarrow> session_lookup \<Rightarrow> bool" where
  "lookup_ok w s lookup \<longleftrightarrow> (\<forall>sid ct. lookup sid = Some ct \<longrightarrow> w_conn w sid = Some ct \<and> conn_of s ct \<noteq> None)"

definition seen_by :: "map_order \<Rightarrow> Room \<Rightarrow> string \<Rightarrow> client_view" where
  "seen_by ord r sid =
     (case fmlookup (activeSessions r) sid of
        None \<Rightarrow> (\<lambda>_. None)
      | Some att \<Rightarrow> (\<lambda>q. if q \<in> set (VisiblePlayersFor ord (att_playerID att) r) then GetPlayerState q r else None))"

definition note_shown :: "map_order \<Rightarrow> batches option \<Rightarrow> Room \<Rightarrow> (string \<Rightarrow> client_view list) \<Rightarrow> string \<Rightarrow> client_view list" where
  "note_shown ord bs r hs sid =
     (case bs of None \<Rightarrow> hs sid | Some b \<Rightarrow> if sid |\<in>| fmdom b then hs sid @ [seen_by ord r sid] else hs sid)"

section \<open>Steps\<close>

text \<open>Packets a transport has just handed over, one after the other.\<close>

definition receive :: "wiring \<Rightarrow> map_order \<Rightarrow> int \<Rightarrow> time \<Rightarrow> (string \<times> bytes) list \<Rightarrow> (nat \<Rightarrow> room_proc) \<Rightarrow> nat \<Rightarrow> room_proc" where
  "receive w ord unix_ms now pkts rooms =
     (let store = fold (Receive_HandlePacket (w_msgpack w) ord (w_receiver w) unix_ms now) pkts (\<lambda>r. room (rooms r))
      in (\<lambda>r. (rooms r)\<lparr>room := store r\<rparr>))"

definition start_dispatch :: "map_order \<Rightarrow> batches option \<Rightarrow> phase" where
  "start_dispatch ord bs = (case bs of None \<Rightarrow> Resting | Some b \<Rightarrow> Dispatching b (ord (fmdom b)))"

text \<open>
  Dispatch of one session up to its call of \<^verbatim>\<open>Send\<close>. What the call returns is decided later and does not
  influence whether and with what it is made.
\<close>

abbreviation dispatch_call :: "wiring \<Rightarrow> map_order \<Rightarrow> session_lookup \<Rightarrow> batches \<Rightarrow> string \<Rightarrow> SendResult list \<times> calls" where
  "dispatch_call w vord lookup b sid \<equiv> dispatch_one (w_msgpack w) vord (\<lambda>_ _ _. None) lookup b sid ([], [])"

definition no_send :: "call \<Rightarrow> bool" where
  "no_send c \<longleftrightarrow> (\<forall>a d. c \<noteq> SendNow a d)"

inductive node_step :: "wiring \<Rightarrow> (nat \<Rightarrow> RoomCommand \<Rightarrow> Room \<Rightarrow> bool) \<Rightarrow> node \<Rightarrow> node \<Rightarrow> bool" for w ok where
  room_moves: "room_step (ok r) (nd_rooms s r) p \<Longrightarrow> (\<And>tick. loop (nd_rooms s r) = LoopDraining tick \<Longrightarrow> loop p = LoopDraining tick) \<Longrightarrow>
    nd_phase s r = Resting \<or> loop p = loop (nd_rooms s r) \<Longrightarrow> node_step w ok s (s\<lparr>nd_rooms := (nd_rooms s)(r := p)\<rparr>)"
| tick_ends: "loop (nd_rooms s r) = LoopDraining tick \<Longrightarrow> commands (room (nd_rooms s r)) = [] \<Longrightarrow> nd_phase s r = Resting \<Longrightarrow>
    (\<And>i. range_order (env_ord (env i))) \<Longrightarrow> range_order ord \<Longrightarrow> tick_end env tick (room (nd_rooms s r)) = (bs, r') \<Longrightarrow>
    node_step w ok s (s\<lparr>nd_rooms := (nd_rooms s)(r := (nd_rooms s r)\<lparr>room := r', loop := LoopIdle\<rparr>),
      nd_phase := (nd_phase s)(r := start_dispatch ord bs), nd_shown := note_shown (env_ord (env 2)) bs r' (nd_shown s)\<rparr>)"
| no_call: "nd_phase s r = Dispatching b (sid # sids) \<Longrightarrow> lookup_ok w s lookup \<Longrightarrow> range_order vord \<Longrightarrow>
    dispatch_call w vord lookup b sid = (results, []) \<Longrightarrow>
    node_step w ok s (s\<lparr>nd_phase := (nd_phase s)(r := Dispatching b sids),
      nd_lost := nd_lost s \<union> {i. i = sid \<and> results \<noteq> []}\<rparr>)"
| call_kcp: "nd_phase s r = Dispatching b (sid # sids) \<Longrightarrow> lookup_ok w s lookup \<Longrightarrow> range_order vord \<Longrightarrow>
    dispatch_call w vord lookup b sid = (results, [(c, d)]) \<Longrightarrow> lookup sid = Some (c, KCP) \<Longrightarrow>
    nd_kcp s = (k, G) \<Longrightarrow> kcp_call (SendNow c d) k = (k', M) \<Longrightarrow>
    node_step w ok s (s\<lparr>nd_kcp := (k', mset M + G), nd_lost := nd_lost s \<union> {i. i = sid \<and> M = []},
      nd_phase := (nd_phase s)(r := (if M = [] then Dispatching b sids else Sending sid c KCP d b sids))\<rparr>)"
| call_wss: "nd_phase s r = Dispatching b (sid # sids) \<Longrightarrow> lookup_ok w s lookup \<Longrightarrow> range_order vord \<Longrightarrow>
    dispatch_call w vord lookup b sid = (results, [(c, d)]) \<Longrightarrow> lookup sid = Some (c, WebSocket) \<Longrightarrow>
    nd_wss s = (k, G) \<Longrightarrow> wss_call (SendNow c d) k = (k', M) \<Longrightarrow>
    node_step w ok s (s\<lparr>nd_wss := (k', mset M + G), nd_lost := nd_lost s \<union> {i. i = sid \<and> M = []},
      nd_phase := (nd_phase s)(r := (if M = [] then Dispatching b sids else Sending sid c WebSocket d b sids))\<rparr>)"
| select_kcp: "nd_phase s r = Sending sid c KCP d b sids \<Longrightarrow> nd_kcp s = (k, add_mset (SendCall c d) G) \<Longrightarrow>
    fmlookup (sv_heap k) c = Some x \<Longrightarrow> kcp_go io (SendCall c d) k = Some (k', M) \<Longrightarrow>
    node_step w ok s (s\<lparr>nd_kcp := (k', mset M + G), nd_lost := nd_lost s \<union> {i. i = sid \<and> fst (kcp_Send_select d x) \<noteq> None},
      nd_phase := (nd_phase s)(r := Dispatching b sids)\<rparr>)"
| select_wss: "nd_phase s r = Sending sid c WebSocket d b sids \<Longrightarrow> nd_wss s = (k, add_mset (SendCall c d) G) \<Longrightarrow>
    fmlookup (sv_heap k) c = Some x \<Longrightarrow> wss_go io (SendCall c d) k = Some (k', M) \<Longrightarrow>
    node_step w ok s (s\<lparr>nd_wss := (k', mset M + G), nd_lost := nd_lost s \<union> {i. i = sid \<and> fst (wss_Send_select d x) \<noteq> None},
      nd_phase := (nd_phase s)(r := Dispatching b sids)\<rparr>)"
| dispatched: "nd_phase s r = Dispatching b [] \<Longrightarrow> node_step w ok s (s\<lparr>nd_phase := (nd_phase s)(r := Resting)\<rparr>)"
| kcp_goes: "nd_kcp s = (k, add_mset g G) \<Longrightarrow> (\<And>c d. g \<noteq> SendCall c d) \<Longrightarrow> kcp_go io g k = Some (k', M) \<Longrightarrow> range_order ord \<Longrightarrow>
    node_step w ok s (s\<lparr>nd_kcp := (k', mset M + G),
      nd_rooms := receive w ord unix_ms now (drop (length (sv_dispatched k)) (sv_dispatched k')) (nd_rooms s)\<rparr>)"
| kcp_called: "nd_kcp s = (k, G) \<Longrightarrow> no_send c \<Longrightarrow> kcp_call c k = (k', M) \<Longrightarrow> node_step w ok s (s\<lparr>nd_kcp := (k', mset M + G)\<rparr>)"
| wss_goes: "nd_wss s = (k, add_mset g G) \<Longrightarrow> (\<And>c d. g \<noteq> SendCall c d) \<Longrightarrow> wss_go io g k = Some (k', M) \<Longrightarrow> range_order ord \<Longrightarrow>
    node_step w ok s (s\<lparr>nd_wss := (k', mset M + G),
      nd_rooms := receive w ord unix_ms now (drop (length (sv_dispatched k)) (sv_dispatched k')) (nd_rooms s)\<rparr>)"
| wss_called: "nd_wss s = (k, G) \<Longrightarrow> no_send c \<Longrightarrow> wss_call c k = (k', M) \<Longrightarrow> node_step w ok s (s\<lparr>nd_wss := (k', mset M + G)\<rparr>)"

text \<open>What a client draws that was written these packets.\<close>

definition draw :: "msgpack \<Rightarrow> bytes \<Rightarrow> wire_view \<Rightarrow> wire_view" where
  "draw mp d v = (case DecodeAndUnwrap mp sorted_order d KPlayerDelta of Inr (_, MsgPlayerDelta m) \<Rightarrow> apply_wire m v | _ \<Rightarrow> v)"

definition draws :: "msgpack \<Rightarrow> bytes list \<Rightarrow> wire_view" where
  "draws mp ds = fold (draw mp) ds (\<lambda>_. None)"

section \<open>Lemmas: the components move by their own steps\<close>

lemma Receive_cases:
  assumes "msgpack_roundtrip mp" "range_order ord"
  obtains (ignored) "Receive_HandlePacket mp ord a unix_ms now pkt store = store"
  | (queued) r cmd where "snd (Enqueue cmd (store r)) = (store r)\<lparr>commands := commands (store r) @ [cmd]\<rparr>"
      "Receive_HandlePacket mp ord a unix_ms now pkt store = store(r := (store r)\<lparr>commands := commands (store r) @ [cmd]\<rparr>)"
      "command_for unix_ms (ResolveContext (sp_resolve (pp_router (ra_processor a))) (fst pkt)) cmd"
proof (cases "DecodeEnvelope mp (snd pkt)")
  case (Inl e)
  then show thesis by (intro ignored) (simp add: Receive_HandlePacket_def HandlePacket_def Process_def)
next
  case (Inr env)
  let ?rr = "rh_resolveRoom (pp_handler (ra_processor a))" and ?rs = "sp_resolve (pp_router (ra_processor a))"
  let ?ctx = "ResolveContext ?rs (fst pkt)"
  obtain res st where h: "HandleEnvelope mp ord ?rr unix_ms now ?ctx env store = (res, st)" by fastforce
  have p: "Receive_HandlePacket mp ord a unix_ms now pkt store = st"
    using Inr h by (auto simp: Receive_HandlePacket_def HandlePacket_def Process_def split: option.splits)
  from assms h show thesis
  proof (cases rule: HandleEnvelope_cases)
    case failed
    then show thesis using p by (intro ignored) simp
  next
    case (queued r cmd)
    then show thesis using p by (intro that(2) [of cmd r]) simp_all
  qed
qed

lemma Receive_room_steps:
  assumes "msgpack_roundtrip mp" "range_order ord" and "store r = room p"
  shows "(room_step ok)\<^sup>*\<^sup>* p (p\<lparr>room := fold (Receive_HandlePacket mp ord a unix_ms now) pkts store r\<rparr>)"
  using assms(3)
proof (induction pkts arbitrary: store p)
  case (Cons pkt pkts)
  let ?store = "Receive_HandlePacket mp ord a unix_ms now pkt store"
  have "(room_step ok)\<^sup>*\<^sup>* p (p\<lparr>room := ?store r\<rparr>)"
    using assms(1,2)
  proof (cases rule: Receive_cases [where a = a and unix_ms = unix_ms and now = now and pkt = pkt and store = store])
    case ignored
    then show ?thesis using Cons(2) by simp
  next
    case (queued r' cmd)
    then show ?thesis using Cons(2) room_step.enqueue [OF prod.collapse [symmetric], of ok p cmd] by (cases "r' = r") auto
  qed
  also have "(room_step ok)\<^sup>*\<^sup>* (p\<lparr>room := ?store r\<rparr>) ((p\<lparr>room := ?store r\<rparr>)\<lparr>room := fold (Receive_HandlePacket mp ord a unix_ms now) pkts ?store r\<rparr>)"
    by (rule Cons(1)) simp
  finally show ?case by simp
qed simp

text \<open>Every step of the node is a run of each component, in most cases the empty one.\<close>

lemma node_step_components:
  assumes "msgpack_roundtrip (w_msgpack w)" "node_step w ok s t"
  shows "(room_step (ok r))\<^sup>*\<^sup>* (nd_rooms s r) (nd_rooms t r)"
    and "(kcp_step (\<lambda>_. True))\<^sup>*\<^sup>* (nd_kcp s) (nd_kcp t)" and "wss_step\<^sup>*\<^sup>* (nd_wss s) (nd_wss t)"
proof -
  note received = Receive_room_steps [OF assms(1), where a = "w_receiver w" and store = "\<lambda>r. room (nd_rooms s r)" and r = r
      and p = "nd_rooms s r" and ok = "ok r"]
  from assms(2) show "(room_step (ok r))\<^sup>*\<^sup>* (nd_rooms s r) (nd_rooms t r)"
  proof cases
    case (room_moves r' p)
    then show ?thesis by (cases "r' = r") auto
  next
    case (tick_ends r' tick env ord bs r1)
    then show ?thesis
      using room_step.tick_end [where ok = "ok r" and p = "nd_rooms s r" and tick = tick and env = env and r = r1] by (cases "r' = r") auto
  qed (auto simp: receive_def Let_def received)
  from assms(2) show "(kcp_step (\<lambda>_. True))\<^sup>*\<^sup>* (nd_kcp s) (nd_kcp t)"
    by cases (auto dest: kcp_step.goes [where allowed = "\<lambda>_. True"] kcp_step.called [where allowed = "\<lambda>_. True", OF TrueI])
  from assms(2) show "wss_step\<^sup>*\<^sup>* (nd_wss s) (nd_wss t)"
    by cases (auto dest: wss_step.goes wss_step.called)
qed

lemma node_run_components:
  assumes "msgpack_roundtrip (w_msgpack w)" "(node_step w ok)\<^sup>*\<^sup>* s t"
  shows "(room_step (ok r))\<^sup>*\<^sup>* (nd_rooms s r) (nd_rooms t r)"
    and "(kcp_step (\<lambda>_. True))\<^sup>*\<^sup>* (nd_kcp s) (nd_kcp t)" and "wss_step\<^sup>*\<^sup>* (nd_wss s) (nd_wss t)"
  using assms(2)
  by (induction rule: rtranclp_induct) (auto intro: rtranclp_trans [OF _ node_step_components(1) [OF assms(1)]]
      rtranclp_trans [OF _ node_step_components(2) [OF assms(1)]] rtranclp_trans [OF _ node_step_components(3) [OF assms(1)]])

lemma node_room_reachable:
  assumes "msgpack_roundtrip (w_msgpack w)" "(node_step w ok)\<^sup>*\<^sup>* (node_new specs n kcfg m wcfg) s"
  shows "room_reachable (ok r) (specs r) (nd_rooms s r)"
proof -
  have "room_step (ok r) (new_proc (specs r)) (nd_rooms (node_new specs n kcfg m wcfg) r)"
    using room_step.set_broadcaster [of "new_proc (specs r)" "ok r"] by (simp add: node_new_def new_proc_def newRoom_def Let_def)
  then show ?thesis
    using node_run_components(1) [OF assms, of r] by (simp add: room_reachable_def converse_rtranclp_into_rtranclp)
qed

section \<open>Lemmas: only the dispatcher adds to what a connection has accepted\<close>

definition accepted_at :: "(sess_ref, net_session) fmap \<Rightarrow> sess_ref \<Rightarrow> bytes list" where
  "accepted_at h a = (case fmlookup h a of None \<Rightarrow> [] | Some x \<Rightarrow> ts_accepted x)"

lemma accepted_upd [simp]: "accepted_at (fmupd b x h) a = (if a = b then ts_accepted x else accepted_at h a)"
  by (simp add: accepted_at_def)

lemma accepted_Some: "fmlookup h a = Some x \<Longrightarrow> accepted_at h a = ts_accepted x"
  by (simp add: accepted_at_def)

lemma accepted_None: "fmlookup h a = None \<Longrightarrow> accepted_at h a = []"
  by (simp add: accepted_at_def)

lemmas kcp_sessions = kcp_readStart_def kcp_readLoop_def kcp_writeLoop_def kcp_writeData_def kcp_removeSession_def

lemma close_accepted: "kcp_close pc b k s = Some (s', M) \<Longrightarrow> accepted_at (sv_heap s') a = accepted_at (sv_heap s) a"
  by (cases pc) (auto simp: kcp_removeSession_def accepted_Some split: option.splits once.splits)

lemma kcp_go_accepted:
  assumes "kcp_go io g s = Some (s', M)" "\<And>c d. g \<noteq> SendCall c d" "fmlookup (sv_heap s) (sv_next s) = None"
  shows "accepted_at (sv_heap s') a = accepted_at (sv_heap s) a"
proof (cases g)
  case (Closing pc b k)
  then show ?thesis using assms(1) close_accepted by (auto simp: kcp_go_def)
next
  case (StopCall as)
  with assms show ?thesis by (cases as) (auto simp: kcp_go_def)
qed (use assms in \<open>auto simp: kcp_goroutines fresh_session_def accepted_Some accepted_None
    split: option.splits if_splits io.splits list.splits\<close>)

lemma wss_go_accepted:
  assumes "wss_go io g s = Some (s', M)" "\<And>c d. g \<noteq> SendCall c d" "fmlookup (sv_heap s) (sv_next s) = None"
  shows "accepted_at (sv_heap s') a = accepted_at (sv_heap s) a"
proof (cases g)
  case (Closing pc b k)
  then show ?thesis using assms(1) close_accepted by (auto simp: wss_go_def wss_session_code)
next
  case (StopCall as)
  with assms show ?thesis by (cases as) (auto simp: wss_go_def wss_Stop_http_def split: option.splits)
qed (use assms in \<open>auto simp: wss_go_def wss_session_code kcp_sessions wss_Start_http_def wss_Start_go_def wss_serve_def
    handleUpgrade_def handleUpgrade_go_def wss_newSession_def nextWSSSessionID_def wss_readWait_def
    fresh_session_def accepted_Some accepted_None Let_def split: option.splits if_splits io.splits list.splits\<close>)

lemma calls_keep_heap:
  "kcp_call c s = (s', M) \<Longrightarrow> sv_heap s' = sv_heap s" "wss_call c u = (u', N) \<Longrightarrow> sv_heap u' = sv_heap u"
  by (auto simp: kcp_call_def wss_call_def kcp_Start_def kcp_Stop_def wss_Start_def wss_Stop_def cancel_ctx_def Let_def
      split: call.splits option.splits if_splits)

lemma send_accepted:
  assumes "fmlookup (sv_heap s) c = Some x" "kcp_go io (SendCall c d) s = Some (s', M)"
  shows "accepted_at (sv_heap s') a = accepted_at (sv_heap s) a @ (if a = c \<and> fst (kcp_Send_select d x) = None then [d] else [])"
  using assms by (auto simp: kcp_go_def kcp_Send_select_def accepted_Some)

lemma wss_send_accepted:
  assumes "fmlookup (sv_heap s) c = Some x" "wss_go io (SendCall c d) s = Some (s', M)"
  shows "accepted_at (sv_heap s') a = accepted_at (sv_heap s) a @ (if a = c \<and> fst (wss_Send_select d x) = None then [d] else [])"
  using assms by (auto simp: wss_go_def wss_Send_select_def accepted_Some)

section \<open>Lemmas: what a room does to the snapshot of a session\<close>

text \<open>A session that joins one room only and is not detached from it.\<close>

definition stays :: "string \<Rightarrow> nat \<Rightarrow> nat \<Rightarrow> RoomCommand \<Rightarrow> Room \<Rightarrow> bool" where
  "stays sid h r cmd rm \<longleftrightarrow>
     (cmd_SessionID cmd = sid \<longrightarrow>
        (if r = h then cmd_Kind cmd \<noteq> CmdLeave \<and> cmd_Kind cmd \<noteq> CmdDisconnect else cmd_Kind cmd \<noteq> CmdJoin))"

lemma snapshot_of_create [simp]: "snapshot_of (snd (GetOrCreate sid' c)) sid = snapshot_of c sid"
  by (auto simp: snapshot_of_def GetOrCreate_def Let_def split: option.splits)

lemma snapshot_of_remove [simp]: "sid' \<noteq> sid \<Longrightarrow> snapshot_of (SnapshotCache_Remove sid' c) sid = snapshot_of c sid"
  by (auto simp: snapshot_of_def GetOrCreate_def SnapshotCache_Remove_def Let_def split: option.splits)

lemma detach_sel [simp]:
  "snapshotCache (detach_session sid att pid r) = SnapshotCache_Remove sid (snapshotCache r)"
  "activeSessions (detach_session sid att pid r) = fmdrop sid (activeSessions r)"
  "broadcaster (detach_session sid att pid r) = broadcaster r"
  by (simp_all add: detach_session_def Let_def)

lemma release_sel [simp]:
  "snapshotCache (release_session_locks env sid r) = snapshotCache r" "activeSessions (release_session_locks env sid r) = activeSessions r"
  "broadcaster (release_session_locks env sid r) = broadcaster r"
  by (simp_all add: release_session_locks_def split: prod.split)

lemma move_sel [simp]:
  "snapshotCache (move_player env pid t tick r) = snapshotCache r" "activeSessions (move_player env pid t tick r) = activeSessions r"
  "broadcaster (move_player env pid t tick r) = broadcaster r"
  by (simp_all add: move_player_def Let_def split: option.split prod.split)

lemma Join_sel [simp]: "broadcaster (handle_Join cmd r) = broadcaster r"
  "snapshot_of (snapshotCache (handle_Join cmd r)) sid = snapshot_of (snapshotCache r) sid"
  by (simp_all add: handle_Join_def Let_def)

lemma handle_sel:
  "broadcaster (handleCommand env cmd tick r) = broadcaster r"
  "cmd_Kind cmd \<noteq> CmdLeave \<and> cmd_Kind cmd \<noteq> CmdDisconnect \<or> cmd_SessionID cmd \<noteq> sid \<Longrightarrow>
     snapshot_of (snapshotCache (handleCommand env cmd tick r)) sid = snapshot_of (snapshotCache r) sid"
  "cmd_Kind cmd \<noteq> CmdJoin \<or> cmd_SessionID cmd \<noteq> sid \<Longrightarrow> sid |\<notin>| fmdom (activeSessions r) \<Longrightarrow>
     sid |\<notin>| fmdom (activeSessions (handleCommand env cmd tick r))"
  by (auto simp: handleCommand_def handle_Leave_def handle_Disconnect_def handle_PlayerInput_def handle_UpdatePlayerTransform_def
      handle_ObjectLockAcquire_def handle_ObjectLockRefresh_def handle_ObjectLockRelease_def handle_ObjectUpdate_def handle_Join_def Let_def
      split: RoomCommandKind.splits option.splits Payload.splits prod.splits)

lemma room_step_sel:
  assumes "room_step (stays sid h r) p q" "\<And>tick. loop p = LoopDraining tick \<Longrightarrow> loop q = LoopDraining tick"
  shows "broadcaster (room p) \<Longrightarrow> broadcaster (room q)"
    and "r = h \<Longrightarrow> snapshot_of (snapshotCache (room q)) sid = snapshot_of (snapshotCache (room p)) sid"
    and "r \<noteq> h \<Longrightarrow> sid |\<notin>| fmdom (activeSessions (room p)) \<Longrightarrow> sid |\<notin>| fmdom (activeSessions (room q))"
  using assms
  by (cases rule: room_step.cases; auto simp: Enqueue_def CreateObject_def SetBroadcaster_def Start_def Stop_request_def Stop_finish_def
      tick_begin_def releaseExpiredLocks_def handle_sel stays_def split: if_splits prod.splits sum.splits RoomStatus.splits)+

text \<open>Before a broadcast whoever is visible is in the room, whatever the cluster configuration.\<close>

lemma recomputed_visible:
  assumes "room_inv r" "range_order (env_ord env)" "range_order ord"
    and r1_def: "r1 = (if shouldRecomputeCluster tick r then recomputeCluster env tick r else r)"
  shows "set (visible_for ord r1 pid ps) \<subseteq> fset (fmdom (players r1))"
proof -
  have inv: "room_inv r1" using assms by (simp add: r1_def recompute_inv)
  consider "\<not> clusterMembershipDirty r1 \<or> \<not> cl_Enabled (rc_ClusterConfig (config r1))"
    | "cl_Enabled (rc_ClusterConfig (config r1))" "validateConfig (rc_ClusterConfig (config r1)) \<noteq> None"
  proof (cases "shouldRecomputeCluster tick r")
    case True
    then show ?thesis using that by (cases rule: recompute_cases [OF assms(2), of r tick]) (auto simp: r1_def)
  next
    case False
    then show ?thesis using that by (auto simp: r1_def shouldRecomputeCluster_def Let_def split: if_splits)
  qed
  then show ?thesis
  proof cases
    case 1
    then show ?thesis by (rule visible_present [OF inv assms(3)])
  next
    case 2
    then have "clusterOutput r1 = emptyOutput" using inv by (simp add: room_inv_def cluster_inv_def)
    with 2 show ?thesis by (simp add: visible_for_def cluster_interest_def emptyOutput_def)
  qed
qed

lemma seen_by_frame [simp]: "seen_by ord (r\<lparr>snapshotCache := c, dirtyPlayers := d\<rparr>) = seen_by ord r"
proof -
  have "VisiblePlayersFor ord pid (r\<lparr>snapshotCache := c, dirtyPlayers := d\<rparr>) = VisiblePlayersFor ord pid r" for pid
    by (simp add: VisiblePlayersFor_def cluster_interest_def radius_interest_def cong: option.case_cong)
  then show ?thesis by (simp add: fun_eq_iff seen_by_def GetPlayerState_def split: option.split)
qed

lemma recompute_broadcaster [simp]: "broadcaster (recomputeCluster env tick r) = broadcaster r"
  by (simp add: recomputeCluster_def split: prod.split sum.split)

lemma build_result:
  "snd (buildDeltaBatches ord tick r) = r\<lparr>snapshotCache := snapshotCache (snd (buildDeltaBatches ord tick r))\<rparr>"
  "broadcaster (snd (buildDeltaBatches ord tick r)) = broadcaster r"
  "activeSessions (snd (buildDeltaBatches ord tick r)) = activeSessions r"
  by (simp_all add: buildDeltaBatches_def split: prod.split)

text \<open>The end of a tick as one session sees it.\<close>

lemma tick_end_session:
  assumes "tick_end env tick r = (bs, r')" and env: "\<And>i. range_order (env_ord (env i))" and "room_inv r" "broadcaster r"
    and coh: "coherent hist (snapshot_of (snapshotCache r) sid) v" "versions_name hist (players r)"
  obtains (skipped) "\<And>b. bs = Some b \<Longrightarrow> sid |\<notin>| fmdom b" "snapshot_of (snapshotCache r') sid = snapshot_of (snapshotCache r) sid"
  | (batched) b pd where "bs = Some b" "fmlookup b sid = Some \<lparr>db_Tick = tick, db_PlayerDelta = Some pd, db_ObjectDelta = None\<rparr>"
      "apply_delta pd v = seen_by (env_ord (env 2)) r' sid" "coherent hist (snapshot_of (snapshotCache r') sid) (apply_delta pd v)"
proof -
  define r1 where "r1 = (if shouldRecomputeCluster tick r then recomputeCluster (env 1) tick r else r)"
  let ?ord = "env_ord (env 2)"
  let ?b = "fst (buildDeltaBatches ?ord tick r1)"
  have r1: "activeSessions r1 = activeSessions r" "snapshotCache r1 = snapshotCache r" "players r1 = players r" "broadcaster r1"
    using assms(4) by (simp_all add: r1_def)
  show thesis
  proof (cases "isBroadcastTick tick r1")
    case False
    then show ?thesis using assms(1) r1 by (intro skipped) (simp_all add: tick_end_def Let_def flip: r1_def)
  next
    case True
    then have "broadcast (env 2) tick r1 = (bs, r')" using assms(1) by (simp add: tick_end_def Let_def flip: r1_def)
    then have bs: "bs = (if map_len ?b > 0 then Some ?b else None)"
      and "r' = (snd (buildDeltaBatches ?ord tick r1))\<lparr>dirtyPlayers := {||}\<rparr>"
      using r1(4) build_result(2) [of ?ord tick r1] by (auto simp: broadcast_def clearDirtyPlayers_def split: prod.splits)
    then have r': "r' = r1\<lparr>snapshotCache := snapshotCache (snd (buildDeltaBatches ?ord tick r1)), dirtyPlayers := {||}\<rparr>"
      using build_result(1) [of ?ord tick r1] by metis
    note look = buildDeltaBatches_lookup [OF env [of 2], of tick r1 sid]
    show ?thesis
    proof (cases "batch_for ?ord tick r1 sid (snapshot_of (snapshotCache r1) sid)")
      case None
      then show ?thesis using look r1(2) by (intro skipped) (auto simp: bs r' split: if_splits dest: fmdomI)
    next
      case (Some ps')
      then obtain att ps where att: "fmlookup (activeSessions r1) sid = Some att" "fmlookup (players r1) (att_playerID att) = Some ps"
        by (auto simp: batch_for_def split: option.splits)
      have seen: "seen_by ?ord r1 sid = (\<lambda>q. if q \<in> set (VisiblePlayersFor ?ord (att_playerID att) r1) then GetPlayerState q r1 else None)"
        by (simp add: seen_by_def att)
      obtain pd where pd: "fmlookup ?b sid = Some \<lparr>db_Tick = tick, db_PlayerDelta = Some pd, db_ObjectDelta = None\<rparr>"
        "apply_delta pd v = seen_by ?ord r1 sid" "coherent hist (snapshot_of (snapshotCache (snd (buildDeltaBatches ?ord tick r1))) sid) (apply_delta pd v)"
        using batch_shows [OF env [of 2] recomputed_visible [OF assms(3) env [of 1] env [of 2] r1_def] att, of hist v tick] coh r1(2,3)
        by (auto simp: seen)
      then have "map_len ?b \<noteq> 0" by auto
      with pd show ?thesis by (intro batched [of ?b pd]) (simp_all add: bs r')
    qed
  qed
qed

section \<open>Lemmas: a session and what it draws\<close>

lemma dispatch_call_cases:
  assumes "msgpack_roundtrip (w_msgpack w)" "range_order vord" "dispatch_call w vord lookup b sid = (results, calls)"
  obtains (idle) "delta_for b sid = None" "results = []" "calls = []"
  | (failed) "results \<noteq> []" "calls = []"
  | (call) pd c t d where "delta_for b sid = Some pd" "lookup sid = Some (c, t)" "calls = [(c, d)]" "results \<noteq> []"
      "\<And>v. draw (w_msgpack w) d (view_on_wire v) = view_on_wire (apply_delta pd v)"
proof (cases "delta_for b sid")
  case None
  then show thesis using assms(3) by (intro idle) (auto simp: dispatch_one_eq)
next
  case (Some pd)
  let ?m = "MsgPlayerDelta (ConvertPlayerDelta (Some pd))"
  show thesis
  proof (cases "lookup sid")
    case None
    then show thesis using assms(3) Some by (intro failed) (auto simp: dispatch_one_eq)
  next
    case (Some ct)
    obtain c t where ct: "lookup sid = Some (c, t)" using Some by (cases ct) auto
    show thesis
    proof (cases "EncodeAndWrap (w_msgpack w) vord CurrentVersion TypePlayerDelta 0 (pd_Tick pd) ?m")
      case (Inl e)
      then show thesis using assms(3) \<open>delta_for b sid = Some pd\<close> ct by (intro failed) (auto simp: dispatch_one_eq SendPlayerDelta_def)
    next
      case (Inr d)
      have "\<exists>env. DecodeAndUnwrap (w_msgpack w) sorted_order d KPlayerDelta = Inr (env, ?m)"
        using wrap_unwrap [OF assms(1,2) sorted_order_range Inr] by auto
      then have "draw (w_msgpack w) d (view_on_wire v) = view_on_wire (apply_delta pd v)" for v
        by (auto simp: draw_def apply_converted)
      with assms(3) \<open>delta_for b sid = Some pd\<close> ct Inr show thesis
        by (intro call [of pd c t d]) (auto simp: dispatch_one_eq SendPlayerDelta_def call_send_def)
    qed
  qed
qed

text \<open>The change a broadcast in progress still owes a session.\<close>

fun pending :: "phase \<Rightarrow> string \<Rightarrow> PlayerDelta option" where
  "pending Resting sid = None"
| "pending (Dispatching b sids) sid = (if sid \<in> set sids then delta_for b sid else None)"
| "pending (Sending i c t d b sids) sid = (if sid \<in> set (i # sids) then delta_for b sid else None)"

definition owed :: "PlayerDelta option \<Rightarrow> client_view \<Rightarrow> client_view" where
  "owed pd v = (case pd of None \<Rightarrow> v | Some d \<Rightarrow> apply_delta d v)"

definition synced :: "msgpack \<Rightarrow> (string \<Rightarrow> u32 \<Rightarrow> PlayerTransform) \<Rightarrow> ClientSnapshot \<Rightarrow> PlayerDelta option \<Rightarrow> bytes list \<Rightarrow> client_view list \<Rightarrow> bool" where
  "synced mp hist snap pd acc hs \<longleftrightarrow>
     (\<exists>v. coherent hist snap (owed pd v) \<and> draws mp acc = view_on_wire v \<and> owed pd v = last ((\<lambda>_. None) # hs)
        \<and> (\<forall>as. prefix as acc \<longrightarrow> draws mp as \<in> view_on_wire ` set ((\<lambda>_. None) # hs)))"

lemma synced_deliver:
  assumes "synced mp hist snap (Some pd) acc hs" "\<And>v. draw mp d (view_on_wire v) = view_on_wire (apply_delta pd v)"
  shows "synced mp hist snap None (acc @ [d]) hs"
proof -
  from assms(1) obtain v where v: "coherent hist snap (apply_delta pd v)" "draws mp acc = view_on_wire v"
    "apply_delta pd v = last ((\<lambda>_. None) # hs)" "\<And>as. prefix as acc \<Longrightarrow> draws mp as \<in> view_on_wire ` set ((\<lambda>_. None) # hs)"
    by (auto simp: synced_def owed_def)
  have d: "draws mp (acc @ [d]) = view_on_wire (apply_delta pd v)"
    using v(2) assms(2) by (simp add: draws_def)
  moreover have "apply_delta pd v \<in> set ((\<lambda>_. None) # hs)" unfolding v(3) by (rule last_in_set) simp
  ultimately have "draws mp as \<in> view_on_wire ` set ((\<lambda>_. None) # hs)" if "prefix as (acc @ [d])" for as
    using that v(4) by (auto simp: prefix_snoc)
  with v d show ?thesis unfolding synced_def owed_def by (intro exI [of _ "apply_delta pd v"]) auto
qed

lemma synced_shown:
  assumes "draws mp acc = view_on_wire v" "\<And>as. prefix as acc \<Longrightarrow> draws mp as \<in> view_on_wire ` set ((\<lambda>_. None) # hs)"
    and "owed pd v = u" "coherent hist snap u"
  shows "synced mp hist snap pd acc (hs @ [u])"
  using assms unfolding synced_def by (intro exI [of _ v]) auto

lemma empty_delta_idle: "PlayerDelta_IsEmpty d \<Longrightarrow> apply_delta d v = v"
  by (simp add: PlayerDelta_IsEmpty_def apply_delta_def)

text \<open>The structure of a broadcast in progress, and that the session has nothing to do with other rooms.\<close>

fun batches_in :: "phase \<Rightarrow> batches" where
  "batches_in Resting = fmempty"
| "batches_in (Dispatching b sids) = b"
| "batches_in (Sending i c t d b sids) = b"

fun phase_ok :: "wiring \<Rightarrow> phase \<Rightarrow> bool" where
  "phase_ok w Resting \<longleftrightarrow> True"
| "phase_ok w (Dispatching b sids) \<longleftrightarrow> distinct sids"
| "phase_ok w (Sending i c t d b sids) \<longleftrightarrow> distinct (i # sids) \<and> w_conn w i = Some (c, t)
     \<and> (\<exists>pd. delta_for b i = Some pd \<and> (\<forall>v. draw (w_msgpack w) d (view_on_wire v) = view_on_wire (apply_delta pd v)))"

definition tidy :: "wiring \<Rightarrow> nat \<Rightarrow> string \<Rightarrow> node \<Rightarrow> bool" where
  "tidy w h sid s \<longleftrightarrow>
     (\<forall>r. phase_ok w (nd_phase s r) \<and> broadcaster (room (nd_rooms s r))
        \<and> (r \<noteq> h \<longrightarrow> sid |\<notin>| fmdom (activeSessions (room (nd_rooms s r))) \<and> sid |\<notin>| fmdom (batches_in (nd_phase s r))))"

lemma receive_sel:
  assumes "msgpack_roundtrip (w_msgpack w)" "range_order ord"
  obtains cs where "room (receive w ord unix_ms now pkts rooms r) = (room (rooms r))\<lparr>commands := cs\<rparr>"
proof -
  have "\<exists>cs. fold (Receive_HandlePacket (w_msgpack w) ord (w_receiver w) unix_ms now) pkts store r = (store r)\<lparr>commands := cs\<rparr>" for store
  proof (induction pkts arbitrary: store)
    case Nil
    show ?case by (rule exI [of _ "commands (store r)"]) simp
  next
    case (Cons pkt pkts)
    obtain cs where cs: "Receive_HandlePacket (w_msgpack w) ord (w_receiver w) unix_ms now pkt store r = (store r)\<lparr>commands := cs\<rparr>"
      using assms
    proof (cases rule: Receive_cases [where a = "w_receiver w" and unix_ms = unix_ms and now = now and pkt = pkt and store = store])
      case ignored
      then show thesis by (intro that [of "commands (store r)"]) simp
    next
      case (queued r' cmd)
      then show thesis by (intro that [of "commands (store r) @ (if r' = r then [cmd] else [])"]) simp
    qed
    from Cons [of "Receive_HandlePacket (w_msgpack w) ord (w_receiver w) unix_ms now pkt store"] cs show ?case by auto
  qed
  from this [of "\<lambda>r. room (rooms r)"] show thesis by (auto simp: receive_def Let_def intro: that)
qed

lemma tick_end_sessions:
  assumes "tick_end env tick r = (bs, r')" "\<And>i. range_order (env_ord (env i))"
  shows "activeSessions r' = activeSessions r" "broadcaster r' = broadcaster r"
    and "bs = Some b \<Longrightarrow> sid |\<in>| fmdom b \<Longrightarrow> sid |\<in>| fmdom (activeSessions r)"
proof -
  define r1 where "r1 = (if shouldRecomputeCluster tick r then recomputeCluster (env 1) tick r else r)"
  let ?ord = "env_ord (env 2)"
  have same: "activeSessions r1 = activeSessions r" "broadcaster r1 = broadcaster r" by (simp_all add: r1_def)
  have e: "(bs, r') = (if isBroadcastTick tick r1 then broadcast (env 2) tick r1 else (None, r1))"
    using assms(1) by (simp add: tick_end_def Let_def flip: r1_def)
  have b: "activeSessions (snd (broadcast (env 2) tick r1)) = activeSessions r1 \<and> broadcaster (snd (broadcast (env 2) tick r1)) = broadcaster r1"
    by (simp add: broadcast_def clearDirtyPlayers_def build_result(2,3) case_prod_beta)
  with arg_cong [OF e, of snd] same show "activeSessions r' = activeSessions r" "broadcaster r' = broadcaster r"
    by (simp_all split: if_splits)
  assume "bs = Some b" "sid |\<in>| fmdom b"
  with e have "b = fst (buildDeltaBatches ?ord tick r1)" by (auto simp: broadcast_def split: if_splits prod.splits)
  with \<open>sid |\<in>| fmdom b\<close> show "sid |\<in>| fmdom (activeSessions r)"
    using buildDeltaBatches_lookup(1) [OF assms(2) [of 2], of tick r1 sid] batch_for_inactive [of sid r1 ?ord tick "snapshot_of (snapshotCache r1) sid"] same(1)
    by (cases "fmlookup (activeSessions r) sid") (auto simp: fmlookup_dom_iff)
qed

lemma node_step_tidy:
  assumes mp: "msgpack_roundtrip (w_msgpack w)" and step: "node_step w (stays sid h) s t" and inv: "tidy w h sid s"
  shows "tidy w h sid t"
proof -
  have keep: "tidy w h sid u"
    if "nd_rooms u = nd_rooms s" "nd_phase u = (nd_phase s)(r := ph)" "phase_ok w ph" "batches_in ph = batches_in (nd_phase s r) \<or> ph = Resting" for u r ph
    using inv that by (auto simp: tidy_def)
  have got: "tidy w h sid u" if "nd_rooms u = receive w ord unix_ms now pkts (nd_rooms s)" "nd_phase u = nd_phase s" "range_order ord" for u ord unix_ms now pkts
  proof -
    have "activeSessions (room (nd_rooms u r)) = activeSessions (room (nd_rooms s r)) \<and> broadcaster (room (nd_rooms u r)) = broadcaster (room (nd_rooms s r))" for r
      by (rule receive_sel [OF mp that(3), of unix_ms now pkts "nd_rooms s" r]) (simp add: that(1))
    with inv show ?thesis by (simp add: tidy_def that(2))
  qed
  have ok: "phase_ok w (nd_phase s r)" for r using inv by (simp add: tidy_def)
  from step show ?thesis
  proof cases
    case (room_moves r p)
    note sel = room_step_sel(1,3) [OF room_moves(2,3)]
    show ?thesis unfolding tidy_def
    proof
      fix r'
      show "phase_ok w (nd_phase t r') \<and> broadcaster (room (nd_rooms t r')) \<and> (r' \<noteq> h \<longrightarrow>
          sid |\<notin>| fmdom (activeSessions (room (nd_rooms t r'))) \<and> sid |\<notin>| fmdom (batches_in (nd_phase t r')))"
        using inv [unfolded tidy_def, rule_format, of r'] sel by (cases "r' = r") (simp_all add: room_moves(1))
    qed
  next
    case (tick_ends r tick env ord bs r')
    note sess = tick_end_sessions [OF tick_ends(7) tick_ends(5)]
    show ?thesis unfolding tidy_def
    proof
      fix r1
      show "phase_ok w (nd_phase t r1) \<and> broadcaster (room (nd_rooms t r1)) \<and> (r1 \<noteq> h \<longrightarrow>
          sid |\<notin>| fmdom (activeSessions (room (nd_rooms t r1))) \<and> sid |\<notin>| fmdom (batches_in (nd_phase t r1)))"
        using inv [unfolded tidy_def, rule_format, of r1] sess range_orderD(1) [OF tick_ends(6)]
        by (cases "r1 = r"; cases bs) (auto simp: tick_ends(1) start_dispatch_def)
    qed
  next
    case (no_call r b sid' sids lookup vord results)
    then show ?thesis using ok [of r] by (intro keep [of _ r "Dispatching b sids"]) auto
  next
    case (call_kcp r b sid' sids lookup vord results c d k G k' M)
    from mp call_kcp(4,5) show ?thesis
    proof (cases rule: dispatch_call_cases)
      case (call pd c' t' d')
      moreover have "w_conn w sid' = Some (c, KCP)" using call_kcp(3,6) by (auto simp: lookup_ok_def)
      ultimately show ?thesis using ok [of r] call_kcp
        by (intro keep [of _ r "if M = [] then Dispatching b sids else Sending sid' c KCP d b sids"]) auto
    qed simp_all
  next
    case (call_wss r b sid' sids lookup vord results c d k G k' M)
    from mp call_wss(4,5) show ?thesis
    proof (cases rule: dispatch_call_cases)
      case (call pd c' t' d')
      moreover have "w_conn w sid' = Some (c, WebSocket)" using call_wss(3,6) by (auto simp: lookup_ok_def)
      ultimately show ?thesis using ok [of r] call_wss
        by (intro keep [of _ r "if M = [] then Dispatching b sids else Sending sid' c WebSocket d b sids"]) auto
    qed simp_all
  next
    case (select_kcp r sid' c d b sids k G x io k' M)
    then show ?thesis using ok [of r] by (intro keep [of _ r "Dispatching b sids"]) auto
  next
    case (select_wss r sid' c d b sids k G x io k' M)
    then show ?thesis using ok [of r] by (intro keep [of _ r "Dispatching b sids"]) auto
  next
    case (dispatched r b)
    then show ?thesis by (intro keep [of _ r Resting]) auto
  next
    case (kcp_goes k g G io k' M ord unix_ms now)
    then show ?thesis by (intro got [of _ ord unix_ms now]) simp_all
  next
    case (wss_goes k g G io k' M ord unix_ms now)
    then show ?thesis by (intro got [of _ ord unix_ms now]) simp_all
  qed (use inv in \<open>simp_all add: tidy_def\<close>)
qed

definition accepted :: "node \<Rightarrow> conn_ref \<times> TransportType \<Rightarrow> bytes list" where
  "accepted s ct =
     (if snd ct = KCP then accepted_at (sv_heap (fst (nd_kcp s))) (fst ct)
      else if snd ct = WebSocket then accepted_at (sv_heap (fst (nd_wss s))) (fst ct) else [])"

lemma accepted_conn: "conn_of s ct = Some x \<Longrightarrow> accepted s ct = ts_accepted x"
  by (simp add: conn_of_def accepted_def accepted_Some split: if_splits)

definition in_step :: "wiring \<Rightarrow> (string \<Rightarrow> u32 \<Rightarrow> PlayerTransform) \<Rightarrow> nat \<Rightarrow> string \<Rightarrow> conn_ref \<times> TransportType \<Rightarrow> node \<Rightarrow> bool" where
  "in_step w hist h sid ct s \<longleftrightarrow>
     synced (w_msgpack w) hist (snapshot_of (snapshotCache (room (nd_rooms s h))) sid) (pending (nd_phase s h) sid)
       (accepted s ct) (nd_shown s sid)"

lemma in_step_same:
  assumes "in_step w hist h sid ct s" "snapshot_of (snapshotCache (room (nd_rooms t h))) sid = snapshot_of (snapshotCache (room (nd_rooms s h))) sid"
    and "pending (nd_phase t h) sid = pending (nd_phase s h) sid" "accepted t ct = accepted s ct" "nd_shown t sid = nd_shown s sid"
  shows "in_step w hist h sid ct t"
  using assms by (simp add: in_step_def)

text \<open>The loop of the room comes to a session, or its call of \<^verbatim>\<open>Send\<close> returns.\<close>

lemma in_step_call:
  assumes mp: "msgpack_roundtrip (w_msgpack w)" and "tidy w h sid s" "in_step w hist h sid ct s"
    and "nd_phase s r = Dispatching b (sid' # sids)" "range_order vord" "dispatch_call w vord lookup b sid' = (results, calls)"
    and t: "nd_rooms t = nd_rooms s" "accepted t ct = accepted s ct" "nd_shown t = nd_shown s"
    and ph: "nd_phase t = (nd_phase s)(r := ph)" "ph = Dispatching b sids \<and> (sid' = sid \<longrightarrow> results = []) \<or> (\<exists>c t d. ph = Sending sid' c t d b sids)"
  shows "in_step w hist h sid ct t"
proof (rule in_step_same [OF assms(3)])
  have "results = [] \<Longrightarrow> delta_for b sid' = None" using mp assms(5,6) by (cases rule: dispatch_call_cases) simp_all
  moreover have "distinct (sid' # sids)" using assms(2,4) by (metis phase_ok.simps(2) tidy_def)
  ultimately show "pending (nd_phase t h) sid = pending (nd_phase s h) sid"
    using ph assms(4) by (cases "r = h") auto
qed (use t in simp_all)

lemma in_step_select:
  assumes "tidy w h sid s" "in_step w hist h sid ct s" and sending: "nd_phase s r = Sending sid' c ty d b sids"
    and conn: "w_conn w sid = Some ct" "\<And>i. w_conn w i = Some ct \<Longrightarrow> i = sid"
    and t: "nd_rooms t = nd_rooms s" "nd_shown t = nd_shown s" "nd_phase t = (nd_phase s)(r := Dispatching b sids)"
    and acc: "accepted t ct = accepted s ct @ (if ct = (c, ty) \<and> good then [d] else [])" and "sid' = sid \<Longrightarrow> good"
  shows "in_step w hist h sid ct t"
proof -
  have ok: "distinct (sid' # sids)" "w_conn w sid' = Some (c, ty)" and "phase_ok w (nd_phase s r)"
    using assms(1) sending unfolding tidy_def by (metis phase_ok.simps(3))+
  then obtain pd where pd: "delta_for b sid' = Some pd" "\<And>v. draw (w_msgpack w) d (view_on_wire v) = view_on_wire (apply_delta pd v)"
    by (auto simp: sending)
  show ?thesis
  proof (cases "sid' = sid")
    case True
    then have "r = h"
    proof (rule_tac ccontr)
      assume "r \<noteq> h"
      then have "sid |\<notin>| fmdom b" using assms(1) sending unfolding tidy_def by (metis batches_in.simps(3))
      with pd(1) True show False by (simp add: delta_for_def fmdom_notD)
    qed
    have "pending (nd_phase s h) sid = Some pd" "pending (nd_phase t h) sid = None" using sending True pd(1) ok(1) t(3) \<open>r = h\<close> by auto
    moreover have "accepted t ct = accepted s ct @ [d]" using acc assms(10) True ok(2) conn(1) by simp
    ultimately show ?thesis using assms(2) synced_deliver [OF _ pd(2)] by (simp add: in_step_def t)
  next
    case False
    then have "ct \<noteq> (c, ty)" using ok(2) conn(2) by auto
    with acc sending t False show ?thesis by (intro in_step_same [OF assms(2)]) (cases "r = h"; simp)+
  qed
qed

lemma transports_differ [simp]: "KCP \<noteq> WebSocket" "WebSocket \<noteq> KCP"
  by (simp_all add: KCP_def WebSocket_def)

lemma delta_for_batch:
  "fmlookup b sid = Some \<lparr>db_Tick = k, db_PlayerDelta = Some pd, db_ObjectDelta = None\<rparr> \<Longrightarrow> owed (delta_for b sid) v = apply_delta pd v"
  by (simp add: delta_for_def owed_def empty_delta_idle)

lemma in_step_tick:
  assumes "in_step w hist h sid ct s" "nd_phase s h = Resting" "room_inv (room (nd_rooms s h))" "broadcaster (room (nd_rooms s h))"
    and tick: "tick_end env tick (room (nd_rooms s h)) = (bs, r')" and env: "\<And>i. range_order (env_ord (env i))" and ord: "range_order ord"
    and names: "versions_name hist (players (room (nd_rooms s h)))"
    and t: "room (nd_rooms t h) = r'" "nd_phase t h = start_dispatch ord bs" "nd_shown t = note_shown (env_ord (env 2)) bs r' (nd_shown s)"
      "accepted t ct = accepted s ct"
  shows "in_step w hist h sid ct t"
proof -
  from assms(1,2) obtain v where v: "coherent hist (snapshot_of (snapshotCache (room (nd_rooms s h))) sid) v"
      "draws (w_msgpack w) (accepted s ct) = view_on_wire v" "v = last ((\<lambda>_. None) # nd_shown s sid)"
      "\<And>as. prefix as (accepted s ct) \<Longrightarrow> draws (w_msgpack w) as \<in> view_on_wire ` set ((\<lambda>_. None) # nd_shown s sid)"
    by (auto simp: in_step_def synced_def owed_def)
  from tick env assms(3,4) v(1) names show ?thesis
  proof (cases rule: tick_end_session)
    case skipped
    then have "pending (nd_phase t h) sid = None"
      by (cases bs) (auto simp: t(2) start_dispatch_def delta_for_def fmdom_notD)
    with skipped show ?thesis using assms(1,2)
      by (intro in_step_same [OF assms(1)]) (auto simp: t note_shown_def split: option.split)
  next
    case (batched b pd)
    then have "sid |\<in>| fmdom b" by (auto dest: fmdomI)
    then have "pending (nd_phase t h) sid = delta_for b sid" "nd_shown t sid = nd_shown s sid @ [apply_delta pd v]"
      using range_orderD(2) [OF ord] batched by (simp_all add: t start_dispatch_def note_shown_def)
    then show ?thesis
      using synced_shown [OF v(2,4) delta_for_batch [OF batched(2)] batched(4)] by (simp add: in_step_def t)
  qed
qed

lemma node_step_in_step:
  assumes mp: "msgpack_roundtrip (w_msgpack w)" and step: "node_step w (stays sid h) s t" and tidy: "tidy w h sid s"
    and conn: "w_conn w sid = Some ct" "\<And>i. w_conn w i = Some ct \<Longrightarrow> i = sid"
    and inv: "room_inv (room (nd_rooms s h))"
    and fresh: "fmlookup (sv_heap (fst (nd_kcp s))) (sv_next (fst (nd_kcp s))) = None" "fmlookup (sv_heap (fst (nd_wss s))) (sv_next (fst (nd_wss s))) = None"
    and names: "versions_name hist (players (room (nd_rooms t h)))" and lost: "sid \<notin> nd_lost t" and before: "in_step w hist h sid ct s"
  shows "in_step w hist h sid ct t"
proof -
  have heard: "in_step w hist h sid ct u" if "nd_rooms u = receive w ord unix_ms now pkts (nd_rooms s)" "nd_phase u = nd_phase s"
    "accepted u ct = accepted s ct" "nd_shown u = nd_shown s" "range_order ord" for u ord unix_ms now pkts
    by (rule receive_sel [OF mp that(5), of unix_ms now pkts "nd_rooms s" h]) (rule in_step_same [OF before]; simp add: that)
  from step show ?thesis
  proof cases
    case (room_moves r p)
    then show ?thesis using room_step_sel(2) [OF room_moves(2,3)] by (intro in_step_same [OF before]) (simp_all add: accepted_def)
  next
    case (tick_ends r tick env ord bs r')
    show ?thesis
    proof (cases "r = h")
      case True
      have b: "broadcaster (room (nd_rooms s h))" using tidy by (simp add: tidy_def)
      have "players r' = players (room (nd_rooms s h))" using tick_ends(7) True by (metis snd_conv tick_end_frame(4))
      then have n: "versions_name hist (players (room (nd_rooms s h)))" using names by (simp add: tick_ends(1) True)
      show ?thesis
        by (rule in_step_tick [OF before tick_ends(4) [unfolded True] inv b tick_ends(7) [unfolded True] tick_ends(5,6) n])
          (simp_all add: tick_ends(1) True accepted_def)
    next
      case False
      then have "sid |\<notin>| fmdom (activeSessions (room (nd_rooms s r)))" using tidy by (simp add: tidy_def)
      then have "note_shown (env_ord (env 2)) bs r' (nd_shown s) sid = nd_shown s sid"
        using tick_end_sessions(3) [OF tick_ends(7,5)] by (auto simp: note_shown_def split: option.split)
      with False show ?thesis by (intro in_step_same [OF before]) (simp_all add: tick_ends(1) accepted_def)
    qed
  next
    case (no_call r b sid' sids lookup vord results)
    then show ?thesis using lost
      by (intro in_step_call [OF mp tidy before no_call(2,4,5), where ph = "Dispatching b sids"]) (auto simp: accepted_def)
  next
    case (call_kcp r b sid' sids lookup vord results c d k G k' M)
    have "accepted t ct = accepted s ct" using calls_keep_heap(1) [OF call_kcp(8)] by (simp add: call_kcp(1,7) accepted_def)
    then show ?thesis using lost call_kcp
      by (intro in_step_call [OF mp tidy before call_kcp(2,4,5), where ph = "if M = [] then Dispatching b sids else Sending sid' c KCP d b sids"]) auto
  next
    case (call_wss r b sid' sids lookup vord results c d k G k' M)
    have "accepted t ct = accepted s ct" using calls_keep_heap(2) [OF call_wss(8)] by (simp add: call_wss(1,7) accepted_def)
    then show ?thesis using lost call_wss
      by (intro in_step_call [OF mp tidy before call_wss(2,4,5), where ph = "if M = [] then Dispatching b sids else Sending sid' c WebSocket d b sids"]) auto
  next
    case (select_kcp r sid' c d b sids k G x io k' M)
    then show ?thesis using lost send_accepted [OF select_kcp(4,5)]
      by (intro in_step_select [OF tidy before select_kcp(2) conn, where good = "fst (kcp_Send_select d x) = None"])
        (auto simp: accepted_def prod_eq_iff)
  next
    case (select_wss r sid' c d b sids k G x io k' M)
    then show ?thesis using lost wss_send_accepted [OF select_wss(4,5)]
      by (intro in_step_select [OF tidy before select_wss(2) conn, where good = "fst (wss_Send_select d x) = None"])
        (auto simp: accepted_def prod_eq_iff)
  next
    case (dispatched r b)
    then show ?thesis by (intro in_step_same [OF before]) (auto simp: accepted_def)
  next
    case (kcp_goes k g G io k' M ord unix_ms now)
    have "accepted t ct = accepted s ct" using kcp_go_accepted [OF kcp_goes(4,3)] fresh by (simp add: kcp_goes(1,2) accepted_def)
    then show ?thesis by (intro heard [of _ ord unix_ms now]) (simp_all add: kcp_goes(1,5))
  next
    case (kcp_called k G c k' M)
    then show ?thesis using calls_keep_heap(1) [OF kcp_called(4)] by (intro in_step_same [OF before]) (simp_all add: accepted_def)
  next
    case (wss_goes k g G io k' M ord unix_ms now)
    have "accepted t ct = accepted s ct" using wss_go_accepted [OF wss_goes(4,3)] fresh by (simp add: wss_goes(1,2) accepted_def)
    then show ?thesis by (intro heard [of _ ord unix_ms now]) (simp_all add: wss_goes(1,5))
  next
    case (wss_called k G c k' M)
    then show ?thesis using calls_keep_heap(2) [OF wss_called(4)] by (intro in_step_same [OF before]) (simp_all add: accepted_def)
  qed
qed

text \<open>Runs in which a version of a player in the room always stands for the same transform.\<close>

definition named_step :: "wiring \<Rightarrow> (string \<Rightarrow> u32 \<Rightarrow> PlayerTransform) \<Rightarrow> string \<Rightarrow> nat \<Rightarrow> node \<Rightarrow> node \<Rightarrow> bool" where
  "named_step w hist sid h s t \<longleftrightarrow> node_step w (stays sid h) s t \<and> versions_name hist (players (room (nd_rooms t h)))"

lemma named_node: "(named_step w hist sid h)\<^sup>*\<^sup>* s t \<Longrightarrow> (node_step w (stays sid h))\<^sup>*\<^sup>* s t"
  by (erule rtranclp_mono [THEN predicate2D, rotated]) (auto simp: named_step_def)

lemma server_fresh:
  assumes "msgpack_roundtrip (w_msgpack w)" "(node_step w ok)\<^sup>*\<^sup>* (node_new specs n kcfg m wcfg) s"
  shows "fmlookup (sv_heap (fst (nd_kcp s))) (sv_next (fst (nd_kcp s))) = None" and "fmlookup (sv_heap (fst (nd_wss s))) (sv_next (fst (nd_wss s))) = None"
proof -
  note runs = node_run_components(2,3) [OF assms, unfolded node_new_def node.simps]
  have "lifecycle_inv (kcp_view (nd_kcp s))" "lifecycle_inv (wss_view (nd_wss s))"
    using kcp.invariants(1) [OF runs(1)] wss.invariants(1) [OF runs(2)] by blast+
  then show "fmlookup (sv_heap (fst (nd_kcp s))) (sv_next (fst (nd_kcp s))) = None" "fmlookup (sv_heap (fst (nd_wss s))) (sv_next (fst (nd_wss s))) = None"
    by (auto simp: kcp_view_def wss_view_def dest: lifecycle_invD(6))
qed

lemma run_in_step:
  assumes mp: "msgpack_roundtrip (w_msgpack w)" and run: "(named_step w hist sid h)\<^sup>*\<^sup>* (node_new specs n kcfg m wcfg) s"
    and conn: "w_conn w sid = Some ct" "\<And>i. w_conn w i = Some ct \<Longrightarrow> i = sid" and "sid \<notin> nd_lost s"
  shows "in_step w hist h sid ct s"
proof -
  let ?init = "node_new specs n kcfg m wcfg"
  have "tidy w h sid s \<and> (sid \<notin> nd_lost s \<longrightarrow> in_step w hist h sid ct s)"
    using run
  proof (induction rule: rtranclp_induct)
    case base
    have "coherent hist NewClientSnapshot (\<lambda>_. None)" by (simp add: coherent_def NewClientSnapshot_def)
    then have "in_step w hist h sid ct ?init"
      by (auto simp: in_step_def synced_def owed_def node_new_def accepted_def accepted_at_def kcp_new_def wss_new_def draws_def
          view_on_wire_def fun_eq_iff SetBroadcaster_def newRoom_def snapshot_of_def GetOrCreate_def NewSnapshotCache_def Let_def
          intro: exI [of _ "\<lambda>_. None"])
    moreover have "tidy w h sid ?init" by (simp add: tidy_def node_new_def SetBroadcaster_def newRoom_def Let_def)
    ultimately show ?case by simp
  next
    case (step s t)
    have s: "(node_step w (stays sid h))\<^sup>*\<^sup>* ?init s" and st: "node_step w (stays sid h) s t" "versions_name hist (players (room (nd_rooms t h)))"
      using step(1,2) by (auto simp: named_node named_step_def)
    have "nd_lost s \<subseteq> nd_lost t" using st(1) by cases auto
    moreover have "room_inv (room (nd_rooms s h))" by (rule reachable_room_inv [OF node_room_reachable [OF mp s]])
    ultimately show ?case
      using step(3) node_step_tidy [OF mp st(1)] node_step_in_step [OF mp st(1) _ conn _ server_fresh [OF mp s] st(2)] by blast
  qed
  with assms(5) show ?thesis by simp
qed

end
