(* ===== verification/NodeProperties.thy ===== *)
theory NodeProperties
  imports Node
begin

text \<open>
  What holds of the whole server: its parts keep what was proved of them, commands from the network fit
  the handlers of the room, and clients draw what was visible to them at a broadcast. A script language makes
  the node executable; the witnesses run it.
\<close>

section \<open>Running a node by a script\<close>

datatype event =
  StartRoom nat
| Queue nat RoomCommand
| BeginTick nat
| HandleNext nat
| EndTick nat
| DispatchNext nat
| SelectNext nat
| EndDispatch nat
| KcpGo goroutine io
| KcpCall call

definition lookup_now :: "wiring \<Rightarrow> node \<Rightarrow> session_lookup" where
  "lookup_now w s sid = Option.bind (w_conn w sid) (\<lambda>ct. map_option (\<lambda>_. ct) (conn_of s ct))"

lemma lookup_now_ok: "lookup_ok w s (lookup_now w s)"
  by (auto simp: lookup_ok_def lookup_now_def bind_eq_Some_conv)

fun is_send :: "goroutine \<Rightarrow> bool" where
  "is_send (SendCall c d) \<longleftrightarrow> True"
| "is_send _ \<longleftrightarrow> False"

fun node_do :: "wiring \<Rightarrow> (nat \<Rightarrow> RoomCommand \<Rightarrow> Room \<Rightarrow> bool) \<Rightarrow> event \<Rightarrow> node \<Rightarrow> node option" where
  "node_do w ok (StartRoom r) s =
     (let p = nd_rooms s r in
      if nd_phase s r = Resting \<and> loop p = LoopNone then
        (case Start (room p) of (None, r') \<Rightarrow> Some (s\<lparr>nd_rooms := (nd_rooms s)(r := p\<lparr>room := r', loop := LoopIdle\<rparr>)\<rparr>) | _ \<Rightarrow> None)
      else None)"
| "node_do w ok (Queue r cmd) s =
     (let p = nd_rooms s r in Some (s\<lparr>nd_rooms := (nd_rooms s)(r := p\<lparr>room := snd (Enqueue cmd (room p))\<rparr>)\<rparr>))"
| "node_do w ok (BeginTick r) s =
     (let p = nd_rooms s r in
      if nd_phase s r = Resting \<and> loop p = LoopIdle then
        (let r' = tick_begin demo_env (room p) in Some (s\<lparr>nd_rooms := (nd_rooms s)(r := p\<lparr>room := r', loop := LoopDraining (currentTick r')\<rparr>)\<rparr>))
      else None)"
| "node_do w ok (HandleNext r) s =
     (let p = nd_rooms s r in
      case (loop p, commands (room p)) of
        (LoopDraining tick, cmd # rest) \<Rightarrow>
          if ok r cmd (room p)
          then Some (s\<lparr>nd_rooms := (nd_rooms s)(r := p\<lparr>room := handleCommand demo_env cmd tick ((room p)\<lparr>commands := rest\<rparr>)\<rparr>)\<rparr>)
          else None
      | _ \<Rightarrow> None)"
| "node_do w ok (EndTick r) s =
     (let p = nd_rooms s r in
      case (loop p, commands (room p), nd_phase s r) of
        (LoopDraining tick, [], Resting) \<Rightarrow>
          (case tick_end (\<lambda>_. demo_env) tick (room p) of (bs, r') \<Rightarrow>
             Some (s\<lparr>nd_rooms := (nd_rooms s)(r := p\<lparr>room := r', loop := LoopIdle\<rparr>),
               nd_phase := (nd_phase s)(r := start_dispatch sorted_order bs),
               nd_shown := note_shown sorted_order bs r' (nd_shown s)\<rparr>))
      | _ \<Rightarrow> None)"
| "node_do w ok (DispatchNext r) s =
     (case nd_phase s r of
        Dispatching b (sid # sids) \<Rightarrow>
          (case dispatch_call w sorted_order (lookup_now w s) b sid of
             (results, []) \<Rightarrow> Some (s\<lparr>nd_phase := (nd_phase s)(r := Dispatching b sids),
                nd_lost := (if results = [] then nd_lost s else insert sid (nd_lost s))\<rparr>)
           | (results, [(c, d)]) \<Rightarrow>
               if lookup_now w s sid = Some (c, KCP) then
                 (case nd_kcp s of (k, G) \<Rightarrow> (case kcp_call (SendNow c d) k of (k', M) \<Rightarrow>
                   Some (s\<lparr>nd_kcp := (k', mset M + G), nd_lost := (if M = [] then insert sid (nd_lost s) else nd_lost s),
                     nd_phase := (nd_phase s)(r := (if M = [] then Dispatching b sids else Sending sid c KCP d b sids))\<rparr>)))
               else None
           | _ \<Rightarrow> None)
      | _ \<Rightarrow> None)"
| "node_do w ok (SelectNext r) s =
     (case (nd_phase s r, nd_kcp s) of
        (Sending sid c t d b sids, k, G) \<Rightarrow>
          if t = KCP \<and> SendCall c d \<in># G then
            (case (fmlookup (sv_heap k) c, kcp_go Ok (SendCall c d) k) of
               (Some x, Some (k', M)) \<Rightarrow>
                 Some (s\<lparr>nd_kcp := (k', mset M + (G - {#SendCall c d#})),
                   nd_lost := (if fst (kcp_Send_select d x) = None then nd_lost s else insert sid (nd_lost s)),
                   nd_phase := (nd_phase s)(r := Dispatching b sids)\<rparr>)
             | _ \<Rightarrow> None)
          else None
      | _ \<Rightarrow> None)"
| "node_do w ok (EndDispatch r) s =
     (case nd_phase s r of Dispatching b [] \<Rightarrow> Some (s\<lparr>nd_phase := (nd_phase s)(r := Resting)\<rparr>) | _ \<Rightarrow> None)"
| "node_do w ok (KcpGo g io) s =
     (case nd_kcp s of (k, G) \<Rightarrow>
        if g \<in># G \<and> \<not> is_send g then
          (case kcp_go io g k of
             Some (k', M) \<Rightarrow>
               if length (sv_dispatched k) < length (sv_dispatched k') then None
               else Some (s\<lparr>nd_kcp := (k', mset M + (G - {#g#}))\<rparr>)
           | None \<Rightarrow> None)
        else None)"
| "node_do w ok (KcpCall c) s =
     (case nd_kcp s of (k, G) \<Rightarrow> (case c of
        SendNow a d \<Rightarrow> None
      | _ \<Rightarrow> (case kcp_call c k of (k', M) \<Rightarrow> Some (s\<lparr>nd_kcp := (k', mset M + G)\<rparr>))))"

lemma receive_none [simp]: "receive w ord unix_ms now [] rooms = rooms"
  by (simp add: receive_def fun_eq_iff)

lemma note_lost: "S \<union> {i. i = sid \<and> P} = (if P then insert sid S else S)"
  by auto

lemma node_do_room:
  assumes "node_do w ok e s = Some t" "e \<in> {StartRoom r, Queue r cmd, BeginTick r, HandleNext r}"
  shows "node_step w ok s t"
proof -
  note moves = node_step.room_moves [of ok r s _ w]
  from assms(2) consider "e = StartRoom r" | "e = Queue r cmd" | "e = BeginTick r" | "e = HandleNext r" by blast
  then show ?thesis
  proof cases
    case 1
    with assms(1) show ?thesis
      by (auto simp: Let_def split: if_splits prod.splits option.splits intro!: moves intro: room_step.start)
  next
    case 2
    with assms(1) show ?thesis
      by (auto simp: Let_def intro!: moves intro: room_step.enqueue [OF prod.collapse [symmetric]])
  next
    case 3
    with assms(1) show ?thesis
      by (auto simp: Let_def split: if_splits intro!: moves dest: room_step.tick_begin [where env = demo_env and ok = "ok r", OF _ _ refl])
  next
    case 4
    with assms(1) show ?thesis
      by (auto simp: Let_def split: if_splits loop_phase.splits list.splits intro!: moves intro: room_step.handle [where env = demo_env])
  qed
qed

lemma node_do_call:
  assumes "node_do w ok (DispatchNext r) s = Some t"
  shows "node_step w ok s t"
proof -
  from assms obtain b sid sids where ph: "nd_phase s r = Dispatching b (sid # sids)"
    by (auto split: phase.splits list.splits)
  obtain results calls where d: "dispatch_call w sorted_order (lookup_now w s) b sid = (results, calls)" by fastforce
  show ?thesis
  proof (cases calls)
    case Nil
    with assms ph d node_step.no_call [OF ph lookup_now_ok sorted_order_range, where results = results and ok = ok] show ?thesis
      by (simp add: note_lost split: if_splits)
  next
    case (Cons cd rest)
    obtain c dat where cd: "cd = (c, dat)" by (cases cd)
    obtain k G k' M where k: "nd_kcp s = (k, G)" "kcp_call (SendNow c dat) k = (k', M)" by fastforce
    have l: "rest = []" "lookup_now w s sid = Some (c, KCP)" using assms ph d Cons cd by (auto split: list.splits if_splits)
    with assms ph d Cons cd k node_step.call_kcp [OF ph lookup_now_ok sorted_order_range, where results = results and c = c and d = dat and k = k and G = G and k' = k' and M = M and ok = ok] show ?thesis
      by (simp add: note_lost split: if_splits)
  qed
qed

lemma node_do_sound:
  assumes "node_do w ok e s = Some t"
  shows "node_step w ok s t"
proof (cases e)
  case (EndTick r)
  with assms show ?thesis
    using node_step.tick_ends [where s = s and r = r and env = "\<lambda>_. demo_env" and ord = sorted_order and w = w and ok = ok]
    by (auto simp: Let_def demo_env_def split: loop_phase.splits list.splits phase.splits prod.splits)
next
  case (SelectNext r)
  with assms obtain sid c d b sids k G x k' M where e: "nd_phase s r = Sending sid c KCP d b sids" "nd_kcp s = (k, G)" "SendCall c d \<in># G"
      "fmlookup (sv_heap k) c = Some x" "kcp_go Ok (SendCall c d) k = Some (k', M)"
    by (auto split: phase.splits prod.splits if_splits option.splits)
  with node_step.select_kcp [where s = s and r = r and G = "G - {#SendCall c d#}", OF e(1) _ e(4,5), of w ok] assms SelectNext show ?thesis
    by (simp add: note_lost split: if_splits)
next
  case (EndDispatch r)
  with assms show ?thesis by (auto split: phase.splits list.splits intro: node_step.dispatched)
next
  case (KcpGo g io)
  with assms obtain k G k' M where e: "nd_kcp s = (k, G)" "g \<in># G" "\<not> is_send g" "kcp_go io g k = Some (k', M)"
      "length (sv_dispatched k') \<le> length (sv_dispatched k)" "t = s\<lparr>nd_kcp := (k', mset M + (G - {#g#}))\<rparr>"
    by (auto split: prod.splits if_splits option.splits)
  have "node_step w ok s (s\<lparr>nd_kcp := (k', mset M + (G - {#g#})),
      nd_rooms := receive w sorted_order 0 0 (drop (length (sv_dispatched k)) (sv_dispatched k')) (nd_rooms s)\<rparr>)"
    by (rule node_step.kcp_goes [OF _ _ e(4)]) (use e(1-3) in auto)
  with e(5,6) show ?thesis by simp
next
  case (KcpCall c)
  with assms show ?thesis by (cases c) (auto simp: no_send_def split: prod.splits intro: node_step.kcp_called)
next
  case (DispatchNext r)
  with assms node_do_call show ?thesis by blast
qed (use assms node_do_room in blast)+

text \<open>A script whose runs keep the names of versions.\<close>

fun node_script :: "wiring \<Rightarrow> string \<Rightarrow> nat \<Rightarrow> PlayerTransform \<Rightarrow> event list \<Rightarrow> node \<Rightarrow> node option" where
  "node_script w sid h t0 [] s = Some s"
| "node_script w sid h t0 (e # es) s =
     (case node_do w (stays sid h) e s of
        None \<Rightarrow> None
      | Some t \<Rightarrow> if fmpred (\<lambda>_ p. ps_Transform p = t0) (players (room (nd_rooms t h))) then node_script w sid h t0 es t else None)"

lemma node_script_run: "node_script w sid h t0 es s = Some t \<Longrightarrow> (named_step w (\<lambda>_ _. t0) sid h)\<^sup>*\<^sup>* s t"
proof (induction es arbitrary: s)
  case (Cons e es)
  then obtain u where u: "node_do w (stays sid h) e s = Some u" "fmpred (\<lambda>_ p. ps_Transform p = t0) (players (room (nd_rooms u h)))"
      "node_script w sid h t0 es u = Some t" by (auto split: option.splits if_splits)
  then have "named_step w (\<lambda>_ _. t0) sid h s u"
    by (auto simp: named_step_def node_do_sound versions_name_def fmpred_iff)
  then show ?case using Cons(1) [OF u(3)] by (rule converse_rtranclp_into_rtranclp)
qed simp

section \<open>Values used by the witnesses\<close>

definition node_delta :: PlayerDelta where
  "node_delta = \<lparr>pd_Tick = 2, pd_Enters = [\<lparr>pe_PlayerID = ''p2'', pe_Transform = ps_Transform (NewPlayerState [] [] 0), pe_Version = 0\<rparr>],
     pd_Updates = [], pd_Leaves = []\<rparr>"
definition demo_receiver :: ReceiveLoopAdapter where
  "demo_receiver = NewReceiveLoopAdapter (NewPacketProcessor (NewRealtimePacketHandler (\<lambda>_. Inr (Some 0)))
     (NewSessionPacketRouter (\<lambda>_. (''p1'', ''ann''))))"

definition demo_wiring :: wiring where
  "demo_wiring = \<lparr>w_msgpack = one_message (MsgPlayerDelta (ConvertPlayerDelta (Some node_delta)))
       \<lparr>env_Version = 1, env_Type = TypePlayerDelta, env_Seq = 0, env_Tick = 2, env_Body = [1]\<rparr>,
     w_receiver = demo_receiver,
     w_conn = (\<lambda>sid. if sid = ''s1'' then Some (0, KCP) else None)\<rparr>"
definition demo_node :: node where
  "demo_node = node_new (\<lambda>_. demo_spec) 0 kcp_demo_cfg 0 \<lparr>wc_ListenAddr = '':9001'', wc_TLSCertFile = [], wc_TLSKeyFile = [], wc_AllowedOrigins = [],
     wc_MaxPayloadSize = 0, wc_ReadTimeout = 0, wc_WriteTimeout = 0, wc_SendQueueSize = 0, wc_DevMode = False\<rparr>"
definition demo_connect :: "event list" where
  "demo_connect = [KcpCall (StartCall True), KcpGo (StartSpawn 0) Ok, KcpGo (AcceptLoop 0) Ok, KcpGo (AcceptSpawn 0 0) Ok, KcpGo (ReadStart 0 0) Ok]"
definition demo_join :: "event list" where
  "demo_join = [StartRoom 0, Queue 0 (demo_cmd CmdJoin ''s1'' ''p1'' ''ann''), Queue 0 (demo_cmd CmdJoin ''s2'' ''p2'' ''bob''), BeginTick 0, HandleNext 0, HandleNext 0, EndTick 0,
     BeginTick 0, EndTick 0]"
definition demo_deliver :: "event list" where
  "demo_deliver = [DispatchNext 0, SelectNext 0, DispatchNext 0, EndDispatch 0, KcpGo (WriteLoop 0 0) PickData, KcpGo (WriteData 0 0 [7, 7]) Ok]"
abbreviation start_transform :: PlayerTransform where "start_transform \<equiv> ps_Transform (NewPlayerState [] [] 0)"

definition demo_broadcasting :: "node \<Rightarrow> bool" where
  "demo_broadcasting s \<longleftrightarrow>
     (case nd_phase s 0 of Dispatching b sids \<Rightarrow> delta_for b ''s1'' = Some node_delta \<and> delta_for b ''s2'' \<noteq> None \<and> sids = [''s1'', ''s2''] | _ \<Rightarrow> False)
     \<and> (case fmlookup (sv_heap (fst (nd_kcp s))) 0 of
          Some x \<Rightarrow> ts_sendCh x = [] \<and> 0 < ts_cap x \<and> \<not> ts_closed x \<and> ts_written x = [] | None \<Rightarrow> False)
     \<and> WriteLoop 0 0 \<in># snd (nd_kcp s) \<and> ''s1'' \<notin> nd_lost s
     \<and> fmpred (\<lambda>_ p. ps_Transform p = start_transform) (players (room (nd_rooms s 0)))
     \<and> map (\<lambda>v. v ''p2'') (nd_shown s ''s1'') = [Some (start_transform, 0)]"

lemma demo_joined:
  obtains s b k G x where "node_script demo_wiring ''s1'' 0 start_transform (demo_connect @ demo_join) demo_node = Some s"
    "nd_phase s 0 = Dispatching b [''s1'', ''s2'']" "delta_for b ''s1'' = Some node_delta" "delta_for b ''s2'' \<noteq> None"
    "nd_kcp s = (k, add_mset (WriteLoop 0 0) G)" "fmlookup (sv_heap k) 0 = Some x" "ts_sendCh x = []" "0 < ts_cap x" "\<not> ts_closed x" "ts_written x = []"
    "''s1'' \<notin> nd_lost s" "fmpred (\<lambda>_ p. ps_Transform p = start_transform) (players (room (nd_rooms s 0)))"
    "map (\<lambda>v. v ''p2'') (nd_shown s ''s1'') = [Some (start_transform, 0)]"
proof -
  have "case node_script demo_wiring ''s1'' 0 start_transform (demo_connect @ demo_join) demo_node of None \<Rightarrow> False | Some s \<Rightarrow> demo_broadcasting s"
    by code_simp
  then obtain s where s: "node_script demo_wiring ''s1'' 0 start_transform (demo_connect @ demo_join) demo_node = Some s" "demo_broadcasting s"
    by (auto split: option.splits)
  obtain k H where k: "nd_kcp s = (k, H)" by fastforce
  with s(2) have "WriteLoop 0 0 \<in># H" by (simp add: demo_broadcasting_def)
  then obtain G where "H = add_mset (WriteLoop 0 0) G" by (rule multi_member_split [THEN exE]) auto
  with s k show thesis by (auto simp: demo_broadcasting_def split: phase.splits option.splits intro: that)
qed

lemma node_delta_encodes:
  "EncodeAndWrap (w_msgpack demo_wiring) sorted_order CurrentVersion TypePlayerDelta 0 (pd_Tick node_delta)
     (MsgPlayerDelta (ConvertPlayerDelta (Some node_delta))) = Inr [7, 7]"
proof -
  have "valid_msg (MsgPlayerDelta (ConvertPlayerDelta (Some node_delta)))" by code_simp
  then show ?thesis
    unfolding EncodeAndWrap_iff [OF sorted_order_range]
    by (simp del: valid_msg.simps add: demo_wiring_def one_message_def CurrentVersion_def IsImplemented_def MaxPayloadSize_def MaxPacketSize_def node_delta_def)
qed

lemma node_script_append:
  "node_script w sid h t0 (as @ bs) s = Option.bind (node_script w sid h t0 as s) (node_script w sid h t0 bs)"
  by (induction as arbitrary: s) (auto split: option.splits)

definition writer_waits :: "node \<Rightarrow> conn_ref \<times> TransportType \<Rightarrow> bool" where
  "writer_waits s ct \<longleftrightarrow> (\<exists>n. WriteLoop n (fst ct) \<in># (if snd ct = KCP then snd (nd_kcp s) else snd (nd_wss s)))"

lemma demo_delivered:
  obtains s x where "node_script demo_wiring ''s1'' 0 start_transform (demo_connect @ demo_join @ demo_deliver) demo_node = Some s"
    "nd_phase s 0 = Resting" "conn_of s (0, KCP) = Some x" "ts_sendCh x = []" "ts_written x = [[7, 7]]" "writer_waits s (0, KCP)"
    "''s1'' \<notin> nd_lost s" "map (\<lambda>v. v ''p2'') (nd_shown s ''s1'') = [Some (start_transform, 0)]"
proof (rule demo_joined)
  fix s b k G x
  assume s: "node_script demo_wiring ''s1'' 0 start_transform (demo_connect @ demo_join) demo_node = Some s"
    and f: "nd_phase s 0 = Dispatching b [''s1'', ''s2'']" "delta_for b ''s1'' = Some node_delta" "delta_for b ''s2'' \<noteq> None"
    "nd_kcp s = (k, add_mset (WriteLoop 0 0) G)" "fmlookup (sv_heap k) 0 = Some x" "ts_sendCh x = []" "0 < ts_cap x" "\<not> ts_closed x" "ts_written x = []"
    "fmpred (\<lambda>_ p. ps_Transform p = start_transform) (players (room (nd_rooms s 0)))"
    and g: "''s1'' \<notin> nd_lost s" "map (\<lambda>v. v ''p2'') (nd_shown s ''s1'') = [Some (start_transform, 0)]"
  have l: "w_conn demo_wiring ''s1'' = Some (0, KCP)" "w_conn demo_wiring ''s2'' = None" by (simp_all add: demo_wiring_def)
  obtain pd where pd: "delta_for b ''s2'' = Some pd" using f(3) by blast
  have d: "dispatch_call demo_wiring sorted_order (lookup_now demo_wiring s) b ''s1'' = ([\<lparr>sr_SessionID = ''s1'', sr_Transport = KCP, sr_Error = None\<rparr>], [(0, [7, 7])])"
    using f l node_delta_encodes by (simp add: dispatch_one_eq lookup_now_def conn_of_def SendPlayerDelta_def call_send_def)
  have d2: "dispatch_call demo_wiring sorted_order (lookup_now demo_wiring u) b ''s2'' = ([\<lparr>sr_SessionID = ''s2'', sr_Transport = [], sr_Error = Some (NoSuchSession ''s2'')\<rparr>], [])" for u
    using pd l by (simp add: dispatch_one_eq lookup_now_def)
  obtain t where t: "node_script demo_wiring ''s1'' 0 start_transform demo_deliver s = Some t"
    "nd_phase t 0 = Resting" "\<exists>y. conn_of t (0, KCP) = Some y \<and> ts_sendCh y = [] \<and> ts_written y = [[7, 7]]" "WriteLoop 0 0 \<in># snd (nd_kcp t)"
    "''s1'' \<notin> nd_lost t" "nd_shown t = nd_shown s"
    using f(10) g(1) unfolding demo_deliver_def
    by (simp add: f(1-9) d d2 l lookup_now_def conn_of_def kcp_call_def kcp_IsClosed_def kcp_go_def kcp_Send_select_def kcp_writeLoop_def kcp_writeData_def)
  have "node_script demo_wiring ''s1'' 0 start_transform ((demo_connect @ demo_join) @ demo_deliver) demo_node = Some t"
    unfolding node_script_append [of _ _ _ _ "demo_connect @ demo_join"] s using t(1) by simp
  then have run: "node_script demo_wiring ''s1'' 0 start_transform (demo_connect @ demo_join @ demo_deliver) demo_node = Some t" by simp
  from t(3) obtain y where y: "conn_of t (0, KCP) = Some y" "ts_sendCh y = []" "ts_written y = [[7, 7]]" by blast
  have "writer_waits t (0, KCP)" using t(4) by (auto simp: writer_waits_def)
  then show thesis by (rule that [OF run t(2) y _ t(5)]) (simp add: t(6) g(2))
qed

section \<open>Lemmas\<close>

lemma node_in_order:
  assumes mp: "msgpack_roundtrip (w_msgpack w)" and run: "(node_step w ok)\<^sup>*\<^sup>* (node_new specs n kcfg m wcfg) s"
    and x: "conn_of s ct = Some x"
  shows "prefix (ts_written x) (ts_accepted x)" and "writer_waits s ct \<Longrightarrow> ts_accepted x = ts_written x @ ts_sendCh x"
proof -
  note runs = node_run_components(2,3) [OF mp run, unfolded node_new_def node.simps]
  have wl: "WriteLoop i c \<in># G \<Longrightarrow> (c, []) \<in># writers G" for i c G by (auto dest: multi_member_split)
  have "prefix (ts_written x) (ts_accepted x) \<and> length (ts_sendCh x) \<le> ts_cap x \<and> (\<forall>w. (fst ct, w) \<in># writers (if snd ct = KCP then snd (nd_kcp s) else snd (nd_wss s))
      \<longrightarrow> ts_accepted x = ts_written x @ w @ ts_sendCh x)"
  proof (cases "snd ct = KCP")
    case True
    then have "fmlookup (sv_heap (pool.truncate (fst (nd_kcp s)))) (fst ct) = Some x" using x by (simp add: conn_of_def)
    with kcp.in_order [OF runs(1), of "pool.truncate (fst (nd_kcp s))" "snd (nd_kcp s)" "fst ct" x] True
    show ?thesis by (auto simp: kcp_view_def)
  next
    case False
    then have "fmlookup (sv_heap (pool.truncate (fst (nd_wss s)))) (fst ct) = Some x" using x by (simp add: conn_of_def split: if_splits)
    with wss.in_order [OF runs(2), of "pool.truncate (fst (nd_wss s))" "snd (nd_wss s)" "fst ct" x] False
    show ?thesis by (auto simp: wss_view_def)
  qed
  moreover have "(fst ct, []) \<in># writers (if snd ct = KCP then snd (nd_kcp s) else snd (nd_wss s))" if "writer_waits s ct"
    using that wl unfolding writer_waits_def by blast
  ultimately show "prefix (ts_written x) (ts_accepted x)" "writer_waits s ct \<Longrightarrow> ts_accepted x = ts_written x @ ts_sendCh x"
    by fastforce+
qed

lemma command_moves:
  assumes "command_for unix_ms ctx cmd" "0 < unix_ms"
  shows "\<exists>tr. ValidatePlayerTransform tr = None \<and> (\<forall>env tick rm. handleCommand env cmd tick rm = move_player env (cmd_PlayerID cmd) tr tick rm)"
  using assms
  by (auto simp: command_for_def handleCommand_def handle_PlayerInput_def handle_UpdatePlayerTransform_def ValidatePlayerInput_def)

section \<open>Properties\<close>



text \<open>
  C4: Commands from the network fit their handlers. Whatever packets the transports hand over, from whichever sessions
  and at whatever times, each room's queue grows by commands in the order of the packets they
  came in, under the identities the server resolved for their sessions, and nothing else
  of any room changes. Each of these commands carries the payload its handler expects and a valid
  transform, so the handler always gets to the move itself and never drops the command for its type or contents.
\<close>

theorem received_commands_typed:
  assumes "msgpack_roundtrip mp" and "range_order ord" and "\<forall>(unix_ms, now, pkt)\<in>set arrivals. 0 < unix_ms"
    and "fold (\<lambda>(unix_ms, now, pkt). Receive_HandlePacket mp ord a unix_ms now pkt) arrivals store = store'"
  shows "\<exists>new. store' r = (store r)\<lparr>commands := commands (store r) @ new\<rparr> \<and> subseq (map cmd_SessionID new) (map (\<lambda>(_, _, pkt). fst pkt) arrivals)
    \<and> (\<forall>cmd\<in>set new. (cmd_PlayerID cmd, cmd_UserID cmd) = sp_resolve (pp_router (ra_processor a)) (cmd_SessionID cmd)
        \<and> (\<exists>tr. ValidatePlayerTransform tr = None \<and> (\<forall>env tick rm. handleCommand env cmd tick rm = move_player env (cmd_PlayerID cmd) tr tick rm)))"
    (is "\<exists>new. _ \<and> _ \<and> (\<forall>cmd\<in>set new. ?fits cmd)")
  using assms(3,4)
proof (induction arrivals arbitrary: store)
  case Nil
  then show ?case by (intro exI [of _ "[]"]) simp
next
  case (Cons arr arrivals)
  obtain unix_ms now pkt where arr: "arr = (unix_ms, now, pkt)" by (cases arr)
  let ?next = "Receive_HandlePacket mp ord a unix_ms now pkt store"
  have "\<forall>(unix_ms, now, pkt)\<in>set arrivals. 0 < unix_ms"
    "fold (\<lambda>(unix_ms, now, pkt). Receive_HandlePacket mp ord a unix_ms now pkt) arrivals ?next = store'"
    using Cons(2,3) by (auto simp: arr)
  from Cons(1) [OF this] obtain new where ih: "store' r = (?next r)\<lparr>commands := commands (?next r) @ new\<rparr>"
      "subseq (map cmd_SessionID new) (map (\<lambda>(_, _, pkt). fst pkt) arrivals)" "\<forall>cmd\<in>set new. ?fits cmd"
    by blast
  from assms(1,2) show ?case
  proof (cases rule: Receive_cases [where a = a and unix_ms = unix_ms and now = now and pkt = pkt and store = store])
    case ignored
    with ih show ?thesis by (intro exI [of _ new]) (auto simp: arr)
  next
    case (queued r' cmd)
    have "0 < unix_ms" using Cons(2) by (simp add: arr)
    then have "?fits cmd" and sid: "cmd_SessionID cmd = fst pkt"
      using queued(3) command_moves [OF queued(3)] by (auto simp: command_for_def ResolveContext_def split: prod.splits)
    show ?thesis
    proof (cases "r' = r")
      case True
      with ih queued(2) \<open>?fits cmd\<close> show ?thesis by (intro exI [of _ "cmd # new"]) (simp add: arr sid)
    next
      case False
      with ih queued(2) show ?thesis by (intro exI [of _ new]) (auto simp: arr)
    qed
  qed
qed

theorem received_commands_typed_witness:
  "\<exists>new. commands (Receive_HandlePacket (one_message demo_msg demo_envelope) sorted_order demo_receiver 1000 5 (''s1'', [7, 7]) demo_store 0) = new
     \<and> (\<forall>cmd\<in>set new. (cmd_PlayerID cmd, cmd_UserID cmd) = (''p1'', ''ann''))"
proof -
  let ?store = "Receive_HandlePacket (one_message demo_msg demo_envelope) sorted_order demo_receiver 1000 5 (''s1'', [7, 7]) demo_store"
  from received_commands_typed [OF one_message_roundtrip sorted_order_range, of "[(1000, 5, (''s1'', [7, 7]))]" demo_msg demo_envelope demo_receiver demo_store ?store 0]
  obtain new where "?store 0 = (demo_store 0)\<lparr>commands := commands (demo_store 0) @ new\<rparr>"
      "\<forall>cmd\<in>set new. (cmd_PlayerID cmd, cmd_UserID cmd) = sp_resolve (pp_router (ra_processor demo_receiver)) (cmd_SessionID cmd)"
    by auto
  then show ?thesis
    by (intro exI [of _ new]) (simp add: demo_store_free demo_receiver_def NewReceiveLoopAdapter_def NewPacketProcessor_def NewSessionPacketRouter_def)
qed



end
