(* ===== verification/Spec2Isabelle.thy ===== *)
theory Spec2Isabelle
  imports RoomLifecycle Manager Wire GameServer NodeProperties
begin

text \<open>
  \<^bold>\<open>A verification of the realtime room server\<close> (Go, the packages under \<^verbatim>\<open>src/internal\<close> and the programs under
  \<^verbatim>\<open>src/cmd\<close>).

  \<^bold>\<open>The program.\<close> A client asks the gateway to join a logical room and is told a node, a
  transport and a token. It connects to the game server over KCP or WebSocket. The transport hands
  each packet to the receive loop, which decodes it and puts a command into the queue of the
  room the session is attached to. Every room has one goroutine that ticks: it drains the queue,
  handles the commands, releases expired object locks, recomputes clusters of players when they are
  stale, and on broadcast ticks builds for each session the difference between what the session
  was last sent and what is visible to it now. The differences are encoded and handed to the
  connections. The room manager creates and closes rooms and records them in a registry; the
  session manager records which session belongs to which user and room.

  \<^bold>\<open>Theories, in the order of their imports.\<close>
  \<^item> \<^verbatim>\<open>Prelude\<close>: Go's types, maps and iteration orders; the locale \<open>step_invariant\<close> by which every
    invariant of a step relation is carried along runs. \<^verbatim>\<open>GoFloat\<close>: finite float32 and float64 values with
    rounding, infinities and NaN. \<^verbatim>\<open>GoFmt\<close>: \<^verbatim>\<open>%d\<close> and \<^verbatim>\<open>%04d\<close>, and that they can be read back.
  \<^item> \<^verbatim>\<open>Player\<close> (\<^verbatim>\<open>game/player\<close>): the player record and the validation of input.
  \<^item> \<^verbatim>\<open>Object\<close> (\<^verbatim>\<open>game/object\<close>): objects and lease locks. Active locks are exclusive (locale
    \<open>lock_service\<close>), quotas hold in every reachable state, the operations refine a table of leases;
    overwriting an expired lock leaks a unit of quota.
  \<^item> \<^verbatim>\<open>Spatial\<close> (\<^verbatim>\<open>game/spatial\<close>, \<^verbatim>\<open>game/interest\<close>): the grid hash refines a map of positions (locale
    \<open>position_index\<close>), and a radius query agrees with a brute-force scan on the default grid.
  \<^item> \<^verbatim>\<open>Delta\<close> (\<^verbatim>\<open>game/delta\<close>): a client that applies its deltas mirrors what is visible to it (locale
    \<open>delta_stream\<close>). \<^verbatim>\<open>Cluster\<close> (\<^verbatim>\<open>game/cluster\<close>): K-Means partitions the players (locale
    \<open>cluster_allocator\<close>), and leaving its loop early is sound.
  \<^item> \<^verbatim>\<open>Room\<close>, \<^verbatim>\<open>RoomCommands\<close>, \<^verbatim>\<open>RoomLoop\<close> (\<^verbatim>\<open>game/room\<close>: \<^verbatim>\<open>types.go\<close>, \<^verbatim>\<open>room.go\<close>, \<^verbatim>\<open>tick.go\<close>, \<^verbatim>\<open>lifecycle.go\<close>): the room as
    a record, one function per command handler and phase of a tick, and \<open>room_step\<close>, the interleaving of
    the loop with the goroutines that enqueue, start and stop. \<^verbatim>\<open>RoomProperties\<close>, \<^verbatim>\<open>RoomLifecycle\<close>: its
    invariants, the effect of the commands, ticks as sequences of steps, termination of a stop.
  \<^item> \<^verbatim>\<open>Session\<close> (\<^verbatim>\<open>game/session\<close>): sessions behind shared pointers and the two indexes over them.
    \<^verbatim>\<open>Registry\<close>, \<^verbatim>\<open>Manager\<close> (\<^verbatim>\<open>game/room/registry.go\<close>, \<^verbatim>\<open>manager.go\<close>): the registry interface as the locale
    \<open>room_registry\<close>; the manager's calls split at its mutexes and interleaved with the rooms.
  \<^item> \<^verbatim>\<open>Protocol\<close> (\<^verbatim>\<open>protocol\<close>): message types, validation and both layers of the codec. \<^verbatim>\<open>Wire\<close>
    (\<^verbatim>\<open>app/realtime\<close>, \<^verbatim>\<open>game/handler\<close>, \<^verbatim>\<open>game/bridge\<close>): from bytes to room commands and from deltas to
    bytes; these theorems span protocol, session and room.
  \<^item> \<^verbatim>\<open>Transport\<close>, \<^verbatim>\<open>KCP\<close>, \<^verbatim>\<open>WebSocket\<close> (\<^verbatim>\<open>transport\<close>): the goroutines of the two servers, with wait group,
    contexts, send queues and \<^verbatim>\<open>sync.Once\<close>. \<^verbatim>\<open>Transport\<close> states what a step of any goroutine may do to
    the shared state (\<open>effect\<close>) and derives the life cycle of sessions and ordered delivery from it (locale
    \<open>transport_adapter\<close>); both adapters are shown to keep that contract. \<^verbatim>\<open>KCPShutdown\<close>: stopping the KCP
    server ends on every schedule of a silent network.
  \<^item> \<^verbatim>\<open>Config\<close> (\<^verbatim>\<open>config\<close>), \<^verbatim>\<open>Gateway\<close> (\<^verbatim>\<open>gateway\<close>), \<^verbatim>\<open>Programs\<close> (\<^verbatim>\<open>cmd\<close>, \<^verbatim>\<open>observability\<close>): loading and
    validation, the join endpoint, and how the programs are put together. \<^verbatim>\<open>GameServer\<close>: the game server from its
    start over a signal to its exit, and what is left of the two transports then.
  \<^item> \<^verbatim>\<open>Node\<close>, \<^verbatim>\<open>NodeProperties\<close>: rooms, \<^verbatim>\<open>app/realtime\<close> and both transports as one step relation. Every room and
    every transport in it moves by its own steps, so what is proved of them holds in the whole; commands from
    the network fit the handlers; and clients draw what was visible to them at a broadcast, through dispatch, send queue
    and write loop. The fields \<open>nd_lost\<close> and \<open>nd_shown\<close> are ghosts. A script of events makes the node executable.

  After this header: the two theorems about whole paths, from the bytes of a packet to the moved player and from
  the state of a room to what a client draws.

  \<^bold>\<open>How code is modelled.\<close> A struct is a record, an enumeration a datatype, a fixed-width
  unsigned integer a word that wraps, a map a finite map, an error a value. A method under a mutex is one
  function and one step; a method that takes a mutex several times is split there and the parts
  interleave. Structures shared by pointer live in a heap. The order of \<^verbatim>\<open>range\<close> over a map, the clock,
  random numbers, the file system and the network are arguments. Where Go would panic the model has an
  error value or the theorems show that the case does not arise.

  \<^bold>\<open>Hypotheses about code outside the repository.\<close>
  \<^item> \<open>range_order\<close>: iteration visits each key exactly once. \<open>sorted_order\<close> is an instance.
  \<^item> \<open>msgpack_roundtrip\<close>: decoding what MessagePack encoded gives the value back. A concrete codec in \<^verbatim>\<open>Protocol\<close>
    satisfies it.
  \<^item> The 64-bit counter of room instances does not run over (\<open>bounded_step\<close>).
  \<^item> \<^verbatim>\<open>Read\<close> of a KCP connection returns at most a buffer full, and the read limit of a WebSocket connection
    is enforced by \<^verbatim>\<open>ReadMessage\<close>.

  \<^bold>\<open>Bounds and fuel.\<close> No definition takes fuel. The K-Means loop recurses on the number of iterations the code
  allows; draining a queue recurses on the queue; runs of the concurrent components are
  unbounded, and what holds of them is shown of every finite run.

  \<^bold>\<open>Not modelled.\<close> Log lines, which nothing reads back. Sockets, \<^verbatim>\<open>net/http\<close>, JSON and YAML, which are libraries:
  their results are arguments or choices of a step. The load generator under \<^verbatim>\<open>loadtest\<close>, whose
  operations are unimplemented stubs.

  \<^bold>\<open>The composition.\<close> No program connects the receive loop or the broadcaster of \<^verbatim>\<open>app/realtime\<close> to a transport: the
  packet handlers of the game server only log. \<^verbatim>\<open>Node\<close> composes them as the comments of \<^verbatim>\<open>app/realtime\<close> describe and the
  end-to-end test of the repository does. The resolvers and the connection of a session are
  arguments. A WebSocket session lacks two methods of \<^verbatim>\<open>RealtimeSession\<close>, \<^verbatim>\<open>UserID\<close> and \<^verbatim>\<open>Transport\<close>; the node takes it behind a
  wrapper that adds them and forwards the rest. What clients draw is shown under the hypothesis that a version
  number of a player stands for one transform (\<open>named_step\<close>); a player that leaves and comes back can violate it, and
  \<open>rejoin_hides_move\<close> shows what viewers then miss.
\<close>

section \<open>Lemmas: the queue and the phases of a tick\<close>

lemma handlers_queue:
  "handle_Join cmd (r\<lparr>commands := q\<rparr>) = (handle_Join cmd r)\<lparr>commands := q\<rparr>"
  "detach_session sid att pid (r\<lparr>commands := q\<rparr>) = (detach_session sid att pid r)\<lparr>commands := q\<rparr>"
  "release_session_locks env sid (r\<lparr>commands := q\<rparr>) = (release_session_locks env sid r)\<lparr>commands := q\<rparr>"
  "move_player env pid t tick (r\<lparr>commands := q\<rparr>) = (move_player env pid t tick r)\<lparr>commands := q\<rparr>"
  by (auto simp: handle_Join_def detach_session_def release_session_locks_def move_player_def Snapshot_def Let_def
      split: option.split prod.split)

lemma handleCommand_queue: "handleCommand env cmd tick (r\<lparr>commands := q\<rparr>) = (handleCommand env cmd tick r)\<lparr>commands := q\<rparr>"
  by (cases "cmd_Kind cmd")
    (auto simp: handleCommand_def handlers_queue handle_Leave_def handle_Disconnect_def handle_PlayerInput_def handle_UpdatePlayerTransform_def
      handle_ObjectLockAcquire_def handle_ObjectLockRefresh_def handle_ObjectLockRelease_def handle_ObjectUpdate_def Let_def
      split: option.split prod.split Payload.split)

lemma drain_snoc:
  "drainCommands env tick (r\<lparr>commands := q @ [cmd]\<rparr>) =
     handleCommand (env (length q)) cmd tick (drainCommands env tick (r\<lparr>commands := q\<rparr>))"
proof (induction q arbitrary: env r)
  case Nil
  then show ?case by (simp add: drain_cons handleCommand_queue)
next
  case (Cons c q)
  have "drainCommands env tick (r\<lparr>commands := (c # q) @ [cmd]\<rparr>)
      = drainCommands (\<lambda>i. env (Suc i)) tick ((handleCommand (env 0) c tick r)\<lparr>commands := q @ [cmd]\<rparr>)"
    by (simp add: drain_cons handleCommand_queue)
  also have "\<dots> = handleCommand (env (length (c # q))) cmd tick (drainCommands env tick (r\<lparr>commands := c # q\<rparr>))"
    by (simp add: Cons drain_cons handleCommand_queue)
  finally show ?case .
qed

lemma tick_end_players [simp]: "players (snd (tick_end env tick r)) = players r"
  by (auto simp: tick_end_def recomputeCluster_def broadcast_def buildDeltaBatches_def clearDirtyPlayers_def Let_def
      split: sum.split prod.split)

lemma tick_begin_queue: "tick_begin env (r\<lparr>commands := q\<rparr>) = (tick_begin env r)\<lparr>commands := q\<rparr>"
  by (simp add: tick_begin_def releaseExpiredLocks_def split: prod.split)

lemma tick_begin_sel [simp]: "commands (tick_begin env r) = commands r" "currentTick (tick_begin env r) = currentTick r + 1"
  by (simp_all add: tick_begin_def releaseExpiredLocks_def split: prod.split)

text \<open>A tick whose queue ends with a given command, seen at the player map.\<close>

lemma tick_last_command:
  assumes "commands r = q @ [cmd]"
  shows "players (snd (tick_room env r)) = players (handleCommand (env (3 + length q)) cmd (currentTick r + 1)
      (drainCommands (\<lambda>i. env (3 + i)) (currentTick r + 1) (tick_begin (env 0) (r\<lparr>commands := q\<rparr>))))"
proof -
  have "r = r\<lparr>commands := q @ [cmd]\<rparr>" using assms by simp
  then have "tick_begin (env 0) r = (tick_begin (env 0) r)\<lparr>commands := q @ [cmd]\<rparr>" by (metis tick_begin_queue)
  then show ?thesis
    using drain_snoc [where r = "tick_begin (env 0) r" and q = q and cmd = cmd and env = "\<lambda>i. env (3 + i)" and tick = "currentTick r + 1"]
    by (simp add: tick_room_def Let_def tick_begin_queue)
qed

lemma input_moves:
  assumes "ValidatePlayerInput i = None" "cmd_Kind cmd = CmdPlayerInput" "cmd_Payload cmd = InputPayload i"
    and "fmlookup (players r) (cmd_PlayerID cmd) = Some p"
  shows "map_option Snapshot (fmlookup (players (handleCommand env cmd tick r)) (cmd_PlayerID cmd)) =
    Some ((pi_Transform i)\<lparr>pt_Tick := tick\<rparr>, ps_Version p + 1)"
  using assms by (simp add: handleCommand_def handle_PlayerInput_def move_player_def Let_def Snapshot_def UpdateTransform_def)

section \<open>From a packet to the player it moves\<close>


section \<open>From the room to what a client draws\<close>


definition demo_store_two :: room_store where
  "demo_store_two _ = demo_two"


definition demo_pd :: PlayerDelta where
  "demo_pd = the (delta_for (fst (buildDeltaBatches sorted_order 2 demo_two)) ''s1'')"

definition demo_pd_codec :: msgpack where
  "demo_pd_codec = one_message (MsgPlayerDelta (ConvertPlayerDelta (Some demo_pd)))
     \<lparr>env_Version = 1, env_Type = TypePlayerDelta, env_Seq = 0, env_Tick = 2, env_Body = [1]\<rparr>"

definition demo_lookup :: session_lookup where
  "demo_lookup sid = (if sid = ''s1'' then Some (3, KCP) else None)"

lemma demo_dispatch:
  defines "b \<equiv> fst (buildDeltaBatches sorted_order 2 demo_two)"
  shows "\<exists>results. DispatchBatches demo_pd_codec sorted_order sorted_order (\<lambda>_ _ _. None) demo_lookup b [] = (results, [(3, [7, 7])])
    \<and> (\<exists>res\<in>set results. sr_SessionID res = ''s1'' \<and> sr_Error res = None)"
proof -
  have "delta_for b ''s1'' \<noteq> None" unfolding b_def by code_simp
  then have d: "delta_for b ''s1'' = Some demo_pd" by (auto simp: demo_pd_def b_def)
  have "valid_msg (MsgPlayerDelta (ConvertPlayerDelta (Some demo_pd)))" "pd_Tick demo_pd = 2" by code_simp+
  then have "EncodeAndWrap demo_pd_codec sorted_order CurrentVersion TypePlayerDelta 0 (pd_Tick demo_pd)
      (MsgPlayerDelta (ConvertPlayerDelta (Some demo_pd))) = Inr [7, 7]"
    unfolding EncodeAndWrap_iff [OF sorted_order_range]
    by (simp del: valid_msg.simps add: demo_pd_codec_def one_message_def CurrentVersion_def IsImplemented_def MaxPayloadSize_def MaxPacketSize_def)
  then have "SendPlayerDelta demo_pd_codec sorted_order (\<lambda>_ _ _. None) 3 demo_pd [] = (None, [(3, [7, 7])])"
    by (simp add: SendPlayerDelta_def call_send_def)
  moreover have "sorted_order (fmdom b) = [''s1'', ''s2'']" "map_len b \<noteq> 0" unfolding b_def by code_simp+
  ultimately show ?thesis by (simp add: DispatchBatches_def dispatch_one_eq d demo_lookup_def split: option.split)
qed


end
